(* ===== verification/Prelude.thy ===== *)
theory Prelude
  imports Main "HOL-Library.Word"
begin

text \<open>
  Prelude of the development: the collections of facts the component theories share, and the
  parts of the JavaScript standard library the source uses on strings and numbers
  (\<open>trim\<close>, \<open>split\<close>, \<open>startsWith\<close>, \<open>padStart\<close>, \<open>slice\<close>, \<open>String(n)\<close>,
  \<open>Number(s)\<close>), with the generic lemmas on them. A JavaScript string is a \<open>string\<close>
  (list of code units, restricted to eight bits; text beyond ASCII is written as its UTF-8 bytes).
\<close>

named_theorems run_simps \<open>equations that execute a program of the model on a state\<close>
named_theorems sql_simps \<open>effects of the SQL statements on the tables\<close>
named_theorems keeps \<open>programs that keep the database constraints\<close>
named_theorems key_simps \<open>facts about the Redis keys the services build\<close>

subsection \<open>Truthiness\<close>

text \<open>\<open>!s\<close> for a value of type \<open>string | null | undefined\<close>: absent or empty.\<close>

fun truthy_str :: "string option \<Rightarrow> bool" where
  "truthy_str None = False"
| "truthy_str (Some s) = (s \<noteq> [])"

lemma truthy_str_iff: "truthy_str x \<longleftrightarrow> (\<exists>s. x = Some s \<and> s \<noteq> [])"
  by (cases x) auto

subsection \<open>Characters and strings\<close>

definition is_digit :: "char \<Rightarrow> bool" where
  "is_digit c \<longleftrightarrow> 48 \<le> (of_char c :: nat) \<and> (of_char c :: nat) \<le> 57"

definition digit_char :: "nat \<Rightarrow> char" where
  "digit_char d = char_of (48 + d)"

definition digit_val :: "char \<Rightarrow> nat" where
  "digit_val c = (of_char c :: nat) - 48"

text \<open>White space that \<open>String.prototype.trim\<close> removes, within ASCII.\<close>

definition is_space :: "char \<Rightarrow> bool" where
  "is_space c \<longleftrightarrow> c \<in> {CHR 0x20, CHR 0x09, CHR 0x0A, CHR 0x0B, CHR 0x0C, CHR 0x0D}"

definition trim :: "string \<Rightarrow> string" where
  "trim s = rev (dropWhile is_space (rev (dropWhile is_space s)))"

text \<open>\<open>s.split(c)\<close> for a one-character separator: never the empty list.\<close>

fun split_on :: "char \<Rightarrow> string \<Rightarrow> string list" where
  "split_on c [] = [[]]"
| "split_on c (x # xs) =
     (if x = c then [] # split_on c xs
      else (case split_on c xs of [] \<Rightarrow> [[x]] | w # ws \<Rightarrow> (x # w) # ws))"

definition starts_with :: "string \<Rightarrow> string \<Rightarrow> bool" where
  "starts_with p s \<longleftrightarrow> take (length p) s = p"

text \<open>\<open>s.slice(a, b)\<close> with \<open>0 \<le> a \<le> b\<close>.\<close>

definition slice :: "nat \<Rightarrow> nat \<Rightarrow> string \<Rightarrow> string" where
  "slice a b s = take (b - a) (drop a s)"

definition pad_start :: "nat \<Rightarrow> char \<Rightarrow> string \<Rightarrow> string" where
  "pad_start n c s = replicate (n - length s) c @ s"

lemma split_on_not_Nil [simp]: "split_on c s \<noteq> []"
  by (cases s) (auto split: list.splits)

lemma length_pad_start: "length (pad_start n c s) = max n (length s)"
  by (simp add: pad_start_def)

lemma set_pad_start: "set (pad_start n c s) \<subseteq> insert c (set s)"
  by (auto simp: pad_start_def)

lemma is_digit_digit_char: "d < 10 \<Longrightarrow> is_digit (digit_char d)"
  by (simp add: is_digit_def digit_char_def of_char_of)

lemma digit_val_digit_char: "d < 10 \<Longrightarrow> digit_val (digit_char d) = d"
  by (simp add: digit_val_def digit_char_def of_char_of)

lemma digit_char_digit_val: "is_digit c \<Longrightarrow> digit_char (digit_val c) = c"
  by (simp add: digit_char_def digit_val_def is_digit_def)

lemma starts_with_append [simp]: "starts_with p (p @ s)"
  by (simp add: starts_with_def)

lemma trim_no_space: "\<forall>c \<in> set s. \<not> is_space c \<Longrightarrow> trim s = s"
proof -
  have *: "\<forall>c \<in> set t. \<not> is_space c \<Longrightarrow> dropWhile is_space t = t" for t
    by (cases t) auto
  assume "\<forall>c \<in> set s. \<not> is_space c"
  then show ?thesis by (simp add: trim_def *)
qed

lemma split_on_no_sep: "c \<notin> set s \<Longrightarrow> split_on c s = [s]"
  by (induction s) auto

subsection \<open>Numbers as decimal text\<close>

text \<open>\<open>String(n)\<close> for a non-negative integer.\<close>

fun show_nat :: "nat \<Rightarrow> string" where
  "show_nat n = (if n < 10 then [digit_char n] else show_nat (n div 10) @ [digit_char (n mod 10)])"

declare show_nat.simps [simp del]

definition show_int :: "int \<Rightarrow> string" where
  "show_int i = (if i < 0 then CHR ''-'' # show_nat (nat (- i)) else show_nat (nat i))"

definition dec_val :: "string \<Rightarrow> nat" where
  "dec_val s = foldl (\<lambda>acc c. 10 * acc + digit_val c) 0 s"

text \<open>
  The decimal integer a text denotes, \<open>None\<close> when it is not one: what Redis \<open>INCR\<close>
  requires of a value, and what \<open>Number(s)\<close> gives on the texts this code stores.
\<close>

definition parse_nat :: "string \<Rightarrow> nat option" where
  "parse_nat s = (if s \<noteq> [] \<and> list_all is_digit s then Some (dec_val s) else None)"

definition parse_int :: "string \<Rightarrow> int option" where
  "parse_int s = (case s of
      [] \<Rightarrow> None
    | c # cs \<Rightarrow> if c = CHR ''-'' then map_option (\<lambda>n. - int n) (parse_nat cs)
                 else map_option int (parse_nat s))"

lemma show_nat_not_Nil [simp]: "show_nat n \<noteq> []"
  by (subst show_nat.simps) simp

lemma show_nat_digits: "list_all is_digit (show_nat n)"
proof (induction n rule: show_nat.induct)
  case (1 n)
  then show ?case by (subst show_nat.simps) (simp add: is_digit_digit_char)
qed

lemma dec_val_snoc: "dec_val (s @ [c]) = 10 * dec_val s + digit_val c"
  by (simp add: dec_val_def)

lemma dec_val_show_nat: "dec_val (show_nat n) = n"
proof (induction n rule: show_nat.induct)
  case (1 n)
  show ?case
  proof (cases "n < 10")
    case True
    then show ?thesis
      by (subst show_nat.simps) (simp add: dec_val_def digit_val_digit_char)
  next
    case False
    with 1 show ?thesis
      by (subst show_nat.simps) (simp add: dec_val_snoc digit_val_digit_char)
  qed
qed

lemma parse_show_nat [simp]: "parse_nat (show_nat n) = Some n"
  by (simp add: parse_nat_def show_nat_digits dec_val_show_nat)

lemma show_nat_Cons_not_minus: "show_nat n = c # cs \<Longrightarrow> c \<noteq> CHR ''-''"
  using show_nat_digits [of n] by (auto simp: is_digit_def)

lemma parse_show_int [simp]: "parse_int (show_int i) = Some i"
proof (cases "i < 0")
  case True
  then show ?thesis by (simp add: show_int_def parse_int_def)
next
  case False
  then obtain c cs where s: "show_nat (nat i) = c # cs"
    by (cases "show_nat (nat i)") auto
  have "parse_nat (c # cs) = Some (nat i)"
    using parse_show_nat [of "nat i"] by (simp add: s)
  with False s show_nat_Cons_not_minus [OF s] show ?thesis
    by (simp add: show_int_def parse_int_def)
qed

lemma show_int_inject: "show_int i = show_int j \<longleftrightarrow> i = j"
  by (metis option.inject parse_show_int)

lemma length_show_nat: "n < 10 ^ Suc k \<Longrightarrow> length (show_nat n) \<le> Suc k"
proof (induction k arbitrary: n)
  case 0
  then show ?case by (subst show_nat.simps) simp
next
  case (Suc k)
  show ?case
  proof (cases "n < 10")
    case True
    then show ?thesis by (subst show_nat.simps) simp
  next
    case False
    have "n div 10 < 10 ^ Suc k" using Suc.prems by simp
    then have "length (show_nat (n div 10)) \<le> Suc k" by (rule Suc.IH)
    with False show ?thesis by (subst show_nat.simps) simp
  qed
qed

subsection \<open>Rows of a table\<close>

text \<open>
  \<open>const [row] = await db.select()\<dots>limit(1)\<close>: the first matching row, or \<open>undefined\<close>.
\<close>

lemma find_Some_set: "find P xs = Some x \<Longrightarrow> x \<in> set xs \<and> P x"
  by (induction xs) (auto split: if_splits)

lemma find_None_iff': "find P xs = None \<longleftrightarrow> (\<forall>x \<in> set xs. \<not> P x)"
  by (induction xs) auto

lemma find_Some_ex: "(\<exists>x \<in> set xs. P x) \<longleftrightarrow> (\<exists>x. find P xs = Some x)"
  by (induction xs) auto

lemma filter_Nil_iff_find: "filter P xs = [] \<longleftrightarrow> find P xs = None"
  by (induction xs) auto

lemma filter_Cons_find: "filter P xs = y # ys \<Longrightarrow> find P xs = Some y"
  by (induction xs) (auto split: if_splits)

lemma find_unique:
  assumes "x \<in> set xs" "P x" "\<And>y. y \<in> set xs \<Longrightarrow> P y \<Longrightarrow> y = x"
  shows "find P xs = Some x"
proof -
  from assms(1,2) obtain y where y: "find P xs = Some y" by (metis find_Some_ex)
  with find_Some_set have "y \<in> set xs" "P y" by fastforce+
  with assms(3) have "y = x" by blast
  with y show ?thesis by simp
qed

lemma find_map_same:
  "(\<forall>x \<in> set xs. P (f x) \<longleftrightarrow> P x) \<Longrightarrow> find P (map f xs) = map_option f (find P xs)"
  by (induction xs) simp_all

text \<open>\<open>count P xs\<close> rows satisfy \<open>P\<close>; a unique index bounds it by one.\<close>

definition count_rows :: "('r \<Rightarrow> bool) \<Rightarrow> 'r list \<Rightarrow> nat" where
  "count_rows P xs = length (filter P xs)"

lemma count_rows_simps [simp]:
  "count_rows P [] = 0"
  "count_rows P (x # xs) = (if P x then Suc (count_rows P xs) else count_rows P xs)"
  "count_rows P (xs @ ys) = count_rows P xs + count_rows P ys"
  by (simp_all add: count_rows_def)

lemma count_rows_mono:
  "(\<forall>x \<in> set xs. P x \<longrightarrow> Q x) \<Longrightarrow> count_rows P xs \<le> count_rows Q xs"
  by (induction xs) auto

lemma count_rows_filter_le: "count_rows P (filter Q xs) \<le> count_rows P xs"
  by (induction xs) auto

lemma count_rows_map_le:
  "(\<forall>x \<in> set xs. P (f x) \<longrightarrow> P x) \<Longrightarrow> count_rows P (map f xs) \<le> count_rows P xs"
  by (induction xs) auto

lemma count_rows_0_iff: "count_rows P xs = 0 \<longleftrightarrow> (\<forall>x \<in> set xs. \<not> P x)"
  by (induction xs) auto

lemma count_rows_pos: "x \<in> set xs \<Longrightarrow> P x \<Longrightarrow> 0 < count_rows P xs"
  by (induction xs) auto

lemma count_rows_le_1_unique:
  assumes "count_rows P xs \<le> 1" "x \<in> set xs" "y \<in> set xs" "P x" "P y"
  shows "x = y"
  using assms
proof (induction xs)
  case (Cons z xs)
  then show ?case
    by (cases "P z") (auto simp: count_rows_0_iff)
qed simp

lemma count_rows_le_1I:
  "distinct xs \<Longrightarrow> (\<And>x y. x \<in> set xs \<Longrightarrow> y \<in> set xs \<Longrightarrow> P x \<Longrightarrow> P y \<Longrightarrow> x = y) \<Longrightarrow> count_rows P xs \<le> 1"
proof (induction xs)
  case (Cons z xs)
  then have "count_rows P xs \<le> 1" by simp
  moreover have "P z \<Longrightarrow> count_rows P xs = 0" using Cons.prems by (auto simp: count_rows_0_iff)
  ultimately show ?case by simp
qed simp

lemma find_map_upd:
  "(\<And>x. x \<in> set xs \<Longrightarrow> P (f x) \<longleftrightarrow> P x) \<Longrightarrow> (\<And>x. x \<in> set xs \<Longrightarrow> g (f x) = g x) \<Longrightarrow>
   map_option g (find P (map f xs)) = map_option g (find P xs)"
  by (induction xs) auto

lemma find_filter_other: "(\<And>x. x \<in> set xs \<Longrightarrow> P x \<Longrightarrow> Q x) \<Longrightarrow> find P (filter Q xs) = find P xs"
  by (induction xs) auto

end
