(* ===== verification/JsErrors.thy ===== *)
theory JsErrors
  imports Prelude Complex_Main
begin

text \<open>
  Errors: the domain error classes of \<open>src/lib/errors.ts\<close>, the values JavaScript code may
  throw, the SQLSTATE test of \<open>src/lib/db-errors.ts\<close> and the central error handler of
  \<open>src/plugins/error.ts\<close>.
\<close>

subsection \<open>JavaScript values of type unknown\<close>

text \<open>An object is its property list, own properties first; of an array only the elements matter here.
  A number is rational, so that fractions are numbers, too.\<close>

datatype jsval =
    JUndefined
  | JNull
  | JBool bool
  | JNum rat
  | JStr string
  | JObj "(string \<times> jsval) list"
  | JArr "jsval list"

text \<open>\<open>typeof v === "object" && v !== null\<close>\<close>

fun is_object :: "jsval \<Rightarrow> bool" where
  "is_object (JObj ps) = True"
| "is_object (JArr vs) = True"
| "is_object v = False"

text \<open>\<open>name in v\<close> and \<open>v.name\<close> (\<open>undefined\<close> for a missing property)\<close>

fun has_prop :: "string \<Rightarrow> jsval \<Rightarrow> bool" where
  "has_prop name (JObj ps) = (map_of ps name \<noteq> None)"
| "has_prop name v = False"

fun get_prop :: "string \<Rightarrow> jsval \<Rightarrow> jsval" where
  "get_prop name (JObj ps) = (case map_of ps name of None \<Rightarrow> JUndefined | Some v \<Rightarrow> v)"
| "get_prop name v = JUndefined"

text \<open>\<open>new Error(message)\<close>\<close>

definition js_Error :: "string \<Rightarrow> jsval" where
  "js_Error msg = JObj [(''name'', JStr ''Error''), (''message'', JStr msg)]"

subsection \<open>Domain errors\<close>

record app_error =
  statusCode :: nat
  ae_message :: string
  ae_code :: string

definition mk_AppError :: "nat \<Rightarrow> string \<Rightarrow> string option \<Rightarrow> app_error" where
  "mk_AppError st msg c =
     \<lparr>statusCode = st, ae_message = msg,
      ae_code = (case c of None \<Rightarrow> ''APP_ERROR'' | Some x \<Rightarrow> x)\<rparr>"

text \<open>A default parameter: \<open>None\<close> is a call without the argument.\<close>

definition default_arg :: "'a \<Rightarrow> 'a option \<Rightarrow> 'a" where
  "default_arg d x = (case x of None \<Rightarrow> d | Some y \<Rightarrow> y)"

lemma default_arg_simps [simp]: "default_arg d None = d" "default_arg d (Some y) = y"
  by (simp_all add: default_arg_def)

definition BadRequestError :: "string option \<Rightarrow> app_error" where
  "BadRequestError m = mk_AppError 400 (default_arg ''Bad request'' m) (Some ''BAD_REQUEST'')"

definition UnauthorizedError :: "string option \<Rightarrow> app_error" where
  "UnauthorizedError m = mk_AppError 401 (default_arg ''Unauthorized'' m) (Some ''UNAUTHORIZED'')"

definition ForbiddenError :: "string option \<Rightarrow> app_error" where
  "ForbiddenError m = mk_AppError 403 (default_arg ''Forbidden'' m) (Some ''FORBIDDEN'')"

definition NotFoundError :: "string option \<Rightarrow> app_error" where
  "NotFoundError m = mk_AppError 404 (default_arg ''Not found'' m) (Some ''NOT_FOUND'')"

definition ConflictError :: "string option \<Rightarrow> app_error" where
  "ConflictError m = mk_AppError 409 (default_arg ''Conflict'' m) (Some ''CONFLICT'')"

lemmas app_error_defs =
  BadRequestError_def UnauthorizedError_def ForbiddenError_def NotFoundError_def ConflictError_def
  mk_AppError_def

text \<open>What a \<open>throw\<close> throws: a domain error, or any other value.\<close>

datatype exn = App app_error | Thrown jsval

text \<open>A caught value seen as \<open>unknown\<close>.\<close>

fun exn_value :: "exn \<Rightarrow> jsval" where
  "exn_value (App e) = JObj [(''statusCode'', JNum (of_nat (statusCode e))),
     (''code'', JStr (ae_code e)), (''name'', JStr ''AppError''), (''message'', JStr (ae_message e))]"
| "exn_value (Thrown v) = v"

subsection \<open>Postgres error codes\<close>

definition hasSqlstateCode :: "jsval \<Rightarrow> string \<Rightarrow> bool" where
  "hasSqlstateCode val code \<longleftrightarrow>
     is_object val \<and> has_prop ''code'' val \<and> get_prop ''code'' val = JStr code"

definition isUniqueViolation :: "jsval \<Rightarrow> bool" where
  "isUniqueViolation err =
     (if hasSqlstateCode err ''23505'' then True
      else if is_object err \<and> has_prop ''cause'' err
        then hasSqlstateCode (get_prop ''cause'' err) ''23505''
      else False)"

text \<open>
  What a failing statement throws: Drizzle's wrapper with the driver's error, and its SQLSTATE,
  in \<open>cause\<close>.
\<close>

definition DrizzleQueryError :: "string \<Rightarrow> exn" where
  "DrizzleQueryError sqlstate =
     Thrown (JObj [(''name'', JStr ''Error''), (''message'', JStr ''Failed query''),
                   (''cause'', JObj [(''name'', JStr ''PostgresError''), (''code'', JStr sqlstate)])])"

lemma isUniqueViolation_Drizzle [simp]:
  "isUniqueViolation (exn_value (DrizzleQueryError c)) \<longleftrightarrow> c = ''23505''"
  by (simp add: DrizzleQueryError_def isUniqueViolation_def hasSqlstateCode_def)

lemma isUniqueViolation_js_Error [simp]: "\<not> isUniqueViolation (js_Error msg)"
  by (simp add: js_Error_def isUniqueViolation_def hasSqlstateCode_def)

lemma isUniqueViolation_primitive:
  "\<not> is_object v \<Longrightarrow> \<not> isUniqueViolation v"
  by (simp add: isUniqueViolation_def hasSqlstateCode_def)

subsection \<open>The central error handler\<close>

record error_response =
  er_status :: nat
  er_error :: string
  er_message :: jsval
  er_details :: "jsval option"

text \<open>
  \<open>onError\<close> of the error plugin: \<open>code\<close> is the framework's error code, \<open>err\<close> what was
  thrown. Logging of an unexpected error has no effect on the response.
\<close>

definition errorPlugin_onError :: "bool \<Rightarrow> string \<Rightarrow> exn \<Rightarrow> error_response" where
  "errorPlugin_onError isProduction code err =
     (case err of
        App e \<Rightarrow> \<lparr>er_status = statusCode e, er_error = ae_code e,
                  er_message = JStr (ae_message e), er_details = None\<rparr>
      | Thrown v \<Rightarrow>
          if code = ''VALIDATION'' then
            \<lparr>er_status = 400, er_error = ''VALIDATION'',
             er_message = JStr ''Request validation failed'', er_details = Some (get_prop ''all'' v)\<rparr>
          else if code = ''NOT_FOUND'' then
            \<lparr>er_status = 404, er_error = ''NOT_FOUND'', er_message = JStr ''Route not found'',
             er_details = None\<rparr>
          else if code = ''PARSE'' then
            \<lparr>er_status = 400, er_error = ''PARSE'', er_message = JStr ''Malformed request body'',
             er_details = None\<rparr>
          else
            \<lparr>er_status = 500, er_error = ''INTERNAL'',
             er_message =
               (if isProduction then JStr ''Internal server error''
                else (case get_prop ''message'' v of
                        JUndefined \<Rightarrow> JStr ''Unknown error''
                      | JNull \<Rightarrow> JStr ''Unknown error''
                      | m \<Rightarrow> m)),
             er_details = None\<rparr>)"

subsection \<open>Properties\<close>

text \<open>The error handler maps every domain error to its own status, code and message, with no
  details, and in production answers an unexpected exception with status 500 and a fixed text: two
  exceptions of that kind are not told apart, so nothing of them is disclosed.\<close>

theorem errors_disclose_nothing:
  "errorPlugin_onError production code (App e) =
     \<lparr>er_status = statusCode e, er_error = ae_code e, er_message = JStr (ae_message e), er_details = None\<rparr> \<and>
   (code \<notin> {''VALIDATION'', ''NOT_FOUND'', ''PARSE''} \<longrightarrow>
     errorPlugin_onError True code (Thrown v) =
       \<lparr>er_status = 500, er_error = ''INTERNAL'', er_message = JStr ''Internal server error'', er_details = None\<rparr>) \<and>
   (errorPlugin_onError True code (Thrown v) \<noteq> errorPlugin_onError True code (Thrown v') \<longrightarrow> code = ''VALIDATION'')"
  by (auto simp: errorPlugin_onError_def)

theorem errors_disclose_nothing_witness:
  "er_message (errorPlugin_onError True ''UNKNOWN'' (Thrown (js_Error ''connect postgres://user:secret@db''))) =
     JStr ''Internal server error''"
  using errors_disclose_nothing [of True "''UNKNOWN''" _ "js_Error ''connect postgres://user:secret@db''"] by simp

end
