(* ===== verification/Config.thy ===== *)
theory Config
  imports JsErrors
begin

text \<open>
  Configuration (\<open>src/config/env.ts\<close>): the validated environment as a record, its defaults, and
  the interface to third-party code. \<open>lib\<close> collects the library functions that are not part of
  the repository; every definition that uses one takes it as a parameter, and what the code relies
  on is stated as a named hypothesis below.
\<close>

subsection \<open>The environment record\<close>

datatype node_env = Development | Production | Test
datatype transport = Bearer | CookieTransport
datatype mail_transport = MailAuto | MailLog | MailSmtp
datatype queue_driver = DriverRedis | DriverSync

record env =
  NODE_ENV :: node_env
  PORT :: int
  APP_NAME :: string
  DATABASE_URL :: string
  DB_POOL_MAX :: int
  DB_IDLE_TIMEOUT :: int
  DB_CONNECT_TIMEOUT :: int
  DB_STATEMENT_TIMEOUT :: int
  JWT_SECRET :: string
  JWT_SECRET_PREVIOUS :: string
  JWT_ACCESS_EXP :: string
  JWT_REFRESH_EXP :: string
  AUTH_TRANSPORT :: transport
  REQUIRE_VERIFIED_EMAIL :: bool
  CORS_ORIGIN :: string
  LOG_LEVEL :: string
  LOG_DIR :: string
  LOG_FILE :: string
  LOG_ROTATE_SIZE :: string
  LOG_ROTATE_INTERVAL :: string
  LOG_MAX_FILES :: int
  LOG_COMPRESS :: bool
  OTEL_ENABLED :: bool
  OTEL_SERVICE_NAME :: string
  OTEL_EXPORTER_OTLP_ENDPOINT :: string
  TRUST_PROXY :: bool
  MAX_BODY_SIZE :: int
  REQUEST_IDLE_TIMEOUT :: int
  REDIS_URL :: string
  MAIL_TRANSPORT :: mail_transport
  EMAIL_FROM :: string
  SMTP_HOST :: string
  SMTP_PORT :: int
  SMTP_USER :: string
  SMTP_PASS :: string
  SMTP_SECURE :: bool
  QUEUE_DRIVER :: queue_driver
  ALERT_WEBHOOK_URL :: string
  AUDIT_RETENTION_DAYS :: int
  SEED_ADMIN_EMAIL :: string
  SEED_ADMIN_PASSWORD :: string

text \<open>The schema's defaults; the two variables without a default are arguments.\<close>

definition env_default :: "string \<Rightarrow> string \<Rightarrow> env" where
  "env_default database_url jwt_secret = \<lparr>
     NODE_ENV = Development, PORT = 3000, APP_NAME = ''App'',
     DATABASE_URL = database_url,
     DB_POOL_MAX = 10, DB_IDLE_TIMEOUT = 30, DB_CONNECT_TIMEOUT = 30, DB_STATEMENT_TIMEOUT = 30000,
     JWT_SECRET = jwt_secret, JWT_SECRET_PREVIOUS = '''',
     JWT_ACCESS_EXP = ''15m'', JWT_REFRESH_EXP = ''7d'',
     AUTH_TRANSPORT = Bearer, REQUIRE_VERIFIED_EMAIL = False, CORS_ORIGIN = ''*'',
     LOG_LEVEL = ''info'', LOG_DIR = ''logs'', LOG_FILE = ''app.log'', LOG_ROTATE_SIZE = ''20M'',
     LOG_ROTATE_INTERVAL = ''1d'', LOG_MAX_FILES = 14, LOG_COMPRESS = True,
     OTEL_ENABLED = False, OTEL_SERVICE_NAME = ''app'',
     OTEL_EXPORTER_OTLP_ENDPOINT = ''http://localhost:4318'',
     TRUST_PROXY = False, MAX_BODY_SIZE = 1024 * 1024, REQUEST_IDLE_TIMEOUT = 30,
     REDIS_URL = ''redis://localhost:6379'', MAIL_TRANSPORT = MailAuto,
     EMAIL_FROM = ''no-reply@example.com'', SMTP_HOST = ''sandbox.smtp.mailtrap.io'',
     SMTP_PORT = 2525, SMTP_USER = '''', SMTP_PASS = '''', SMTP_SECURE = False,
     QUEUE_DRIVER = DriverRedis, ALERT_WEBHOOK_URL = '''', AUDIT_RETENTION_DAYS = 90,
     SEED_ADMIN_EMAIL = ''admin@example.com'', SEED_ADMIN_PASSWORD = '''' \<rparr>"

definition isProduction :: "env \<Rightarrow> bool" where
  "isProduction E \<longleftrightarrow> NODE_ENV E = Production"

definition isTest :: "env \<Rightarrow> bool" where
  "isTest E \<longleftrightarrow> NODE_ENV E = Test"

subsection \<open>Library functions outside the repository\<close>

text \<open>
  \<open>sha256\<close> is the hex digest of \<open>Bun.CryptoHasher\<close>; \<open>argon2_hash\<close> and \<open>argon2_verify\<close> are
  \<open>Bun.password\<close> (the first argument of \<open>argon2_hash\<close> is the salt drawn); \<open>uuid\<close>,
  \<open>rand_u32\<close> and \<open>rand_bytes\<close> are what the system's random source gives on its \<open>n\<close>-th
  draw; \<open>totp_validate\<close>, \<open>totp_uri\<close> and \<open>base32\<close> are the otpauth package on the fields of an
  \<open>OTPAuth.TOTP\<close> (\<open>totp_validate T token window now\<close> is the delta, \<open>None\<close> for \<open>null\<close>), \<open>sanitize_html\<close> the sanitize-html package
  with no tag allowed. The jose package with HS256: \<open>jwt_sign key claims iat life\<close> with \<open>iat\<close> in
  seconds and \<open>life\<close> a lifetime such as \<open>15m\<close>, which \<open>jwt_lifetime\<close> reads in seconds
  (\<open>JWT_ACCESS_EXP\<close> is taken to be one: jose throws at any other text);
  \<open>jwt_verify key token t\<close> at time \<open>t\<close> in milliseconds, \<open>None\<close> where the call throws. \<open>row_place t k\<close>
  is the order in which Postgres comes upon the rows of a page at offset \<open>k\<close> at time \<open>t\<close>, before any
  sorting: the place of the row with an id. Nothing is known of it.
\<close>

record totp =
  tt_issuer :: string
  tt_label :: string
  tt_algorithm :: string
  tt_digits :: nat
  tt_period :: int
  tt_secret :: string

record lib =
  sha256 :: "string \<Rightarrow> string"
  argon2_hash :: "nat \<Rightarrow> string \<Rightarrow> string"
  argon2_verify :: "string \<Rightarrow> string \<Rightarrow> bool"
  uuid :: "nat \<Rightarrow> string"
  rand_u32 :: "nat \<Rightarrow> 32 word"
  rand_bytes :: "nat \<Rightarrow> nat \<Rightarrow> 8 word list"
  base32 :: "8 word list \<Rightarrow> string"
  totp_validate :: "totp \<Rightarrow> string \<Rightarrow> int \<Rightarrow> int \<Rightarrow> int option"
  totp_uri :: "totp \<Rightarrow> string"
  sanitize_html :: "string \<Rightarrow> string"
  jwt_sign :: "string \<Rightarrow> (string \<times> jsval) list \<Rightarrow> int \<Rightarrow> string \<Rightarrow> string"
  jwt_verify :: "string \<Rightarrow> string \<Rightarrow> int \<Rightarrow> jsval option"
  jwt_lifetime :: "string \<Rightarrow> int"
  row_place :: "int \<Rightarrow> rat \<Rightarrow> string \<Rightarrow> nat"

text \<open>Documented behaviour, as hypotheses.\<close>

definition argon2_ok :: "lib \<Rightarrow> bool" where
  \<comment> \<open>a hash verifies against the password it was made of, and against no other\<close>
  "argon2_ok L \<longleftrightarrow> (\<forall>salt p q. argon2_verify L p (argon2_hash L salt q) \<longleftrightarrow> p = q)"

definition argon2_len_ok :: "lib \<Rightarrow> bool" where
  \<comment> \<open>an encoded hash fits the \<open>password_hash\<close> column\<close>
  "argon2_len_ok L \<longleftrightarrow> (\<forall>salt p. length (argon2_hash L salt p) \<le> 255)"

definition sha256_inj :: "lib \<Rightarrow> bool" where
  \<comment> \<open>no collision\<close>
  "sha256_inj L \<longleftrightarrow> inj (sha256 L)"

definition sha256_hex_ok :: "lib \<Rightarrow> bool" where
  \<comment> \<open>a digest is 64 hex digits\<close>
  "sha256_hex_ok L \<longleftrightarrow> (\<forall>s. length (sha256 L s) = 64 \<and> (\<forall>c \<in> set (sha256 L s). c \<in> set ''0123456789abcdef''))"

definition totp_ok :: "lib \<Rightarrow> bool" where
  \<comment> \<open>a delta lies in the window searched\<close>
  "totp_ok L \<longleftrightarrow> (\<forall>T code window t d. totp_validate L T code window t = Some d \<longrightarrow> - window \<le> d \<and> d \<le> window)"

definition access_claims :: "string \<Rightarrow> string \<Rightarrow> (string \<times> jsval) list" where
  "access_claims sub role = [(''sub'', JStr sub), (''role'', JStr role)]"

definition jwt_ok :: "lib \<Rightarrow> bool" where
  \<comment> \<open>a token verifies under the key that signed it until its lifetime is over, and gives its claims;
      under another key, or later, verification throws\<close>
  "jwt_ok L \<longleftrightarrow> (\<forall>key key' sub role iat life t.
     (let tok = jwt_sign L key (access_claims sub role) iat life in
      (if key' = key \<and> t div 1000 < iat + jwt_lifetime L life
       then \<exists>rest. jwt_verify L key' tok t = Some (JObj (access_claims sub role @ rest))
       else jwt_verify L key' tok t = None)))"

definition uuid_fresh :: "lib \<Rightarrow> bool" where
  \<comment> \<open>random identifiers do not repeat\<close>
  "uuid_fresh L \<longleftrightarrow> inj (uuid L)"

definition rand_bytes_ok :: "lib \<Rightarrow> bool" where
  \<comment> \<open>\<open>getRandomValues\<close> fills the whole array\<close>
  "rand_bytes_ok L \<longleftrightarrow> (\<forall>i n. length (rand_bytes L i n) = n)"

subsection \<open>A concrete instance, for witnesses\<close>

text \<open>The tokens of the instance: the fields, each with its end marked, in plain.\<close>

fun field :: "string \<Rightarrow> string" where
  "field [] = ''.''"
| "field (c # cs) = CHR ''k'' # c # field cs"

fun unfield :: "string \<Rightarrow> string \<times> string" where
  "unfield (x # c # cs) = (if x = CHR ''k'' then (case unfield cs of (a, b) \<Rightarrow> (c # a, b)) else ([], c # cs))"
| "unfield cs = ([], [])"

lemma unfield_field: "rest \<noteq> [] \<Longrightarrow> unfield (field s @ rest) = (s, rest)"
  by (induction s) (auto simp: neq_Nil_conv)

fun str_claim :: "jsval option \<Rightarrow> string" where
  "str_claim (Some (JStr s)) = s"
| "str_claim v = []"

definition demo_jwt_sign :: "string \<Rightarrow> (string \<times> jsval) list \<Rightarrow> int \<Rightarrow> string \<Rightarrow> string" where
  "demo_jwt_sign key claims iat life =
     field key @ field (str_claim (map_of claims ''sub'')) @ field (str_claim (map_of claims ''role'')) @
     show_int (iat + 900)"

definition demo_jwt_verify :: "string \<Rightarrow> string \<Rightarrow> int \<Rightarrow> jsval option" where
  "demo_jwt_verify key tok t =
     (case unfield tok of (k, r1) \<Rightarrow> case unfield r1 of (sub, r2) \<Rightarrow> case unfield r2 of (role, r3) \<Rightarrow>
      (case parse_int r3 of
         None \<Rightarrow> None
       | Some e \<Rightarrow> if k = key \<and> t div 1000 < e
                   then Some (JObj (access_claims sub role @ [(''exp'', JNum (of_int e))])) else None))"

lemma show_int_nonempty: "show_int n \<noteq> []"
proof
  assume "show_int n = []"
  then have "parse_int (show_int n) = parse_int []" by simp
  moreover have "parse_int [] = None" by code_simp
  ultimately show False by simp
qed

lemma field_nonempty [simp]: "field s \<noteq> []"
  by (cases s) auto

lemma demo_jwt:
  "demo_jwt_verify key' (demo_jwt_sign key (access_claims sub role) iat life) t =
     (if key' = key \<and> t div 1000 < iat + 900
      then Some (JObj (access_claims sub role @ [(''exp'', JNum (of_int (iat + 900)))])) else None)"
  by (auto simp: demo_jwt_verify_def demo_jwt_sign_def unfield_field show_int_nonempty access_claims_def)

definition demo_lib :: lib where
  "demo_lib = \<lparr>
     sha256 = (\<lambda>s. CHR ''h'' # s),
     argon2_hash = (\<lambda>salt p. CHR ''a'' # p),
     argon2_verify = (\<lambda>p h. h = CHR ''a'' # p),
     uuid = (\<lambda>n. CHR ''u'' # show_nat n),
     rand_u32 = (\<lambda>n. of_nat n),
     rand_bytes = (\<lambda>i n. replicate n (of_nat i)),
     base32 = (\<lambda>bs. ''JBSWY3DP''),
     totp_validate = (\<lambda>T code window now.
        case parse_nat code of None \<Rightarrow> None
        | Some c \<Rightarrow> let d = int c - now div (1000 * tt_period T)
                    in if - window \<le> d \<and> d \<le> window then Some d else None),
     totp_uri = (\<lambda>T. ''otpauth://totp/'' @ tt_label T @ ''?secret='' @ tt_secret T),
     sanitize_html = (\<lambda>s. s),
     jwt_sign = demo_jwt_sign, jwt_verify = demo_jwt_verify, jwt_lifetime = (\<lambda>_. 900),
     row_place = (\<lambda>t k i. if k = 0 then 0 else length i) \<rparr>"

lemma demo_lib_ok [simp]:
  "argon2_ok demo_lib" "sha256_inj demo_lib" "uuid_fresh demo_lib" "rand_bytes_ok demo_lib"
  "totp_ok demo_lib" "jwt_ok demo_lib"
proof -
  show "jwt_ok demo_lib"
    by (auto simp: jwt_ok_def demo_lib_def demo_jwt Let_def)
  show "totp_ok demo_lib"
    by (auto simp: totp_ok_def demo_lib_def Let_def split: option.splits if_splits)
  show "argon2_ok demo_lib" by (simp add: argon2_ok_def demo_lib_def eq_commute)
  show "sha256_inj demo_lib" by (simp add: sha256_inj_def demo_lib_def inj_def)
  show "uuid_fresh demo_lib"
    by (auto simp: uuid_fresh_def demo_lib_def inj_def) (metis option.inject parse_show_nat)
  show "rand_bytes_ok demo_lib" by (simp add: rand_bytes_ok_def demo_lib_def)
qed

end
