(* ===== verification/Prog.thy ===== *)
theory Prog
  imports JsErrors
begin

text \<open>
  Asynchronous code as resumptions. A program is a tree of atomic actions: \<open>Act u n\<close> changes
  the state with \<open>u\<close> and goes on with \<open>n\<close> of the state it found, in one step; between two
  actions (two \<open>await\<close>s) other requests, the clock and the services may move. \<open>run\<close>
  executes one program alone; \<open>pool_step\<close> interleaves any number of them with an environment.
  The same handler definition serves both.
\<close>

datatype ('s, 'a) prog =
    Ret 'a
  | Throw exn
  | Act "'s \<Rightarrow> 's" "'s \<Rightarrow> ('s, 'a) prog"

primrec bnd :: "('s, 'a) prog \<Rightarrow> ('a \<Rightarrow> ('s, 'b) prog) \<Rightarrow> ('s, 'b) prog" where
  "bnd (Ret x) k = k x"
| "bnd (Throw e) k = Throw e"
| "bnd (Act u n) k = Act u (\<lambda>s. bnd (n s) k)"

text \<open>\<open>try { p } catch (err) { h(err) }\<close>\<close>

primrec try_catch :: "('s, 'a) prog \<Rightarrow> (exn \<Rightarrow> ('s, 'a) prog) \<Rightarrow> ('s, 'a) prog" where
  "try_catch (Ret x) h = Ret x"
| "try_catch (Throw e) h = h e"
| "try_catch (Act u n) h = Act u (\<lambda>s. try_catch (n s) h)"

text \<open>\<open>await p; q\<close>\<close>

definition sequ :: "('s, 'a) prog \<Rightarrow> ('s, 'b) prog \<Rightarrow> ('s, 'b) prog" where
  "sequ p q = bnd p (\<lambda>_. q)"

text \<open>One atomic action given by what it returns or throws, and the state it leaves.\<close>

definition atom :: "('s \<Rightarrow> (exn + 'a) \<times> 's) \<Rightarrow> ('s, 'a) prog" where
  "atom f = Act (\<lambda>s. snd (f s)) (\<lambda>s. case fst (f s) of Inl e \<Rightarrow> Throw e | Inr x \<Rightarrow> Ret x)"

subsection \<open>Running a program alone\<close>

primrec run :: "('s, 'a) prog \<Rightarrow> 's \<Rightarrow> (exn + 'a) \<times> 's" where
  "run (Ret x) s = (Inr x, s)"
| "run (Throw e) s = (Inl e, s)"
| "run (Act u n) s = run (n s) (u s)"

declare run.simps(1,2) [run_simps]

lemma run_bnd [run_simps]:
  "run (bnd p k) s = (case run p s of (r, t) \<Rightarrow> case r of Inl e \<Rightarrow> (Inl e, t) | Inr x \<Rightarrow> run (k x) t)"
  by (induction p arbitrary: s) auto

lemma run_sequ [run_simps]:
  "run (sequ p q) s = (case run p s of (r, t) \<Rightarrow> case r of Inl e \<Rightarrow> (Inl e, t) | Inr x \<Rightarrow> run q t)"
  by (simp add: sequ_def run_bnd)

lemma run_try_catch [run_simps]:
  "run (try_catch p h) s =
     (case run p s of (r, t) \<Rightarrow> case r of Inl e \<Rightarrow> run (h e) t | Inr x \<Rightarrow> (Inr x, t))"
  by (induction p arbitrary: s) auto

lemma run_atom [run_simps]: "run (atom f) s = f s"
  by (cases "f s") (auto simp: atom_def split: sum.splits)

text \<open>A run of two programs is a run of the first, and of the second where the first returned.\<close>

lemma run_bndE:
  assumes "run (bnd p k) w = (r, w')"
  obtains e where "run p w = (Inl e, w')" "r = Inl e"
    | x w1 where "run p w = (Inr x, w1)" "run (k x) w1 = (r, w')"
  using assms by (auto simp: run_simps split: prod.splits sum.splits)

lemma run_tryE:
  assumes "run (try_catch p h) w = (r, w')"
  obtains x where "run p w = (Inr x, w')" "r = Inr x"
    | e w1 where "run p w = (Inl e, w1)" "run (h e) w1 = (r, w')"
  using assms by (auto simp: run_simps split: prod.splits sum.splits)

lemma bnd_Ret [simp]: "bnd p Ret = p"
  by (induction p) auto

lemma bnd_assoc: "bnd (bnd p f) g = bnd p (\<lambda>x. bnd (f x) g)"
  by (induction p) auto

subsection \<open>What every action of a program keeps\<close>

text \<open>\<open>all_steps G p\<close>: each action \<open>p\<close> can ever take, from any state, changes it as \<open>G\<close> allows.\<close>

primrec all_steps :: "('s \<Rightarrow> 's \<Rightarrow> bool) \<Rightarrow> ('s, 'a) prog \<Rightarrow> bool" where
  "all_steps G (Ret x) = True"
| "all_steps G (Throw e) = True"
| "all_steps G (Act u n) = ((\<forall>s. G s (u s)) \<and> (\<forall>s. all_steps G (n s)))"

lemma all_steps_bnd: "all_steps G p \<Longrightarrow> (\<And>x. all_steps G (k x)) \<Longrightarrow> all_steps G (bnd p k)"
  by (induction p) auto

lemma all_steps_sequ: "all_steps G p \<Longrightarrow> all_steps G q \<Longrightarrow> all_steps G (sequ p q)"
  by (simp add: sequ_def all_steps_bnd)

lemma all_steps_try_catch:
  "all_steps G p \<Longrightarrow> (\<And>e. all_steps G (h e)) \<Longrightarrow> all_steps G (try_catch p h)"
  by (induction p) auto

lemma all_steps_atom: "(\<And>s. G s (snd (f s))) \<Longrightarrow> all_steps G (atom f)"
  by (auto simp: atom_def split: sum.splits)

lemmas all_steps_intros =
  all_steps_bnd all_steps_sequ all_steps_try_catch

text \<open>The results a program may end in, and a step bound for what follows only these.\<close>

primrec leaves :: "('s, 'a) prog \<Rightarrow> 'a set" where
  "leaves (Ret x) = {x}"
| "leaves (Throw e) = {}"
| "leaves (Act u n) = (\<Union>s. leaves (n s))"

lemma leaves_bnd: "leaves (bnd p k) = (\<Union>x \<in> leaves p. leaves (k x))"
  by (induction p) auto

lemma all_steps_bnd_leaves:
  "all_steps G p \<Longrightarrow> (\<And>x. x \<in> leaves p \<Longrightarrow> all_steps G (k x)) \<Longrightarrow> all_steps G (bnd p k)"
proof (induction p)
  case (Act u n)
  have "all_steps G (bnd (n s) k)" for s
    by (rule Act.IH) (use Act.prems in auto)
  with Act.prems(1) show ?case by simp
qed auto

lemma all_steps_mono: "all_steps G p \<Longrightarrow> (\<And>s t. G s t \<Longrightarrow> H s t) \<Longrightarrow> all_steps H p"
  by (induction p) auto

text \<open>A program run alone takes the state along a chain of such steps.\<close>

lemma run_all_steps: "all_steps G p \<Longrightarrow> G\<^sup>*\<^sup>* s (snd (run p s))"
proof (induction p arbitrary: s)
  case (Act u n)
  then have "G s (u s)" and "G\<^sup>*\<^sup>* (u s) (snd (run (n s) (u s)))" by auto
  then show ?case by simp
qed simp_all

lemma run_all_steps_inv:
  assumes "all_steps (\<lambda>s t. I s \<longrightarrow> I t) p" and "I s"
  shows "I (snd (run p s))"
proof -
  have "(\<lambda>s t. I s \<longrightarrow> I t)\<^sup>*\<^sup>* s (snd (run p s))" by (rule run_all_steps [OF assms(1)])
  then show ?thesis using assms(2) by (induction) auto
qed

subsection \<open>Interleaved execution\<close>

text \<open>
  A pool is the shared state with the programs in flight. A step is one action of one program,
  or a step \<open>R\<close> of the environment.
\<close>

type_synonym ('s, 'a) pool = "'s \<times> ('s, 'a) prog list"

inductive pool_step :: "('s \<Rightarrow> 's \<Rightarrow> bool) \<Rightarrow> ('s, 'a) pool \<Rightarrow> ('s, 'a) pool \<Rightarrow> bool" for R where
  thread: "i < length ps \<Longrightarrow> ps ! i = Act u n \<Longrightarrow> pool_step R (s, ps) (u s, ps[i := n s])"
| environment: "R s t \<Longrightarrow> pool_step R (s, ps) (t, ps)"

inductive_cases pool_stepE: "pool_step R (s, ps) (t, qs)"

inductive_simps pool_step_simp: "pool_step R (s, ps) (t, qs)"

abbreviation pool_run :: "('s \<Rightarrow> 's \<Rightarrow> bool) \<Rightarrow> ('s, 'a) pool \<Rightarrow> ('s, 'a) pool \<Rightarrow> bool" where
  "pool_run R \<equiv> (pool_step R)\<^sup>*\<^sup>*"

lemma pool_thread:
  "i < length ps \<Longrightarrow> ps ! i = Act u n \<Longrightarrow> t = u s \<Longrightarrow> qs = ps[i := n s] \<Longrightarrow>
   pool_step R (s, ps) (t, qs)"
  using pool_step.thread [of i ps u n R s] by simp

text \<open>
  An invariant of the shared state and a condition on each program that its own steps keep
  hold along every interleaving. The locale is the interface: a component proves the two step
  laws once, and every run of any number of its programs is covered.
\<close>

locale interleaving =
  fixes R :: "'s \<Rightarrow> 's \<Rightarrow> bool"
    and I :: "'s \<Rightarrow> bool"
    and C :: "('s, 'a) prog \<Rightarrow> bool"
  assumes env_keeps: "I s \<Longrightarrow> R s t \<Longrightarrow> I t"
    and act_keeps: "C (Act u n) \<Longrightarrow> I s \<Longrightarrow> I (u s)"
    and act_next: "C (Act u n) \<Longrightarrow> I s \<Longrightarrow> C (n s)"
begin

lemma step_keeps:
  assumes "pool_step R (s, ps) (t, qs)" and "I s" and "\<forall>p \<in> set ps. C p"
  shows "I t \<and> (\<forall>p \<in> set qs. C p)"
  using assms(1)
proof (cases rule: pool_step.cases)
  case (thread i u n)
  then have "C (Act u n)" using assms(3) by (metis nth_mem)
  with thread assms show ?thesis
    by (auto intro: act_keeps act_next dest!: set_update_subset_insert [THEN subsetD])
next
  case environment
  with assms show ?thesis by (auto intro: env_keeps)
qed

lemma run_keeps:
  assumes "pool_run R (s, ps) (t, qs)" and "I s" and "\<forall>p \<in> set ps. C p"
  shows "I t \<and> (\<forall>p \<in> set qs. C p)"
  using assms
proof (induction "(t, qs)" arbitrary: t qs rule: rtranclp_induct)
  case base
  then show ?case by simp
next
  case (step y)
  obtain t' qs' where y: "y = (t', qs')" by (cases y)
  with step have "I t' \<and> (\<forall>p \<in> set qs'. C p)" by blast
  with step y show ?case by (blast dest: step_keeps)
qed

end

text \<open>Running one program of a pool to its end is one of the interleavings.\<close>

definition finished :: "(exn + 'a) \<Rightarrow> ('s, 'a) prog" where
  "finished r = (case r of Inl e \<Rightarrow> Throw e | Inr x \<Rightarrow> Ret x)"

lemma pool_run_alone:
  assumes "i < length ps"
  shows "pool_run R (s, ps) (snd (run (ps ! i) s), ps[i := finished (fst (run (ps ! i) s))])"
proof -
  have "pool_run R (s, ps[i := p]) (snd (run p s), ps[i := finished (fst (run p s))])" for p s
  proof (induction p arbitrary: s)
    case (Act u n)
    have "pool_step R (s, ps[i := Act u n]) (u s, ps[i := n s])"
      by (rule pool_thread [of i _ u n]) (use assms in simp_all)
    moreover have "pool_run R (u s, ps[i := n s]) (snd (run (n s) (u s)), ps[i := finished (fst (run (n s) (u s)))])"
      by (rule Act) simp
    ultimately show ?case by (simp add: converse_rtranclp_into_rtranclp)
  qed (simp_all add: finished_def)
  from this [where p = "ps ! i" and s = s] show ?thesis by simp
qed

text \<open>Two programs, one after the other.\<close>

lemma pool_run_both:
  "pool_run R (s, [p, q]) (snd (run q (snd (run p s))), [finished (fst (run p s)), finished (fst (run q (snd (run p s))))])"
proof -
  have "pool_run R (s, [p, q]) (snd (run p s), [finished (fst (run p s)), q])"
    using pool_run_alone [of 0 "[p, q]"] by simp
  also have "pool_run R (snd (run p s), [finished (fst (run p s)), q])
      (snd (run q (snd (run p s))), [finished (fst (run p s)), finished (fst (run q (snd (run p s))))])"
    using pool_run_alone [of 1 "[finished (fst (run p s)), q]" R "snd (run p s)"] by simp
  finally show ?thesis .
qed

subsection \<open>Running a program up to a point\<close>

text \<open>\<open>part (s, p) (t, q)\<close>: alone, \<open>p\<close> takes some of its actions, from \<open>s\<close> to \<open>t\<close>, and \<open>q\<close> is left.\<close>

inductive part :: "'s \<times> ('s, 'a) prog \<Rightarrow> 's \<times> ('s, 'a) prog \<Rightarrow> bool" where
  here: "part x x"
| act: "part (u s, n s) y \<Longrightarrow> part (s, Act u n) y"

lemma part_trans: "part x y \<Longrightarrow> part y z \<Longrightarrow> part x z"
  by (induction rule: part.induct) (auto intro: part.intros)

lemma part_bnd: "run p s = (Inr x, t) \<Longrightarrow> part (s, bnd p k) (t, k x)"
  by (induction p arbitrary: s) (auto intro: part.intros)

lemma part_step: "run p s = (Inr x, t) \<Longrightarrow> part (t, k x) y \<Longrightarrow> part (s, bnd p k) y"
  by (rule part_trans [OF part_bnd])

lemma part_sequ: "run p s = (Inr x, t) \<Longrightarrow> part (s, sequ p q) (t, q)"
  unfolding sequ_def by (rule part_bnd)

lemma part_bnd_left: "part (s, p) (t, q) \<Longrightarrow> part (s, bnd p k) (t, bnd q k)"
  by (induction "(s, p)" "(t, q)" arbitrary: s p rule: part.induct) (auto intro: part.intros)

lemma part_try: "part (s, p) (t, q) \<Longrightarrow> part (s, try_catch p h) (t, try_catch q h)"
  by (induction "(s, p)" "(t, q)" arbitrary: s p rule: part.induct) (auto intro: part.intros)

lemma part_run: "part (s, p) (t, q) \<Longrightarrow> run p s = run q t"
  by (induction "(s, p)" "(t, q)" arbitrary: s p rule: part.induct) auto

lemma part_to_end: "part (s, p) (snd (run p s), finished (fst (run p s)))"
  by (induction p arbitrary: s) (auto simp: finished_def intro: part.intros)

lemma pool_run_part:
  assumes "part (s, p) (t, q)" and "i < length ps" and "ps ! i = p"
  shows "pool_run R (s, ps) (t, ps[i := q])"
  using assms
proof (induction "(s, p)" "(t, q)" arbitrary: s p ps rule: part.induct)
  case here
  then show ?case by (auto simp: list_update_id)
next
  case (act u s n)
  have "pool_step R (s, ps) (u s, ps[i := n s])"
    using act.prems by (intro pool_thread [of i ps u n]) simp_all
  moreover have "pool_run R (u s, ps[i := n s]) (t, (ps[i := n s])[i := q])"
    using act.prems by (intro act.hyps) simp_all
  ultimately show ?case by (simp add: converse_rtranclp_into_rtranclp)
qed

subsection \<open>Metered programs\<close>

text \<open>
  A stock in the shared state that a program may draw from: \<open>metered I S pz p k\<close> says that a
  program holding \<open>k\<close> units, in states with \<open>I\<close>, never takes the stock \<open>S\<close> and its own holding
  together above what they were, and returns a result worth \<open>pz\<close> only if it holds as much.
\<close>

primrec metered ::
  "('s \<Rightarrow> bool) \<Rightarrow> ('s \<Rightarrow> nat) \<Rightarrow> ('a \<Rightarrow> nat) \<Rightarrow> ('s, 'a) prog \<Rightarrow> nat \<Rightarrow> bool" where
  "metered I S pz (Ret x) = (\<lambda>k. pz x \<le> k)"
| "metered I S pz (Throw e) = (\<lambda>k. True)"
| "metered I S pz (Act u n) = (\<lambda>k. \<forall>s. I s \<longrightarrow> I (u s) \<and> (\<exists>j. metered I S pz (n s) j \<and> j + S (u s) \<le> k + S s))"

lemma metered_mono: "metered I S pz q j \<Longrightarrow> j \<le> m \<Longrightarrow> metered I S pz q m"
  by (induction q arbitrary: j m) (force+)

lemma metered_bnd: "metered I S qz p k \<Longrightarrow> (\<And>x. metered I S pz (f x) (qz x)) \<Longrightarrow> metered I S pz (bnd p f) k"
proof (induction p arbitrary: k)
  case (Ret x)
  then have "metered I S pz (f x) (qz x)" and "qz x \<le> k" by simp_all
  then have "metered I S pz (f x) k" by (rule metered_mono)
  then show ?case by simp
next
  case (Act u n)
  then show ?case by simp (metis rangeI)
qed simp

lemma metered_sequ: "metered I S (\<lambda>_. j) p k \<Longrightarrow> metered I S pz q j \<Longrightarrow> metered I S pz (sequ p q) k"
  unfolding sequ_def by (rule metered_bnd)

text \<open>A program none of whose actions adds to the stock keeps what it holds.\<close>

lemma metered_quiet:
  "all_steps (\<lambda>s t. I s \<longrightarrow> I t \<and> S t \<le> S s) p \<Longrightarrow> metered I S (\<lambda>_. k) p k"
  by (induction p) (auto intro!: exI [of _ k])

lemma metered_atom:
  assumes "\<And>s. I s \<Longrightarrow> I (snd (f s)) \<and>
     (case fst (f s) of Inl e \<Rightarrow> S (snd (f s)) \<le> k + S s | Inr x \<Rightarrow> pz x + S (snd (f s)) \<le> k + S s)"
  shows "metered I S pz (atom f) k"
proof -
  have "\<exists>j. metered I S pz (case fst (f s) of Inl e \<Rightarrow> Throw e | Inr x \<Rightarrow> Ret x) j \<and> j + S (snd (f s)) \<le> k + S s"
    if "I s" for s
  proof (cases "fst (f s)")
    case (Inl e)
    with assms [OF that] show ?thesis by (intro exI [of _ 0]) simp
  next
    case (Inr x)
    with assms [OF that] show ?thesis by (intro exI [of _ "pz x"]) simp
  qed
  with assms show ?thesis by (simp add: atom_def)
qed

definition worth :: "('a \<Rightarrow> nat) \<Rightarrow> ('s, 'a) prog \<Rightarrow> nat" where
  "worth pz p = (case p of Ret x \<Rightarrow> pz x | _ \<Rightarrow> 0)"

lemma worth_le: "metered I S pz p k \<Longrightarrow> worth pz p \<le> k"
  by (cases p) (simp_all add: worth_def)

text \<open>Along every interleaving, the results returned are worth no more than the initial stock.\<close>

lemma sum_list_update_nat:
  "i < length ks \<Longrightarrow> sum_list (ks[i := (j::nat)]) + ks ! i = sum_list ks + j"
  by (induction ks arbitrary: i) (auto split: nat.split)

lemma metered_step:
  assumes st: "pool_step R (s, ps) (t, qs)" and "I s"
    and env: "\<And>s t. I s \<Longrightarrow> R s t \<Longrightarrow> I t \<and> S t \<le> S s"
    and m: "list_all2 (metered I S pz) ps ks"
  shows "I t \<and> (\<exists>js. list_all2 (metered I S pz) qs js \<and> sum_list js + S t \<le> sum_list ks + S s)"
  using st
proof (cases rule: pool_step.cases)
  case (thread i u n)
  then have "metered I S pz (Act u n) (ks ! i)" and i: "i < length ks"
    using m by (auto dest: list_all2_nthD list_all2_lengthD)
  with \<open>I s\<close> obtain j where "I (u s)" "metered I S pz (n s) j" "j + S (u s) \<le> ks ! i + S s" by auto
  moreover from this m have "list_all2 (metered I S pz) (ps[i := n s]) (ks[i := j])"
    by (simp add: list_all2_update_cong)
  moreover have "sum_list (ks[i := j]) + ks ! i = sum_list ks + j" using i by (rule sum_list_update_nat)
  ultimately show ?thesis using thread by (intro conjI exI [of _ "ks[i := j]"]) simp_all
next
  case environment
  with env [OF \<open>I s\<close>] m show ?thesis by (intro conjI exI [of _ ks]) simp_all
qed

lemma metered_run:
  assumes "pool_run R (s, ps) (t, qs)" and "I s"
    and env: "\<And>s t. I s \<Longrightarrow> R s t \<Longrightarrow> I t \<and> S t \<le> S s"
    and m: "list_all2 (metered I S pz) ps ks"
  shows "I t \<and> (\<exists>js. list_all2 (metered I S pz) qs js \<and> sum_list js + S t \<le> sum_list ks + S s)"
  using assms(1)
proof (induction "(t, qs)" arbitrary: t qs rule: rtranclp_induct)
  case base
  with m \<open>I s\<close> show ?case by auto
next
  case (step y)
  obtain t' qs' where y: "y = (t', qs')" by (cases y)
  with step obtain js where js: "I t'" "list_all2 (metered I S pz) qs' js"
    "sum_list js + S t' \<le> sum_list ks + S s" by blast
  from metered_step [OF step(2) [unfolded y] js(1) env js(2)] js(3) show ?case by fastforce
qed

lemma worth_bound:
  "list_all2 (metered I S pz) qs js \<Longrightarrow> sum_list (map (worth pz) qs) \<le> sum_list js"
  by (induction rule: list_all2_induct) (auto dest: worth_le)

theorem stock_bounds_results:
  assumes "pool_run R (s, ps) (t, qs)" and "I s"
    and "\<And>s t. I s \<Longrightarrow> R s t \<Longrightarrow> I t \<and> S t \<le> S s"
    and "\<And>p. p \<in> set ps \<Longrightarrow> metered I S pz p 0"
  shows "sum_list (map (worth pz) qs) + S t \<le> S s"
proof -
  have "list_all2 (metered I S pz) ps (replicate (length ps) 0)"
    using assms(4) by (simp add: list_all2_conv_all_nth)
  from metered_run [OF assms(1,2,3) this] obtain js where
    "list_all2 (metered I S pz) qs js" "sum_list js + S t \<le> S s" by (auto simp: sum_list_replicate)
  with worth_bound show ?thesis by fastforce
qed

end
