(* ===== verification/World.thy ===== *)
theory World
  imports Config Prog
begin

text \<open>
  The state the services share: the three Postgres tables (\<open>src/db/schema\<close>), the Redis keyspace,
  the jobs handed to the email queue, the mail sent, the clock (\<open>Date.now()\<close>, milliseconds),
  the position in the system's random source, and the module variable \<open>dummyHash\<close> of the auth
  service. \<open>pg\<close>, \<open>rd\<close>, \<open>smtp\<close> and \<open>hook\<close> say how
  the next call to Postgres, Redis, the mail server or the alert webhook goes; the environment may change them at any time.
\<close>

subsection \<open>Rows\<close>

datatype role = User | Admin

record user =
  u_id :: string
  u_email :: string
  u_passwordHash :: string
  u_name :: "string option"
  u_role :: role
  u_emailVerifiedAt :: "int option"
  u_totpSecret :: "string option"
  u_totpEnabledAt :: "int option"
  u_deletedAt :: "int option"
  u_createdAt :: int
  u_updatedAt :: int

record refresh_token =
  rt_id :: string
  rt_token :: string
  rt_userId :: string
  rt_familyId :: string
  rt_usedAt :: "int option"
  rt_expiresAt :: int
  rt_createdAt :: int

record audit_log =
  al_id :: string
  al_action :: string
  al_actorId :: "string option"
  al_targetType :: "string option"
  al_targetId :: "string option"
  al_metadata :: "jsval option"
  al_ip :: "string option"
  al_createdAt :: int

subsection \<open>Mail, jobs, alerts\<close>

record mail =
  m_to :: string
  m_subject :: string
  m_text :: string
  m_html :: "string option"

record job_opts =
  jo_attempts :: nat
  jo_backoff_delay :: nat
  jo_removeOnComplete :: bool
  jo_removeOnFail :: nat

record alert =
  a_title :: string
  a_message :: string
  a_context :: "(string \<times> jsval) list"

text \<open>How a call to a service ends: answered; refused without effect; or carried out with the
  answer lost (the deadline of \<open>withDeadline\<close> passed, or the connection dropped).\<close>

datatype link = Up | Down | Lost

text \<open>How a \<open>fetch\<close> ends: with a status, or by throwing.\<close>

datatype fetch_result = Responds nat | Fails

record world =
  users :: "user list"
  refreshTokens :: "refresh_token list"
  auditLogs :: "audit_log list"
  redis :: "string \<Rightarrow> (string \<times> int option) option"
  email_jobs :: "(mail \<times> job_opts) list"
  sent :: "mail list"
  outbox :: "mail list"
  alerts :: "(string \<times> alert) list"
  clock :: int
  rng :: nat
  dummyHash :: "string option"
  pg :: link
  rd :: link
  smtp :: link
  hook :: fetch_result

definition empty_world :: world where
  "empty_world = \<lparr>users = [], refreshTokens = [], auditLogs = [], redis = (\<lambda>_. None),
     email_jobs = [], sent = [], outbox = [], alerts = [], clock = 0, rng = 0, dummyHash = None,
     pg = Up, rd = Up, smtp = Up, hook = Responds 200\<rparr>"

subsection \<open>Clock and random source\<close>

text \<open>\<open>Date.now()\<close> and \<open>new Date()\<close>\<close>

definition now :: "(world, int) prog" where
  "now = atom (\<lambda>w. (Inr (clock w), w))"

text \<open>One draw from the random source.\<close>

definition draw :: "(nat \<Rightarrow> 'a) \<Rightarrow> (world, 'a) prog" where
  "draw f = atom (\<lambda>w. (Inr (f (rng w)), w\<lparr>rng := Suc (rng w)\<rparr>))"

lemma run_now [run_simps]: "run now w = (Inr (clock w), w)"
  by (simp add: now_def run_atom)

lemma run_draw [run_simps]: "run (draw f) w = (Inr (f (rng w)), w\<lparr>rng := Suc (rng w)\<rparr>)"
  by (simp add: draw_def run_atom)

subsection \<open>Calls over a link\<close>

definition over_link ::
  "(world \<Rightarrow> link) \<Rightarrow> exn \<Rightarrow> (world \<Rightarrow> (exn + 'a) \<times> world) \<Rightarrow> (world, 'a) prog" where
  "over_link lk err f = atom (\<lambda>w. case lk w of
      Up \<Rightarrow> f w
    | Down \<Rightarrow> (Inl err, w)
    | Lost \<Rightarrow> (Inl err, snd (f w)))"

lemma run_over_link:
  "run (over_link lk err f) w =
     (case lk w of Up \<Rightarrow> f w | Down \<Rightarrow> (Inl err, w) | Lost \<Rightarrow> (Inl err, snd (f w)))"
  by (simp add: over_link_def run_atom)

lemma run_over_link_Up [run_simps]: "lk w = Up \<Longrightarrow> run (over_link lk err f) w = f w"
  by (simp add: run_over_link)

lemma all_steps_over_link:
  "(\<And>w. G w w) \<Longrightarrow> (\<And>w. G w (snd (f w))) \<Longrightarrow> all_steps G (over_link lk err f)"
  unfolding over_link_def by (rule all_steps_atom) (auto split: link.splits)

lemma all_steps_now: "(\<And>w. G w w) \<Longrightarrow> all_steps G now"
  unfolding now_def by (rule all_steps_atom) simp

lemma all_steps_draw: "(\<And>w. G w (w\<lparr>rng := Suc (rng w)\<rparr>)) \<Longrightarrow> all_steps G (draw f)"
  unfolding draw_def by (rule all_steps_atom) simp

subsection \<open>The environment of the processes\<close>

text \<open>
  Between two actions time may pass and services may fail or recover; the tables, the keyspace
  and the queue change only through the code's own calls.
\<close>

definition env_step :: "world \<Rightarrow> world \<Rightarrow> bool" where
  "env_step w w' \<longleftrightarrow> (\<exists>t p r m h. clock w \<le> t \<and> w' = w\<lparr>clock := t, pg := p, rd := r, smtp := m, hook := h\<rparr>)"

lemma env_stepI: "clock w \<le> t \<Longrightarrow> env_step w (w\<lparr>clock := t, pg := p, rd := r, smtp := m, hook := h\<rparr>)"
  unfolding env_step_def by blast

lemma env_step_rd: "env_step w (w\<lparr>rd := r\<rparr>)"
proof (cases w)
  case (fields us rs as k js sm ob al t n dh p r' m h)
  then show ?thesis
    using env_stepI [where w = w and t = t and p = p and r = r and m = m and h = h] by simp
qed

subsection \<open>A small world, for witnesses\<close>

definition demo_user :: user where
  "demo_user = \<lparr>u_id = ''alice'', u_email = ''alice@example.com'', u_passwordHash = ''apassword'',
     u_name = None, u_role = User, u_emailVerifiedAt = None, u_totpSecret = None, u_totpEnabledAt = None,
     u_deletedAt = None, u_createdAt = 0, u_updatedAt = 0\<rparr>"

text \<open>The hash of \<open>t\<close> under \<open>demo_lib\<close> is \<open>ht\<close>.\<close>

definition demo_token :: "string \<Rightarrow> int option \<Rightarrow> refresh_token" where
  "demo_token t usedAt = \<lparr>rt_id = ''id-'' @ t, rt_token = CHR ''h'' # t, rt_userId = ''alice'',
     rt_familyId = ''family'', rt_usedAt = usedAt, rt_expiresAt = 1000000, rt_createdAt = 0\<rparr>"

definition demo_world :: world where
  "demo_world = empty_world\<lparr>users := [demo_user],
     refreshTokens := [demo_token ''new'' None, demo_token ''old'' (Some 10)], clock := 1000\<rparr>"

definition demo_env :: env where
  "demo_env = env_default ''postgres://localhost/app'' ''a-secret-of-sixteen''"

lemma demo_world_simps [simp]:
  "users demo_world = [demo_user]" "pg demo_world = Up" "rd demo_world = Up" "smtp demo_world = Up"
  "refreshTokens demo_world = [demo_token ''new'' None, demo_token ''old'' (Some 10)]"
  "clock demo_world = 1000" "rng demo_world = 0" "auditLogs demo_world = []"
  "redis demo_world = (\<lambda>_. None)" "hook demo_world = Responds 200"
  by (simp_all add: demo_world_def empty_world_def)

lemma demo_token_simps [simp]:
  "rt_id (demo_token t u) = ''id-'' @ t" "rt_token (demo_token t u) = CHR ''h'' # t"
  "rt_userId (demo_token t u) = ''alice''" "rt_familyId (demo_token t u) = ''family''"
  "rt_usedAt (demo_token t u) = u" "rt_expiresAt (demo_token t u) = 1000000"
  by (simp_all add: demo_token_def)

lemma demo_user_simps [simp]:
  "u_id demo_user = ''alice''" "u_email demo_user = ''alice@example.com''"
  "u_passwordHash demo_user = ''apassword''" "u_role demo_user = User" "u_deletedAt demo_user = None"
  "u_totpSecret demo_user = None" "u_totpEnabledAt demo_user = None" "u_emailVerifiedAt demo_user = None"
  "u_name demo_user = None" "u_createdAt demo_user = 0"
  by (simp_all add: demo_user_def)

lemma demo_env_simps [simp]:
  "QUEUE_DRIVER demo_env = DriverRedis" "NODE_ENV demo_env = Development"
  "AUTH_TRANSPORT demo_env = Bearer" "REQUIRE_VERIFIED_EMAIL demo_env = False" "JWT_REFRESH_EXP demo_env = ''7d''"
  "JWT_SECRET demo_env = ''a-secret-of-sixteen''" "JWT_SECRET_PREVIOUS demo_env = []" "JWT_ACCESS_EXP demo_env = ''15m''"
  "CORS_ORIGIN demo_env = ''*''" "TRUST_PROXY demo_env = False"
  by (simp_all add: demo_env_def env_default_def)

end
