(* ===== verification/Permissions.thy ===== *)
theory Permissions
  imports World "HOL-Library.Option_ord"
begin

text \<open>
  The permission model of \<open>src/lib/permissions.ts\<close>: permissions \<open>model:operation:scope\<close>, the
  grants of each role, and the resolution of a scope. Model and operation are plain texts, as the
  guard macro gets them by splitting its action.
\<close>

datatype scope = All | Own

text \<open>\<open>None\<close> is the superuser grant \<open>"*"\<close>.\<close>

fun ROLE_PERMISSIONS :: "role \<Rightarrow> string list option" where
  "ROLE_PERMISSIONS Admin = None"
| "ROLE_PERMISSIONS User = Some [''user:read:own'', ''user:update:own'', ''user:delete:own'']"

definition resolveScope :: "role \<Rightarrow> string \<Rightarrow> string \<Rightarrow> scope option" where
  "resolveScope role model operation =
     (case ROLE_PERMISSIONS role of
        None \<Rightarrow> Some All
      | Some grants \<Rightarrow>
          let prefix = model @ '':'' @ operation @ '':'' in
          if prefix @ ''all'' \<in> set grants then Some All
          else if prefix @ ''own'' \<in> set grants then Some Own
          else None)"

text \<open>Roles and scopes in the order of what they allow; no scope at all is below both.\<close>

instantiation role :: linorder
begin

definition less_eq_role :: "role \<Rightarrow> role \<Rightarrow> bool" where
  "less_eq_role r s \<longleftrightarrow> r = User \<or> s = Admin"

definition less_role :: "role \<Rightarrow> role \<Rightarrow> bool" where
  "less_role r s \<longleftrightarrow> r = User \<and> s = Admin"

instance
  by standard (auto simp: less_eq_role_def less_role_def intro: role.exhaust)

end

instantiation scope :: linorder
begin

definition less_eq_scope :: "scope \<Rightarrow> scope \<Rightarrow> bool" where
  "less_eq_scope r s \<longleftrightarrow> r = Own \<or> s = All"

definition less_scope :: "scope \<Rightarrow> scope \<Rightarrow> bool" where
  "less_scope r s \<longleftrightarrow> r = Own \<and> s = All"

instance
  by standard (auto simp: less_eq_scope_def less_scope_def intro: scope.exhaust)

end

lemma scope_top: "x \<le> Some All" for x :: "scope option"
  by (cases x) (simp_all add: less_eq_scope_def)

lemma resolveScope_Admin [simp]: "resolveScope Admin m op = Some All"
  by (simp add: resolveScope_def)

lemma not_all_grant: "prefix @ ''all'' \<notin> {''user:read:own'', ''user:update:own'', ''user:delete:own''}"
proof -
  have "last (prefix @ ''all'') = CHR ''l''" by simp
  then show ?thesis by (auto dest: arg_cong [where f = last])
qed

lemma resolveScope_User:
  "resolveScope User m op =
     (if m @ '':'' @ op \<in> {''user:read'', ''user:update'', ''user:delete''} then Some Own else None)"
proof -
  have "(m @ '':'' @ op @ '':'' @ ''own'' = p @ '':own'') = (m @ '':'' @ op = p)" for p
    using append_same_eq [of "m @ '':'' @ op" "'':own''" p] by simp
  from this [of "''user:read''"] this [of "''user:update''"] this [of "''user:delete''"]
  show ?thesis
    using not_all_grant [of "m @ '':'' @ op @ '':''"] by (simp add: resolveScope_def)
qed

text \<open>A more privileged role is never allowed less.\<close>

lemma resolveScope_mono: "r \<le> s \<Longrightarrow> resolveScope r model operation \<le> resolveScope s model operation"
  by (cases s; cases r) (simp_all add: less_eq_role_def scope_top del: less_eq_option_Some)

end
