(* ===== verification/Database.thy ===== *)
theory Database
  imports World
begin

text \<open>
  The SQL statements the services issue through Drizzle, on the tables of \<open>src/db/schema\<close>, with
  the constraints the schema declares: column lengths, primary keys, the unique refresh-token hash,
  the reference from \<open>refresh_tokens\<close> to \<open>users\<close>, and the partial unique index
  \<open>users_email_active_unique\<close>. Each statement is one atomic action.
\<close>

subsection \<open>Statements on a table\<close>

definition pg_call :: "(world \<Rightarrow> (exn + 'a) \<times> world) \<Rightarrow> (world, 'a) prog" where
  "pg_call = over_link pg (DrizzleQueryError ''08006'')"

definition select_users :: "(user \<Rightarrow> bool) \<Rightarrow> (world, user list) prog" where
  "select_users P = pg_call (\<lambda>w. (Inr (filter P (users w)), w))"

text \<open>\<open>const [row] = await db.select()\<dots>where(P).limit(1)\<close>\<close>

definition select_user :: "(user \<Rightarrow> bool) \<Rightarrow> (world, user option) prog" where
  "select_user P = pg_call (\<lambda>w. (Inr (find P (users w)), w))"

text \<open>\<open>update(users).set(f).where(P).returning()\<close>; the column's \<open>$onUpdate\<close> refreshes \<open>updatedAt\<close>.\<close>

definition set_user :: "int \<Rightarrow> (user \<Rightarrow> user) \<Rightarrow> user \<Rightarrow> user" where
  "set_user t f u = (f u)\<lparr>u_updatedAt := t\<rparr>"

definition update_users :: "(user \<Rightarrow> bool) \<Rightarrow> (user \<Rightarrow> user) \<Rightarrow> (world, user list) prog" where
  "update_users P f = pg_call (\<lambda>w.
     (Inr (map (set_user (clock w) f) (filter P (users w))),
      w\<lparr>users := map (\<lambda>u. if P u then set_user (clock w) f u else u) (users w)\<rparr>))"

definition user_fits :: "user \<Rightarrow> bool" where
  "user_fits u \<longleftrightarrow> length (u_email u) \<le> 255 \<and> length (u_passwordHash u) \<le> 255 \<and>
     (case u_name u of None \<Rightarrow> True | Some n \<Rightarrow> length n \<le> 255) \<and>
     (case u_totpSecret u of None \<Rightarrow> True | Some s \<Rightarrow> length s \<le> 64)"

text \<open>The rows an index entry for an active address belongs to.\<close>

definition active_email :: "string \<Rightarrow> user \<Rightarrow> bool" where
  "active_email e u \<longleftrightarrow> u_email u = e \<and> u_deletedAt u = None"

definition insert_user_row :: "user \<Rightarrow> world \<Rightarrow> (exn + user) \<times> world" where
  "insert_user_row u w =
     (if \<not> user_fits u then (Inl (DrizzleQueryError ''22001''), w)
      else if list_ex (\<lambda>v. u_id v = u_id u) (users w) \<or>
              (u_deletedAt u = None \<and> list_ex (active_email (u_email u)) (users w))
        then (Inl (DrizzleQueryError ''23505''), w)
      else (Inr u, w\<lparr>users := users w @ [u]\<rparr>))"

text \<open>\<open>insert(users).values(\<dots>).returning()\<close>: the other columns take their defaults.\<close>

definition new_user :: "lib \<Rightarrow> string \<Rightarrow> string \<Rightarrow> string option \<Rightarrow> role \<Rightarrow> int option \<Rightarrow> world \<Rightarrow> user" where
  "new_user L email ph name r verifiedAt w =
     \<lparr>u_id = uuid L (rng w), u_email = email, u_passwordHash = ph, u_name = name, u_role = r,
      u_emailVerifiedAt = verifiedAt, u_totpSecret = None, u_totpEnabledAt = None,
      u_deletedAt = None, u_createdAt = clock w, u_updatedAt = clock w\<rparr>"

definition insert_user ::
  "lib \<Rightarrow> string \<Rightarrow> string \<Rightarrow> string option \<Rightarrow> role \<Rightarrow> int option \<Rightarrow> (world, user) prog" where
  "insert_user L email ph name r verifiedAt = pg_call (\<lambda>w.
     insert_user_row (new_user L email ph name r verifiedAt w) (w\<lparr>rng := Suc (rng w)\<rparr>))"

subsection \<open>refresh_tokens\<close>

definition select_token :: "(refresh_token \<Rightarrow> bool) \<Rightarrow> (world, refresh_token option) prog" where
  "select_token P = pg_call (\<lambda>w. (Inr (find P (refreshTokens w)), w))"

definition update_tokens ::
  "(refresh_token \<Rightarrow> bool) \<Rightarrow> (refresh_token \<Rightarrow> refresh_token) \<Rightarrow> (world, refresh_token list) prog" where
  "update_tokens P f = pg_call (\<lambda>w.
     (Inr (map f (filter P (refreshTokens w))),
      w\<lparr>refreshTokens := map (\<lambda>r. if P r then f r else r) (refreshTokens w)\<rparr>))"

text \<open>\<open>delete(refreshTokens).where(P).returning()\<close>\<close>

definition delete_tokens :: "(refresh_token \<Rightarrow> bool) \<Rightarrow> (world, refresh_token list) prog" where
  "delete_tokens P = pg_call (\<lambda>w.
     (Inr (filter P (refreshTokens w)),
      w\<lparr>refreshTokens := filter (\<lambda>r. \<not> P r) (refreshTokens w)\<rparr>))"

definition insert_token_row :: "refresh_token \<Rightarrow> world \<Rightarrow> (exn + refresh_token) \<times> world" where
  "insert_token_row r w =
     (if \<not> length (rt_token r) \<le> 512 then (Inl (DrizzleQueryError ''22001''), w)
      else if list_ex (\<lambda>s. rt_id s = rt_id r \<or> rt_token s = rt_token r) (refreshTokens w)
        then (Inl (DrizzleQueryError ''23505''), w)
      else if \<not> list_ex (\<lambda>u. u_id u = rt_userId r) (users w)
        then (Inl (DrizzleQueryError ''23503''), w)
      else (Inr r, w\<lparr>refreshTokens := refreshTokens w @ [r]\<rparr>))"

definition new_token :: "lib \<Rightarrow> string \<Rightarrow> string \<Rightarrow> int \<Rightarrow> string \<Rightarrow> world \<Rightarrow> refresh_token" where
  "new_token L userId hash expiresAt familyId w =
     \<lparr>rt_id = uuid L (rng w), rt_token = hash, rt_userId = userId, rt_familyId = familyId,
      rt_usedAt = None, rt_expiresAt = expiresAt, rt_createdAt = clock w\<rparr>"

definition insert_token :: "lib \<Rightarrow> string \<Rightarrow> string \<Rightarrow> int \<Rightarrow> string \<Rightarrow> (world, refresh_token) prog" where
  "insert_token L userId hash expiresAt familyId = pg_call (\<lambda>w.
     insert_token_row (new_token L userId hash expiresAt familyId w) (w\<lparr>rng := Suc (rng w)\<rparr>))"

subsection \<open>audit_logs\<close>

definition audit_fits :: "audit_log \<Rightarrow> bool" where
  "audit_fits a \<longleftrightarrow> length (al_action a) \<le> 100 \<and>
     (case al_targetType a of None \<Rightarrow> True | Some s \<Rightarrow> length s \<le> 50) \<and>
     (case al_targetId a of None \<Rightarrow> True | Some s \<Rightarrow> length s \<le> 255) \<and>
     (case al_ip a of None \<Rightarrow> True | Some s \<Rightarrow> length s \<le> 64)"

definition insert_audit_row :: "audit_log \<Rightarrow> world \<Rightarrow> (exn + unit) \<times> world" where
  "insert_audit_row a w =
     (if \<not> audit_fits a then (Inl (DrizzleQueryError ''22001''), w)
      else if list_ex (\<lambda>b. al_id b = al_id a) (auditLogs w)
        then (Inl (DrizzleQueryError ''23505''), w)
      else (Inr (), w\<lparr>auditLogs := auditLogs w @ [a]\<rparr>))"

definition insert_audit ::
  "lib \<Rightarrow> string \<Rightarrow> string option \<Rightarrow> string option \<Rightarrow> string option \<Rightarrow> jsval option \<Rightarrow> string option \<Rightarrow>
   (world, unit) prog" where
  "insert_audit L action actorId targetType targetId metadata ip = pg_call (\<lambda>w.
     insert_audit_row \<lparr>al_id = uuid L (rng w), al_action = action, al_actorId = actorId,
        al_targetType = targetType, al_targetId = targetId, al_metadata = metadata, al_ip = ip,
        al_createdAt = clock w\<rparr> (w\<lparr>rng := Suc (rng w)\<rparr>))"

definition delete_audit :: "(audit_log \<Rightarrow> bool) \<Rightarrow> (world, audit_log list) prog" where
  "delete_audit P = pg_call (\<lambda>w.
     (Inr (filter P (auditLogs w)), w\<lparr>auditLogs := filter (\<lambda>a. \<not> P a) (auditLogs w)\<rparr>))"

subsection \<open>Execution with Postgres answering\<close>

lemmas sql_defs =
  select_users_def select_user_def update_users_def insert_user_def select_token_def
  update_tokens_def delete_tokens_def insert_token_def insert_audit_def delete_audit_def pg_call_def

lemma run_sql [run_simps]:
  assumes "pg w = Up"
  shows "run (select_users P) w = (Inr (filter P (users w)), w)"
    and "run (select_user P) w = (Inr (find P (users w)), w)"
    and "run (update_users P f) w =
      (Inr (map (set_user (clock w) f) (filter P (users w))),
       w\<lparr>users := map (\<lambda>u. if P u then set_user (clock w) f u else u) (users w)\<rparr>)"
    and "run (insert_user L em ph nm r v) w =
      insert_user_row (new_user L em ph nm r v w) (w\<lparr>rng := Suc (rng w)\<rparr>)"
    and "run (select_token Q) w = (Inr (find Q (refreshTokens w)), w)"
    and "run (update_tokens Q g) w =
      (Inr (map g (filter Q (refreshTokens w))),
       w\<lparr>refreshTokens := map (\<lambda>r. if Q r then g r else r) (refreshTokens w)\<rparr>)"
    and "run (delete_tokens Q) w =
      (Inr (filter Q (refreshTokens w)), w\<lparr>refreshTokens := filter (\<lambda>r. \<not> Q r) (refreshTokens w)\<rparr>)"
    and "run (insert_token L uid h ex fam) w =
      insert_token_row (new_token L uid h ex fam w) (w\<lparr>rng := Suc (rng w)\<rparr>)"
    and "run (delete_audit A) w =
      (Inr (filter A (auditLogs w)), w\<lparr>auditLogs := filter (\<lambda>a. \<not> A a) (auditLogs w)\<rparr>)"
  using assms by (simp_all add: sql_defs run_simps)

subsection \<open>The declared constraints, as an invariant of the tables\<close>

definition users_email_active_unique :: "user list \<Rightarrow> bool" where
  "users_email_active_unique us \<longleftrightarrow> (\<forall>e. count_rows (active_email e) us \<le> 1)"

definition users_pk :: "user list \<Rightarrow> bool" where
  "users_pk us \<longleftrightarrow> distinct (map u_id us)"

definition tokens_unique :: "refresh_token list \<Rightarrow> bool" where
  "tokens_unique rs \<longleftrightarrow> distinct (map rt_id rs) \<and> distinct (map rt_token rs)"

definition tokens_fk :: "world \<Rightarrow> bool" where
  "tokens_fk w \<longleftrightarrow> (\<forall>r \<in> set (refreshTokens w). rt_userId r \<in> u_id ` set (users w))"

definition db_ok :: "world \<Rightarrow> bool" where
  "db_ok w \<longleftrightarrow> users_pk (users w) \<and> users_email_active_unique (users w) \<and>
     tokens_unique (refreshTokens w) \<and> tokens_fk w"

lemma tokens_fk_alt:
  "tokens_fk w \<longleftrightarrow> rt_userId ` set (refreshTokens w) \<subseteq> u_id ` set (users w)"
  by (auto simp: tokens_fk_def)

lemma active_email_unique:
  assumes "users_email_active_unique us" "u \<in> set us" "v \<in> set us"
    "active_email e u" "active_email e v"
  shows "u = v"
proof (rule ccontr)
  assume ne: "u \<noteq> v"
  from assms(2,4) have "count_rows (active_email e) us > 0" by (rule count_rows_pos)
  have "count_rows (active_email e) us \<ge> 2"
    using ne assms(2-5)
  proof (induction us)
    case (Cons x xs)
    then show ?case
      by (cases "x = u \<or> x = v") (auto dest: count_rows_pos [of _ _ "active_email e"])
  qed simp
  with assms(1) show False by (auto simp: users_email_active_unique_def dest: spec [of _ e])
qed

lemma users_pk_unique: "users_pk us \<Longrightarrow> u \<in> set us \<Longrightarrow> v \<in> set us \<Longrightarrow> u_id u = u_id v \<Longrightarrow> u = v"
  by (auto simp: users_pk_def distinct_map inj_on_def)

lemma tokens_unique_token:
  "tokens_unique rs \<Longrightarrow> r \<in> set rs \<Longrightarrow> s \<in> set rs \<Longrightarrow> rt_token r = rt_token s \<Longrightarrow> r = s"
  by (auto simp: tokens_unique_def distinct_map inj_on_def)

lemma tokens_unique_id:
  "tokens_unique rs \<Longrightarrow> r \<in> set rs \<Longrightarrow> s \<in> set rs \<Longrightarrow> rt_id r = rt_id s \<Longrightarrow> r = s"
  by (auto simp: tokens_unique_def distinct_map inj_on_def)

lemma tokens_unique_filter: "tokens_unique rs \<Longrightarrow> tokens_unique (filter P rs)"
  by (simp add: tokens_unique_def distinct_map_filter)

lemma find_token:
  assumes "tokens_unique rs" "r \<in> set rs"
  shows "find (\<lambda>s. rt_token s = rt_token r) rs = Some r"
  using assms by (induction rs) (auto simp: tokens_unique_def)

lemma find_append: "find P (xs @ ys) = (case find P xs of None \<Rightarrow> find P ys | Some x \<Rightarrow> Some x)"
  by (induction xs) auto

subsection \<open>Every statement keeps the constraints\<close>

abbreviation keeps_db :: "world \<Rightarrow> world \<Rightarrow> bool" where
  "keeps_db w w' \<equiv> db_ok w \<longrightarrow> db_ok w'"

text \<open>An update that leaves the key and the address alone and never undeletes a row.\<close>

definition safe_user_update :: "(user \<Rightarrow> user) \<Rightarrow> bool" where
  "safe_user_update f \<longleftrightarrow> (\<forall>u. u_id (f u) = u_id u \<and> u_email (f u) = u_email u \<and>
     (u_deletedAt (f u) = None \<longrightarrow> u_deletedAt u = None))"

definition safe_token_update :: "(refresh_token \<Rightarrow> refresh_token) \<Rightarrow> bool" where
  "safe_token_update f \<longleftrightarrow> (\<forall>r. rt_id (f r) = rt_id r \<and> rt_token (f r) = rt_token r \<and>
     rt_userId (f r) = rt_userId r)"

lemma db_ok_cong:
  "users w' = users w \<Longrightarrow> refreshTokens w' = refreshTokens w \<Longrightarrow> db_ok w' = db_ok w"
  by (simp add: db_ok_def tokens_fk_def)

lemma db_ok_update_users:
  assumes "safe_user_update f" and "db_ok w"
  shows "db_ok (w\<lparr>users := map (\<lambda>u. if P u then set_user t f u else u) (users w)\<rparr>)"
proof -
  let ?g = "\<lambda>u. if P u then set_user t f u else u"
  have id: "u_id (?g u) = u_id u" for u
    using assms(1) by (simp add: safe_user_update_def set_user_def)
  have act: "active_email e (?g u) \<Longrightarrow> active_email e u" for e u
    using assms(1) by (auto simp: safe_user_update_def set_user_def active_email_def split: if_splits)
  have "u_id \<circ> ?g = u_id"
    by (simp add: fun_eq_iff id)
  moreover have "count_rows (active_email e) (map ?g (users w)) \<le> 1" for e
  proof -
    have "count_rows (active_email e) (map ?g (users w)) \<le> count_rows (active_email e) (users w)"
      by (rule count_rows_map_le) (use act in blast)
    also have "\<dots> \<le> 1" using assms(2) by (auto simp: db_ok_def users_email_active_unique_def)
    finally show ?thesis .
  qed
  moreover have "u_id ` set (map ?g (users w)) = u_id ` set (users w)"
    by (simp only: set_map image_image id)
  ultimately show ?thesis
    using assms(2) by (simp add: db_ok_def users_pk_def users_email_active_unique_def tokens_fk_alt del: set_map)
qed

lemma db_ok_insert_user:
  assumes "db_ok w"
  shows "db_ok (snd (insert_user_row u w))"
proof (cases "user_fits u \<and> \<not> list_ex (\<lambda>v. u_id v = u_id u) (users w) \<and>
    (u_deletedAt u = None \<longrightarrow> \<not> list_ex (active_email (u_email u)) (users w))")
  case True
  have "count_rows (active_email e) (users w @ [u]) \<le> 1" for e
  proof (cases "active_email e u")
    case True': True
    then have "count_rows (active_email e) (users w) = 0"
      using True by (auto simp: count_rows_0_iff active_email_def list_ex_iff)
    with True' show ?thesis by simp
  next
    case False
    then show ?thesis using assms by (auto simp: db_ok_def users_email_active_unique_def)
  qed
  with True assms show ?thesis
    by (auto simp: insert_user_row_def db_ok_def users_pk_def users_email_active_unique_def
        tokens_fk_def list_ex_iff)
next
  case False
  with assms show ?thesis by (auto simp: insert_user_row_def)
qed

lemma db_ok_update_tokens:
  assumes "safe_token_update f" and "db_ok w"
  shows "db_ok (w\<lparr>refreshTokens := map (\<lambda>r. if P r then f r else r) (refreshTokens w)\<rparr>)"
proof -
  let ?g = "\<lambda>r. if P r then f r else r"
  have "rt_id \<circ> ?g = rt_id" "rt_token \<circ> ?g = rt_token" "rt_userId \<circ> ?g = rt_userId"
    using assms(1) by (auto simp: safe_token_update_def fun_eq_iff)
  with assms(2) show ?thesis
    by (simp add: db_ok_def tokens_unique_def tokens_fk_alt image_comp del: if_image_distrib)
qed

lemma db_ok_delete_tokens:
  "db_ok w \<Longrightarrow> db_ok (w\<lparr>refreshTokens := filter P (refreshTokens w)\<rparr>)"
  by (auto simp: db_ok_def tokens_unique_def tokens_fk_def distinct_map inj_on_def)

lemma db_ok_insert_token:
  "db_ok w \<Longrightarrow> db_ok (snd (insert_token_row r w))"
  by (auto simp: insert_token_row_def db_ok_def tokens_unique_def tokens_fk_def list_ex_iff image_iff eq_commute)

lemma keeps_db_select [keeps]:
  "all_steps keeps_db (select_users P)" "all_steps keeps_db (select_user P)"
  "all_steps keeps_db (select_token Q)"
  by (auto simp: sql_defs intro!: all_steps_over_link)

lemma keeps_db_users [keeps]:
  "safe_user_update f \<Longrightarrow> all_steps keeps_db (update_users P f)"
  "all_steps keeps_db (insert_user L em ph nm r v)"
  by (auto simp: sql_defs intro!: all_steps_over_link db_ok_update_users db_ok_insert_user
      simp: db_ok_cong [where w' = "_\<lparr>rng := _\<rparr>"])

lemma keeps_db_tokens [keeps]:
  "safe_token_update g \<Longrightarrow> all_steps keeps_db (update_tokens Q g)"
  "all_steps keeps_db (delete_tokens Q)"
  "all_steps keeps_db (insert_token L uid h ex fam)"
  by (auto simp: sql_defs intro!: all_steps_over_link db_ok_update_tokens db_ok_delete_tokens
      db_ok_insert_token simp: db_ok_cong [where w' = "_\<lparr>rng := _\<rparr>"])

lemma insert_audit_row_tables:
  "users (snd (insert_audit_row a w)) = users w"
  "refreshTokens (snd (insert_audit_row a w)) = refreshTokens w"
  by (auto simp: insert_audit_row_def)

lemma keeps_db_audit [keeps]:
  "all_steps keeps_db (insert_audit L a b c d m i)" "all_steps keeps_db (delete_audit A)"
  by (auto simp: sql_defs insert_audit_row_tables intro!: all_steps_over_link
      simp: db_ok_cong [where w' = "snd (insert_audit_row _ _)"] db_ok_cong [where w' = "_\<lparr>auditLogs := _\<rparr>"])

end
