(* ===== verification/Jwt.thy ===== *)
theory Jwt
  imports Permissions Database
begin

text \<open>
  Access tokens (\<open>src/lib/jwt.ts\<close>) and the guard macros of \<open>src/plugins/auth.ts\<close>: who may pass a
  route, and what the route is told.
\<close>

subsection \<open>Access tokens\<close>

record access_payload =
  ap_sub :: string
  ap_role :: role

fun role_name :: "role \<Rightarrow> string" where
  "role_name User = ''user''"
| "role_name Admin = ''admin''"

definition signAccessToken :: "lib \<Rightarrow> env \<Rightarrow> access_payload \<Rightarrow> (world, string) prog" where
  "signAccessToken L E payload =
     bnd now (\<lambda>t. Ret (jwt_sign L (JWT_SECRET E) (access_claims (ap_sub payload) (role_name (ap_role payload)))
       (t div 1000) (JWT_ACCESS_EXP E)))"

text \<open>The test on the claims of a token whose signature verifies.\<close>

definition access_shape :: "jsval \<Rightarrow> access_payload option" where
  "access_shape payload =
     (case get_prop ''sub'' payload of
        JStr sub \<Rightarrow>
          (if get_prop ''role'' payload = JStr ''user'' then Some \<lparr>ap_sub = sub, ap_role = User\<rparr>
           else if get_prop ''role'' payload = JStr ''admin'' then Some \<lparr>ap_sub = sub, ap_role = Admin\<rparr>
           else None)
      | _ \<Rightarrow> None)"

text \<open>The loop over the secrets: a throw goes on with the next, an answer ends it.\<close>

fun try_secrets :: "lib \<Rightarrow> string \<Rightarrow> string list \<Rightarrow> (world, access_payload option) prog" where
  "try_secrets L token [] = Ret None"
| "try_secrets L token (secret # rest) =
     bnd now (\<lambda>t. case jwt_verify L secret token t of
        Some payload \<Rightarrow> Ret (access_shape payload)
      | None \<Rightarrow> try_secrets L token rest)"

definition verifyAccessToken :: "lib \<Rightarrow> env \<Rightarrow> string \<Rightarrow> (world, access_payload option) prog" where
  "verifyAccessToken L E token =
     try_secrets L token (filter (\<lambda>s. s \<noteq> []) [JWT_SECRET E, JWT_SECRET_PREVIOUS E])"

lemma run_signAccessToken [run_simps]:
  "run (signAccessToken L E p) w =
     (Inr (jwt_sign L (JWT_SECRET E) (access_claims (ap_sub p) (role_name (ap_role p)))
        (clock w div 1000) (JWT_ACCESS_EXP E)), w)"
  by (simp add: signAccessToken_def run_simps)

text \<open>The payload a presented token stands for at time \<open>t\<close>.\<close>

definition token_payload :: "lib \<Rightarrow> env \<Rightarrow> string \<Rightarrow> int \<Rightarrow> access_payload option" where
  "token_payload L E token t =
     (case (if JWT_SECRET E = [] then None else jwt_verify L (JWT_SECRET E) token t) of
        Some p \<Rightarrow> access_shape p
      | None \<Rightarrow>
          (case (if JWT_SECRET_PREVIOUS E = [] then None else jwt_verify L (JWT_SECRET_PREVIOUS E) token t) of
             Some p \<Rightarrow> access_shape p
           | None \<Rightarrow> None))"

lemma run_verifyAccessToken [run_simps]:
  "run (verifyAccessToken L E token) w = (Inr (token_payload L E token (clock w)), w)"
  by (simp add: verifyAccessToken_def token_payload_def run_simps split: option.split)

lemma access_shape_claims [simp]:
  "access_shape (JObj (access_claims sub (role_name r) @ rest)) = Some \<lparr>ap_sub = sub, ap_role = r\<rparr>"
  by (cases r) (simp_all add: access_shape_def access_claims_def)

lemma keeps_db_jwt [keeps]:
  "all_steps keeps_db (signAccessToken L E p)" "all_steps keeps_db (verifyAccessToken L E t)"
proof -
  show "all_steps keeps_db (signAccessToken L E p)"
    unfolding signAccessToken_def by (auto intro!: all_steps_bnd all_steps_now)
  have "all_steps keeps_db (try_secrets L t ss)" for ss
    by (induction ss) (auto intro!: all_steps_bnd all_steps_now split: option.split)
  then show "all_steps keeps_db (verifyAccessToken L E t)" by (simp add: verifyAccessToken_def)
qed

subsection \<open>Properties\<close>

text \<open>C24. Secret rotation: a token signed under one configuration is accepted under another exactly
  when its secret is the current or the previous one there and its lifetime is not over, and then it
  stands for the caller it was issued to.\<close>

theorem access_token_rotation:
  assumes "jwt_ok L" "run (signAccessToken L E p) w = (Inr tok, w')"
  shows "run (verifyAccessToken L E' tok) v =
    (Inr (if JWT_SECRET E \<noteq> [] \<and> (JWT_SECRET E = JWT_SECRET E' \<or> JWT_SECRET E = JWT_SECRET_PREVIOUS E') \<and>
             clock v div 1000 < clock w div 1000 + jwt_lifetime L (JWT_ACCESS_EXP E)
          then Some p else None), v)"
proof -
  let ?cs = "access_claims (ap_sub p) (role_name (ap_role p))"
  have tok: "tok = jwt_sign L (JWT_SECRET E) ?cs (clock w div 1000) (JWT_ACCESS_EXP E)"
    using assms(2) by (auto simp: run_signAccessToken)
  let ?live = "clock v div 1000 < clock w div 1000 + jwt_lifetime L (JWT_ACCESS_EXP E)"
  have ver: "if k = JWT_SECRET E \<and> ?live then \<exists>rest. jwt_verify L k tok (clock v) = Some (JObj (?cs @ rest))
      else jwt_verify L k tok (clock v) = None" for k
    using assms(1) unfolding jwt_ok_def tok Let_def access_claims_def by blast
  have none: "jwt_verify L k tok (clock v) = None \<longleftrightarrow> \<not> (k = JWT_SECRET E \<and> ?live)" for k
    using ver [of k] by (auto split: if_splits)
  have shape: "access_shape x = Some p" if "jwt_verify L k tok (clock v) = Some x" for k x
  proof -
    from that have "k = JWT_SECRET E \<and> ?live" using none [of k] by simp
    with ver [of k] that obtain rest where "x = JObj (?cs @ rest)" by auto
    then show ?thesis by simp
  qed
  show ?thesis
    using none [of "JWT_SECRET E'"] none [of "JWT_SECRET_PREVIOUS E'"] shape
    by (auto simp: run_verifyAccessToken token_payload_def split: option.split)
qed

lemma demo_lifetime [simp]: "jwt_lifetime demo_lib e = 900"
  by (simp add: demo_lib_def)

theorem access_token_rotation_witness:
  "\<exists>tok. fst (run (signAccessToken demo_lib demo_env \<lparr>ap_sub = ''alice'', ap_role = Admin\<rparr>) demo_world) = Inr tok \<and>
     fst (run (verifyAccessToken demo_lib (demo_env\<lparr>JWT_SECRET := ''the-next-secret-of-it'', JWT_SECRET_PREVIOUS := ''a-secret-of-sixteen''\<rparr>) tok)
       (demo_world\<lparr>clock := 600000\<rparr>)) = Inr (Some \<lparr>ap_sub = ''alice'', ap_role = Admin\<rparr>) \<and>
     fst (run (verifyAccessToken demo_lib (demo_env\<lparr>JWT_SECRET := ''the-next-secret-of-it''\<rparr>) tok)
       (demo_world\<lparr>clock := 600000\<rparr>)) = Inr None"
proof -
  obtain tok where tok: "run (signAccessToken demo_lib demo_env \<lparr>ap_sub = ''alice'', ap_role = Admin\<rparr>) demo_world = (Inr tok, demo_world)"
    by (simp add: run_signAccessToken)
  show ?thesis
    using access_token_rotation [OF _ tok, of "demo_env\<lparr>JWT_SECRET := ''the-next-secret-of-it'', JWT_SECRET_PREVIOUS := ''a-secret-of-sixteen''\<rparr>"
        "demo_world\<lparr>clock := 600000\<rparr>"]
      access_token_rotation [OF _ tok, of "demo_env\<lparr>JWT_SECRET := ''the-next-secret-of-it''\<rparr>" "demo_world\<lparr>clock := 600000\<rparr>"] tok
    by simp
qed

end
