(* ===== verification/AuditTrail.thy ===== *)
theory AuditTrail
  imports Database
begin

text \<open>
  The audit trail (\<open>src/lib/audit.ts\<close>): best-effort append and the retention purge.
\<close>

record audit_entry =
  ae_action :: string
  ae_actorId :: "string option"
  ae_targetType :: "string option"
  ae_targetId :: "string option"
  ae_metadata :: "jsval option"
  ae_ip :: "string option"

text \<open>\<open>try { await insert } catch { logger.error }\<close>\<close>

definition recordAudit :: "lib \<Rightarrow> audit_entry \<Rightarrow> (world, unit) prog" where
  "recordAudit L entry =
     try_catch
       (insert_audit L (ae_action entry) (ae_actorId entry) (ae_targetType entry) (ae_targetId entry)
          (ae_metadata entry) (ae_ip entry))
       (\<lambda>err. Ret ())"

text \<open>An entry without metadata and address.\<close>

definition audit_plain :: "string \<Rightarrow> string option \<Rightarrow> string \<Rightarrow> string \<Rightarrow> audit_entry" where
  "audit_plain action actor ttype target =
     \<lparr>ae_action = action, ae_actorId = actor, ae_targetType = Some ttype, ae_targetId = Some target,
      ae_metadata = None, ae_ip = None\<rparr>"

text \<open>\<open>days\<close> defaults to \<open>AUDIT_RETENTION_DAYS\<close>.\<close>

definition deleteOldAuditLogs :: "env \<Rightarrow> int option \<Rightarrow> (world, nat) prog" where
  "deleteOldAuditLogs E days_arg =
     (let days = default_arg (AUDIT_RETENTION_DAYS E) days_arg in
      if days \<le> 0 then Ret 0
      else
        bnd now (\<lambda>t.
        let cutoff = t - days * 86400000 in
        bnd (delete_audit (\<lambda>a. al_createdAt a < cutoff)) (\<lambda>deleted.
        Ret (length deleted))))"

text \<open>Whatever the database does, the caller goes on; nothing but the trail changes.\<close>

lemma recordAudit_never_throws: "fst (run (recordAudit L entry) w) = Inr ()"
  by (simp add: recordAudit_def run_simps split: prod.splits sum.splits)

lemma insert_audit_row_frames [simp]:
  "users (snd (insert_audit_row a w)) = users w"
  "refreshTokens (snd (insert_audit_row a w)) = refreshTokens w"
  "redis (snd (insert_audit_row a w)) = redis w" "clock (snd (insert_audit_row a w)) = clock w"
  "pg (snd (insert_audit_row a w)) = pg w" "rd (snd (insert_audit_row a w)) = rd w"
  "email_jobs (snd (insert_audit_row a w)) = email_jobs w"
  "rng (snd (insert_audit_row a w)) = rng w"
  by (auto simp: insert_audit_row_def)

definition after_audit :: "lib \<Rightarrow> audit_entry \<Rightarrow> world \<Rightarrow> world" where
  "after_audit L entry w = snd (run (recordAudit L entry) w)"

lemma run_recordAudit [run_simps]: "run (recordAudit L entry) w = (Inr (), after_audit L entry w)"
  using recordAudit_never_throws [of L entry w] by (simp add: after_audit_def prod_eq_iff)

lemma after_audit_eq:
  "after_audit L e w = (case pg w of
      Down \<Rightarrow> w
    | _ \<Rightarrow> snd (insert_audit_row \<lparr>al_id = uuid L (rng w), al_action = ae_action e,
             al_actorId = ae_actorId e, al_targetType = ae_targetType e, al_targetId = ae_targetId e,
             al_metadata = ae_metadata e, al_ip = ae_ip e, al_createdAt = clock w\<rparr>
             (w\<lparr>rng := Suc (rng w)\<rparr>)))"
proof -
  have "snd (run (try_catch p (\<lambda>err. Ret x)) w) = snd (run p w)" for p :: "(world, unit) prog" and x
    by (simp add: run_simps split: prod.splits sum.splits)
  then show ?thesis
    by (simp add: after_audit_def recordAudit_def insert_audit_def pg_call_def run_over_link
        split: link.splits)
qed

lemma after_audit_frames [simp]:
  "users (after_audit L entry w) = users w" "refreshTokens (after_audit L entry w) = refreshTokens w"
  "redis (after_audit L entry w) = redis w" "clock (after_audit L entry w) = clock w"
  "pg (after_audit L entry w) = pg w" "rd (after_audit L entry w) = rd w"
  "email_jobs (after_audit L entry w) = email_jobs w"
  by (simp_all add: after_audit_eq split: link.splits)

lemma after_audit_rng: "rng w \<le> rng (after_audit L entry w)"
  by (simp add: after_audit_eq split: link.splits)

lemma keeps_db_recordAudit [keeps]: "all_steps keeps_db (recordAudit L entry)"
  unfolding recordAudit_def by (intro all_steps_try_catch keeps) simp

lemma keeps_db_deleteOldAuditLogs [keeps]: "all_steps keeps_db (deleteOldAuditLogs E d)"
  unfolding deleteOldAuditLogs_def by (auto simp: Let_def intro!: all_steps_bnd all_steps_now keeps)

end
