(* ===== verification/Cache.thy ===== *)
theory Cache
  imports Database
begin

text \<open>
  Redis as the code uses it (\<open>src/lib/cache.ts\<close>, and the commands of
  \<open>src/plugins/rate-limit-store.ts\<close>): string values with an optional expiry on one keyspace, and
  the helpers of \<open>cache\<close>, each of them one command bounded by \<open>withDeadline\<close>. The interface the
  services rely on is the locale \<open>kv_store\<close>.
\<close>

subsection \<open>The keyspace\<close>

text \<open>An entry whose expiry has been reached is absent.\<close>

fun live_at :: "int \<Rightarrow> (string \<times> int option) option \<Rightarrow> string option" where
  "live_at t None = None"
| "live_at t (Some (v, None)) = Some v"
| "live_at t (Some (v, Some e)) = (if t < e then Some v else None)"

definition redis_look :: "world \<Rightarrow> string \<Rightarrow> string option" where
  "redis_look w k = live_at (clock w) (redis w k)"

text \<open>\<open>SET k v\<close> and \<open>SET k v EX n\<close>\<close>

definition redis_put :: "string \<Rightarrow> string \<Rightarrow> int option \<Rightarrow> world \<Rightarrow> world" where
  "redis_put k v ttl w =
     w\<lparr>redis := (redis w)(k \<mapsto> (v, map_option (\<lambda>n. clock w + 1000 * n) ttl))\<rparr>"

definition redis_drop :: "string \<Rightarrow> world \<Rightarrow> world" where
  "redis_drop k w = w\<lparr>redis := (redis w)(k := None)\<rparr>"

text \<open>A new value under the key's present expiry, as \<open>INCR\<close> writes it.\<close>

definition redis_keep_ttl :: "string \<Rightarrow> string \<Rightarrow> world \<Rightarrow> world" where
  "redis_keep_ttl k v w = w\<lparr>redis := (redis w)(k \<mapsto>
     (v, if redis_look w k = None then None else Option.bind (redis w k) snd))\<rparr>"

definition redis_INCR :: "string \<Rightarrow> world \<Rightarrow> (exn + int) \<times> world" where
  "redis_INCR k w = (case redis_look w k of
      None \<Rightarrow> (Inr 1, redis_keep_ttl k (show_int 1) w)
    | Some v \<Rightarrow> (case parse_int v of
          None \<Rightarrow> (Inl (Thrown (js_Error ''ERR value is not an integer or out of range'')), w)
        | Some n \<Rightarrow> (Inr (n + 1), redis_keep_ttl k (show_int (n + 1)) w)))"

definition redis_DECR :: "string \<Rightarrow> world \<Rightarrow> (exn + int) \<times> world" where
  "redis_DECR k w = (case redis_look w k of
      None \<Rightarrow> (Inr (-1), redis_keep_ttl k (show_int (-1)) w)
    | Some v \<Rightarrow> (case parse_int v of
          None \<Rightarrow> (Inl (Thrown (js_Error ''ERR value is not an integer or out of range'')), w)
        | Some n \<Rightarrow> (Inr (n - 1), redis_keep_ttl k (show_int (n - 1)) w)))"

text \<open>\<open>EXPIRE k n\<close>: 1 when the key exists; \<open>TTL k\<close>: -2 for no key, -1 for no expiry.\<close>

definition redis_EXPIRE :: "string \<Rightarrow> int \<Rightarrow> world \<Rightarrow> (exn + int) \<times> world" where
  "redis_EXPIRE k n w = (case redis_look w k of
      None \<Rightarrow> (Inr 0, w)
    | Some v \<Rightarrow> if n \<le> 0 then (Inr 1, redis_drop k w) else (Inr 1, redis_put k v (Some n) w))"

definition redis_TTL :: "string \<Rightarrow> world \<Rightarrow> int" where
  "redis_TTL k w = (case redis_look w k of
      None \<Rightarrow> -2
    | Some _ \<Rightarrow> (case redis w k of
          Some (_, Some t) \<Rightarrow> (t - clock w + 500) div 1000
        | _ \<Rightarrow> -1))"

subsection \<open>Bounded commands and the cache helpers\<close>

text \<open>\<open>withDeadline(work, ms)\<close> on a Redis command: the answer, or \<open>timed out after ms\<close>.\<close>

definition timeout_error :: "int \<Rightarrow> exn" where
  "timeout_error ms = Thrown (js_Error (''timed out after '' @ show_int ms @ ''ms''))"

definition bounded :: "int \<Rightarrow> (world \<Rightarrow> (exn + 'a) \<times> world) \<Rightarrow> (world, 'a) prog" where
  "bounded ms = over_link rd (timeout_error ms)"

definition REDIS_OP_TIMEOUT_MS :: int where
  "REDIS_OP_TIMEOUT_MS = 2000"

definition cache_get :: "string \<Rightarrow> (world, string option) prog" where
  "cache_get key = bounded REDIS_OP_TIMEOUT_MS (\<lambda>w. (Inr (redis_look w key), w))"

definition cache_set :: "string \<Rightarrow> string \<Rightarrow> int option \<Rightarrow> (world, unit) prog" where
  "cache_set key v ttlSeconds = bounded REDIS_OP_TIMEOUT_MS (\<lambda>w.
     case ttlSeconds of
       None \<Rightarrow> (Inr (), redis_put key v None w)
     | Some n \<Rightarrow>
         if n = 0 then (Inr (), redis_put key v None w)
         else if n < 0 then (Inl (Thrown (js_Error ''ERR invalid expire time'')), w)
         else (Inr (), redis_put key v (Some n) w))"

definition cache_del :: "string \<Rightarrow> (world, int) prog" where
  "cache_del key = bounded REDIS_OP_TIMEOUT_MS
     (\<lambda>w. (Inr (if redis_look w key = None then 0 else 1), redis_drop key w))"

definition cache_incr :: "string \<Rightarrow> (world, int) prog" where
  "cache_incr key = bounded REDIS_OP_TIMEOUT_MS (redis_INCR key)"

definition cache_expire :: "string \<Rightarrow> int \<Rightarrow> (world, int) prog" where
  "cache_expire key ttlSeconds = bounded REDIS_OP_TIMEOUT_MS (redis_EXPIRE key ttlSeconds)"

definition cache_exists :: "string \<Rightarrow> (world, bool) prog" where
  "cache_exists key = bounded REDIS_OP_TIMEOUT_MS (\<lambda>w. (Inr (redis_look w key \<noteq> None), w))"

lemmas cache_defs =
  cache_get_def cache_set_def cache_del_def cache_incr_def cache_expire_def cache_exists_def bounded_def

lemma run_cache [run_simps]:
  assumes "rd w = Up"
  shows "run (cache_get k) w = (Inr (redis_look w k), w)"
    and "0 < n \<Longrightarrow> run (cache_set k v (Some n)) w = (Inr (), redis_put k v (Some n) w)"
    and "run (cache_set k v None) w = (Inr (), redis_put k v None w)"
    and "run (cache_del k) w = (Inr (if redis_look w k = None then 0 else 1), redis_drop k w)"
    and "run (cache_incr k) w = redis_INCR k w"
    and "run (cache_expire k n) w = redis_EXPIRE k n w"
    and "run (cache_exists k) w = (Inr (redis_look w k \<noteq> None), w)"
  using assms by (simp_all add: cache_defs run_simps)

subsection \<open>Frames: Redis and the tables do not touch one another\<close>

lemma redis_frames [simp]:
  "users (redis_put k v t w) = users w" "refreshTokens (redis_put k v t w) = refreshTokens w"
  "auditLogs (redis_put k v t w) = auditLogs w" "clock (redis_put k v t w) = clock w"
  "rng (redis_put k v t w) = rng w" "pg (redis_put k v t w) = pg w" "rd (redis_put k v t w) = rd w"
  "email_jobs (redis_put k v t w) = email_jobs w" "outbox (redis_put k v t w) = outbox w"
  "users (redis_drop k w) = users w" "refreshTokens (redis_drop k w) = refreshTokens w"
  "auditLogs (redis_drop k w) = auditLogs w" "clock (redis_drop k w) = clock w"
  "rng (redis_drop k w) = rng w" "pg (redis_drop k w) = pg w" "rd (redis_drop k w) = rd w"
  "email_jobs (redis_drop k w) = email_jobs w" "outbox (redis_drop k w) = outbox w"
  "users (redis_keep_ttl k v w) = users w" "refreshTokens (redis_keep_ttl k v w) = refreshTokens w"
  "auditLogs (redis_keep_ttl k v w) = auditLogs w" "clock (redis_keep_ttl k v w) = clock w"
  "rng (redis_keep_ttl k v w) = rng w" "pg (redis_keep_ttl k v w) = pg w"
  "rd (redis_keep_ttl k v w) = rd w"
  "email_jobs (redis_keep_ttl k v w) = email_jobs w" "outbox (redis_keep_ttl k v w) = outbox w"
  by (simp_all add: redis_put_def redis_drop_def redis_keep_ttl_def)

lemma redis_look_upd [simp]:
  "redis_look (w\<lparr>users := us\<rparr>) k = redis_look w k"
  "redis_look (w\<lparr>refreshTokens := rs\<rparr>) k = redis_look w k"
  "redis_look (w\<lparr>auditLogs := as\<rparr>) k = redis_look w k"
  "redis_look (w\<lparr>rng := n\<rparr>) k = redis_look w k"
  "redis_look (w\<lparr>email_jobs := js\<rparr>) k = redis_look w k"
  "redis_look (w\<lparr>outbox := ms\<rparr>) k = redis_look w k"
  "redis_look (w\<lparr>sent := ms\<rparr>) k = redis_look w k"
  by (simp_all add: redis_look_def)

lemma redis_look_put:
  "redis_look (redis_put k v ttl w) k' =
     (if k' = k then (case ttl of None \<Rightarrow> Some v | Some n \<Rightarrow> if 0 < n then Some v else None)
      else redis_look w k')"
  by (auto simp: redis_look_def redis_put_def split: option.splits)

lemma redis_look_put_same [simp]:
  "0 < n \<Longrightarrow> redis_look (redis_put k v (Some n) w) k = Some v"
  "redis_look (redis_put k v None w) k = Some v"
  by (simp_all add: redis_look_put)

lemma redis_look_put_other [simp]: "k' \<noteq> k \<Longrightarrow> redis_look (redis_put k v ttl w) k' = redis_look w k'"
  by (simp add: redis_look_put)

lemma redis_look_drop [simp]:
  "redis_look (redis_drop k w) k' = (if k' = k then None else redis_look w k')"
  by (simp add: redis_look_def redis_drop_def)

lemma live_at_bind: "live_at t x \<noteq> None \<Longrightarrow> live_at t (Some (v, Option.bind x snd)) = Some v"
  by (induction t x rule: live_at.induct) (auto split: if_splits)

lemma live_at_mono: "0 \<le> d \<Longrightarrow> live_at (t + d) x = Some v \<Longrightarrow> live_at t x = Some v"
  by (induction t x rule: live_at.induct) (auto split: if_splits)

lemma redis_look_keep_ttl [simp]:
  "redis_look (redis_keep_ttl k v w) k' = (if k' = k then Some v else redis_look w k')"
  by (auto simp: redis_look_def redis_keep_ttl_def live_at_bind)

lemma redis_INCR_None [simp]: "redis_look w k = None \<Longrightarrow> redis_INCR k w = (Inr 1, redis_keep_ttl k (show_int 1) w)"
  by (simp add: redis_INCR_def)

lemma redis_INCR_show [simp]:
  "redis_look w k = Some (show_int n) \<Longrightarrow> redis_INCR k w = (Inr (n + 1), redis_keep_ttl k (show_int (n + 1)) w)"
  by (simp add: redis_INCR_def)

lemma redis_INCR_frames [simp]:
  "users (snd (redis_INCR k w)) = users w" "refreshTokens (snd (redis_INCR k w)) = refreshTokens w"
  "clock (snd (redis_INCR k w)) = clock w" "pg (snd (redis_INCR k w)) = pg w"
  "rd (snd (redis_INCR k w)) = rd w"
  "users (snd (redis_EXPIRE k n w)) = users w" "refreshTokens (snd (redis_EXPIRE k n w)) = refreshTokens w"
  by (auto simp: redis_INCR_def redis_EXPIRE_def split: option.splits)

lemma keeps_db_cache [keeps]:
  "all_steps keeps_db (cache_get k)" "all_steps keeps_db (cache_set k v t)"
  "all_steps keeps_db (cache_del k)" "all_steps keeps_db (cache_incr k)"
  "all_steps keeps_db (cache_expire k n)" "all_steps keeps_db (cache_exists k)"
  by (auto simp: cache_defs db_ok_cong [where w' = "redis_put _ _ _ _"]
      db_ok_cong [where w' = "redis_drop _ _"] db_ok_cong [where w' = "snd (redis_INCR _ _)"]
      db_ok_cong [where w' = "snd (redis_EXPIRE _ _ _)"]
      intro!: all_steps_over_link split: option.splits)

subsection \<open>The interface the services rely on\<close>

text \<open>
  \<open>look\<close> is what a \<open>get\<close> answers; \<open>elapse\<close> lets time pass; a ttl is in seconds, time in
  milliseconds.
\<close>

locale kv_store =
  fixes look :: "'s \<Rightarrow> 'k \<Rightarrow> string option"
    and put :: "'k \<Rightarrow> string \<Rightarrow> int option \<Rightarrow> 's \<Rightarrow> 's"
    and drop_key :: "'k \<Rightarrow> 's \<Rightarrow> 's"
    and incr :: "'k \<Rightarrow> 's \<Rightarrow> (exn + int) \<times> 's"
    and elapse :: "int \<Rightarrow> 's \<Rightarrow> 's"
  assumes look_put: "0 < n \<Longrightarrow> look (put k v (Some n) s) k' = (if k' = k then Some v else look s k')"
    and look_drop: "look (drop_key k s) k' = (if k' = k then None else look s k')"
    and incr_num: "look s k = Some (show_int i) \<Longrightarrow> incr k s = (Inr (i + 1), snd (incr k s))"
    and look_incr: "look s k = Some (show_int i) \<Longrightarrow>
          look (snd (incr k s)) k' = (if k' = k then Some (show_int (i + 1)) else look s k')"
    and look_elapse_put: "0 \<le> d \<Longrightarrow> 0 < n \<Longrightarrow>
          look (elapse d (put k v (Some n) s)) k = (if d < 1000 * n then Some v else None)"
    and look_elapse: "0 \<le> d \<Longrightarrow> look (elapse d s) k = Some v \<Longrightarrow> look s k = Some v"
begin

text \<open>A counter set to zero and bumped \<open>m\<close> times reads \<open>m\<close>.\<close>

lemma bumped_counter:
  "0 < n \<Longrightarrow> look (((\<lambda>s. snd (incr k s)) ^^ m) (put k (show_int 0) (Some n) s)) k = Some (show_int (int m))"
proof (induction m)
  case 0
  then show ?case by (simp add: look_put)
next
  case (Suc m)
  then have "look (((\<lambda>s. snd (incr k s)) ^^ m) (put k (show_int 0) (Some n) s)) k = Some (show_int (int m))"
    by simp
  from look_incr [OF this] show ?case by (simp add: add.commute)
qed

text \<open>Bumping one key leaves the others.\<close>

lemma bump_other: "look s k = Some (show_int i) \<Longrightarrow> k' \<noteq> k \<Longrightarrow> look (snd (incr k s)) k' = look s k'"
  by (simp add: look_incr)

text \<open>A value stays readable until its ttl has passed, and no longer.\<close>

lemma lifetime:
  "0 \<le> d \<Longrightarrow> 0 < n \<Longrightarrow> (look (elapse d (put k v (Some n) s)) k = Some v) = (d < 1000 * n)"
  by (simp add: look_elapse_put)

lemma absent_stays: "0 \<le> d \<Longrightarrow> look s k = None \<Longrightarrow> look (elapse d s) k = None"
  using look_elapse [of d s k] by (cases "look (elapse d s) k") auto

end

definition advance :: "int \<Rightarrow> world \<Rightarrow> world" where
  "advance d w = w\<lparr>clock := clock w + d\<rparr>"

lemma advance_frames [simp]:
  "users (advance d w) = users w" "refreshTokens (advance d w) = refreshTokens w"
  "redis (advance d w) = redis w" "pg (advance d w) = pg w" "rd (advance d w) = rd w"
  "clock (advance d w) = clock w + d" "rng (advance d w) = rng w" "smtp (advance d w) = smtp w"
  by (simp_all add: advance_def)

interpretation redis_kv: kv_store redis_look redis_put redis_drop redis_INCR advance
proof unfold_locales
  fix d :: int and w k v
  assume d: "0 \<le> d" and "redis_look (advance d w) k = Some v"
  then have "live_at (clock w + d) (redis w k) = Some v"
    by (simp add: redis_look_def advance_def)
  then show "redis_look w k = Some v"
    unfolding redis_look_def by (rule live_at_mono [OF d])
next
  fix d n :: int and w k v
  assume "0 \<le> d" "0 < n"
  then show "redis_look (advance d (redis_put k v (Some n) w)) k = (if d < 1000 * n then Some v else None)"
    by (simp add: redis_look_def redis_put_def advance_def)
next
  fix w k i
  assume look: "redis_look w k = Some (show_int i)"
  then have "redis_INCR k w = (Inr (i + 1), redis_keep_ttl k (show_int (i + 1)) w)"
    by (rule redis_INCR_show)
  then show "redis_INCR k w = (Inr (i + 1), snd (redis_INCR k w))"
    and "redis_look (snd (redis_INCR k w)) k' = (if k' = k then Some (show_int (i + 1)) else redis_look w k')"
    for k' by simp_all
qed (simp_all add: redis_look_put)

end
