(* ===== verification/LibHash.thy ===== *)
theory LibHash
  imports World
begin

text \<open>
  \<open>src/lib/hash.ts\<close>: the digest stored for opaque secrets, and the random opaque tokens
  (base64url without padding).
\<close>

definition sha256Hex :: "lib \<Rightarrow> string \<Rightarrow> string" where
  "sha256Hex L v = sha256 L v"

definition base64url_char :: "nat \<Rightarrow> char" where
  "base64url_char i = ''ABCDEFGHIJKLMNOPQRSTUVWXYZabcdefghijklmnopqrstuvwxyz0123456789-_'' ! i"

fun base64url :: "8 word list \<Rightarrow> string" where
  "base64url [] = []"
| "base64url [a] =
     [base64url_char (unat a div 4), base64url_char (unat a mod 4 * 16)]"
| "base64url [a, b] =
     [base64url_char (unat a div 4), base64url_char (unat a mod 4 * 16 + unat b div 16),
      base64url_char (unat b mod 16 * 4)]"
| "base64url (a # b # c # rest) =
     base64url_char (unat a div 4) #
     base64url_char (unat a mod 4 * 16 + unat b div 16) #
     base64url_char (unat b mod 16 * 4 + unat c div 64) #
     base64url_char (unat c mod 64) # base64url rest"

lemma length_base64url: "length (base64url bs) = (4 * length bs + 2) div 3"
  by (induction bs rule: base64url.induct) auto

text \<open>\<open>randomToken(bytes = 32)\<close>\<close>

definition randomToken :: "lib \<Rightarrow> nat \<Rightarrow> (world, string) prog" where
  "randomToken L bytes = draw (\<lambda>i. base64url (rand_bytes L i bytes))"

definition randomUUID :: "lib \<Rightarrow> (world, string) prog" where
  "randomUUID L = draw (uuid L)"

lemma run_randomToken [run_simps]:
  "run (randomToken L n) w = (Inr (base64url (rand_bytes L (rng w) n)), w\<lparr>rng := Suc (rng w)\<rparr>)"
  by (simp add: randomToken_def run_simps)

lemma run_randomUUID [run_simps]:
  "run (randomUUID L) w = (Inr (uuid L (rng w)), w\<lparr>rng := Suc (rng w)\<rparr>)"
  by (simp add: randomUUID_def run_simps)

text \<open>The default token is 43 characters long.\<close>

lemma randomToken_length:
  "rand_bytes_ok L \<Longrightarrow> length (base64url (rand_bytes L i 32)) = 43"
  by (simp add: length_base64url rand_bytes_ok_def)

end
