(* ===== verification/AuthService.thy ===== *)
theory AuthService
  imports AuditTrail Cache LibHash
begin

text \<open>
  \<open>AuthService\<close> (\<open>src/modules/auth/service.ts\<close>): users and refresh tokens. A refresh token is
  stored by its hash, belongs to the family of the login it descends from, and is marked used when
  it is rotated; presenting a used token revokes the family.
\<close>

subsection \<open>Users\<close>

definition notDeleted :: "user \<Rightarrow> bool" where
  "notDeleted u \<longleftrightarrow> u_deletedAt u = None"

text \<open>\<open>Bun.password.hash(password)\<close>\<close>

definition password_hash :: "lib \<Rightarrow> string \<Rightarrow> (world, string) prog" where
  "password_hash L password = draw (\<lambda>salt. argon2_hash L salt password)"

definition email_taken :: exn where
  "email_taken = App (ConflictError (Some ''Email already registered''))"

definition createUser :: "lib \<Rightarrow> string \<Rightarrow> string \<Rightarrow> string option \<Rightarrow> (world, user) prog" where
  "createUser L email password name =
     bnd (select_user (\<lambda>u. u_email u = email \<and> notDeleted u)) (\<lambda>existing.
     if existing \<noteq> None then Throw email_taken
     else
       bnd (password_hash L password) (\<lambda>passwordHash.
       try_catch (insert_user L email passwordHash name User None)
         (\<lambda>err. if isUniqueViolation (exn_value err) then Throw email_taken else Throw err)))"

definition findById :: "string \<Rightarrow> (world, user option) prog" where
  "findById i = select_user (\<lambda>u. u_id u = i \<and> notDeleted u)"

definition findByEmail :: "string \<Rightarrow> (world, user option) prog" where
  "findByEmail email = select_user (\<lambda>u. u_email u = email \<and> notDeleted u)"

definition updatePassword :: "lib \<Rightarrow> string \<Rightarrow> string \<Rightarrow> (world, unit) prog" where
  "updatePassword L userId password =
     bnd (password_hash L password) (\<lambda>passwordHash.
     sequ (update_users (\<lambda>u. u_id u = userId) (\<lambda>u. u\<lparr>u_passwordHash := passwordHash\<rparr>)) (Ret ()))"

definition markEmailVerified :: "string \<Rightarrow> (world, unit) prog" where
  "markEmailVerified userId =
     bnd now (\<lambda>t.
     sequ (update_users (\<lambda>u. u_id u = userId) (\<lambda>u. u\<lparr>u_emailVerifiedAt := Some t\<rparr>)) (Ret ()))"

text \<open>The module variable is set on first use; while the hash is computed, other requests go on.\<close>

definition getDummyHash :: "lib \<Rightarrow> (world, string) prog" where
  "getDummyHash L =
     bnd (atom (\<lambda>w. (Inr (dummyHash w), w))) (\<lambda>known.
     case known of
       Some h \<Rightarrow> Ret h
     | None \<Rightarrow>
         bnd (password_hash L ''invalid-credentials-placeholder'') (\<lambda>h.
         atom (\<lambda>w. (Inr h, w\<lparr>dummyHash := Some h\<rparr>))))"

definition invalid_credentials :: exn where
  "invalid_credentials = App (UnauthorizedError (Some ''Invalid credentials''))"

text \<open>The dummy verification spends the same work; its result is dropped.\<close>

definition verifyCredentials :: "lib \<Rightarrow> string \<Rightarrow> string \<Rightarrow> (world, user) prog" where
  "verifyCredentials L email password =
     bnd (select_user (\<lambda>u. u_email u = email \<and> notDeleted u)) (\<lambda>found.
     case found of
       None \<Rightarrow>
         bnd (getDummyHash L) (\<lambda>h.
         let dropped = argon2_verify L password h in Throw invalid_credentials)
     | Some u \<Rightarrow>
         if \<not> argon2_verify L password (u_passwordHash u) then Throw invalid_credentials
         else Ret u)"

subsection \<open>Refresh tokens\<close>

definition revokeAllRefreshTokens :: "string \<Rightarrow> (world, unit) prog" where
  "revokeAllRefreshTokens userId = sequ (delete_tokens (\<lambda>r. rt_userId r = userId)) (Ret ())"

definition deleteExpiredRefreshTokens :: "(world, nat) prog" where
  "deleteExpiredRefreshTokens =
     bnd now (\<lambda>t.
     bnd (delete_tokens (\<lambda>r. rt_expiresAt r < t)) (\<lambda>deleted.
     Ret (length deleted)))"

definition storeRefreshToken :: "lib \<Rightarrow> string \<Rightarrow> string \<Rightarrow> int \<Rightarrow> string \<Rightarrow> (world, unit) prog" where
  "storeRefreshToken L userId token expiresAt familyId =
     sequ (insert_token L userId (sha256Hex L token) expiresAt familyId) (Ret ())"

definition invalid_token :: exn where
  "invalid_token = App (UnauthorizedError (Some ''Invalid refresh token''))"

definition token_reuse :: exn where
  "token_reuse = App (UnauthorizedError (Some ''Refresh token reuse detected''))"

definition token_expired :: exn where
  "token_expired = App (UnauthorizedError (Some ''Invalid or expired refresh token''))"

definition reuse_entry :: "refresh_token \<Rightarrow> audit_entry" where
  "reuse_entry row = audit_plain ''security.token_reuse_detected'' (Some (rt_userId row))
     ''refresh_token_family'' (rt_familyId row)"

text \<open>The condition of the claiming UPDATE.\<close>

definition claimable :: "string \<Rightarrow> int \<Rightarrow> refresh_token \<Rightarrow> bool" where
  "claimable hash t r \<longleftrightarrow> rt_token r = hash \<and> rt_usedAt r = None \<and> t < rt_expiresAt r"

definition useRefreshToken :: "lib \<Rightarrow> string \<Rightarrow> (world, refresh_token) prog" where
  "useRefreshToken L token =
     (let hash = sha256Hex L token in
     bnd now (\<lambda>t.
     bnd (update_tokens (claimable hash t) (\<lambda>r. r\<lparr>rt_usedAt := Some t\<rparr>)) (\<lambda>claimed.
     case claimed of
       c # _ \<Rightarrow> Ret c
     | [] \<Rightarrow>
         bnd (select_token (\<lambda>r. rt_token r = hash)) (\<lambda>found.
         case found of
           None \<Rightarrow> Throw invalid_token
         | Some row \<Rightarrow>
             if rt_usedAt row \<noteq> None then
               sequ (delete_tokens (\<lambda>r. rt_familyId r = rt_familyId row))
              (sequ (recordAudit L (reuse_entry row))
               (Throw token_reuse))
             else
               sequ (delete_tokens (\<lambda>r. rt_id r = rt_id row))
               (Throw token_expired)))))"

definition revokeRefreshToken :: "lib \<Rightarrow> string \<Rightarrow> (world, unit) prog" where
  "revokeRefreshToken L token =
     bnd (select_token (\<lambda>r. rt_token r = sha256Hex L token)) (\<lambda>found.
     case found of
       None \<Rightarrow> Ret ()
     | Some row \<Rightarrow> sequ (delete_tokens (\<lambda>r. rt_familyId r = rt_familyId row)) (Ret ()))"

subsection \<open>Execution\<close>

lemma active_email_find: "(\<lambda>u. u_email u = e \<and> notDeleted u) = active_email e"
  by (simp add: fun_eq_iff active_email_def notDeleted_def)

lemma run_find [run_simps]:
  assumes "pg w = Up"
  shows "run (findById i) w = (Inr (find (\<lambda>u. u_id u = i \<and> notDeleted u) (users w)), w)"
    and "run (findByEmail e) w = (Inr (find (active_email e) (users w)), w)"
  using assms by (simp_all add: findById_def findByEmail_def active_email_find run_simps)

lemma run_password_hash [run_simps]:
  "run (password_hash L p) w = (Inr (argon2_hash L (rng w) p), w\<lparr>rng := Suc (rng w)\<rparr>)"
  by (simp add: password_hash_def run_simps)

text \<open>The row a registration inserts, and the world it leaves.\<close>

definition registered :: "lib \<Rightarrow> string \<Rightarrow> string \<Rightarrow> string option \<Rightarrow> world \<Rightarrow> user" where
  "registered L email password name w =
     new_user L email (argon2_hash L (rng w) password) name User None (w\<lparr>rng := Suc (rng w)\<rparr>)"

lemma run_createUser:
  assumes "pg w = Up"
  shows "run (createUser L email password name) w =
    (if list_ex (active_email email) (users w) then (Inl email_taken, w)
     else if \<not> user_fits (registered L email password name w)
       then (Inl (DrizzleQueryError ''22001''), w\<lparr>rng := rng w + 2\<rparr>)
     else if uuid L (Suc (rng w)) \<in> u_id ` set (users w) then (Inl email_taken, w\<lparr>rng := rng w + 2\<rparr>)
     else (Inr (registered L email password name w),
           w\<lparr>users := users w @ [registered L email password name w], rng := rng w + 2\<rparr>))"
proof (cases "find (active_email email) (users w)")
  case None
  then have "\<not> list_ex (active_email email) (users w)"
    by (auto simp: find_None_iff' list_ex_iff)
  with None assms show ?thesis
    by (auto simp: createUser_def active_email_find run_simps insert_user_row_def registered_def
        new_user_def list_ex_iff image_iff)
next
  case (Some u)
  then have "list_ex (active_email email) (users w)"
    using find_Some_set [OF Some] by (auto simp: list_ex_iff)
  with Some assms show ?thesis
    by (simp add: createUser_def active_email_find run_simps)
qed

lemma run_verifyCredentials:
  assumes "pg w = Up"
  shows "fst (run (verifyCredentials L email password) w) =
    (case find (active_email email) (users w) of
       None \<Rightarrow> Inl invalid_credentials
     | Some u \<Rightarrow> if argon2_verify L password (u_passwordHash u) then Inr u else Inl invalid_credentials)"
    and "users (snd (run (verifyCredentials L email password) w)) = users w"
    and "refreshTokens (snd (run (verifyCredentials L email password) w)) = refreshTokens w"
  using assms
  by (auto simp: verifyCredentials_def active_email_find getDummyHash_def Let_def run_simps
      split: option.splits)

lemma run_updatePassword [run_simps]:
  "pg w = Up \<Longrightarrow> run (updatePassword L i p) w =
    (Inr (), w\<lparr>rng := Suc (rng w), users := map (\<lambda>u. if u_id u = i
        then set_user (clock w) (\<lambda>u. u\<lparr>u_passwordHash := argon2_hash L (rng w) p\<rparr>) u else u) (users w)\<rparr>)"
  by (simp add: updatePassword_def run_simps)

lemma run_revokeAllRefreshTokens [run_simps]:
  "pg w = Up \<Longrightarrow> run (revokeAllRefreshTokens i) w =
    (Inr (), w\<lparr>refreshTokens := filter (\<lambda>r. rt_userId r \<noteq> i) (refreshTokens w)\<rparr>)"
  by (simp add: revokeAllRefreshTokens_def run_simps)

lemma run_markEmailVerified [run_simps]:
  "pg w = Up \<Longrightarrow> run (markEmailVerified i) w =
    (Inr (), w\<lparr>users := map (\<lambda>u. if u_id u = i
        then set_user (clock w) (\<lambda>u. u\<lparr>u_emailVerifiedAt := Some (clock w)\<rparr>) u else u) (users w)\<rparr>)"
  by (simp add: markEmailVerified_def run_simps)

subsection \<open>Rotation\<close>

definition burn_family :: "string \<Rightarrow> world \<Rightarrow> world" where
  "burn_family fam w = w\<lparr>refreshTokens := filter (\<lambda>r. rt_familyId r \<noteq> fam) (refreshTokens w)\<rparr>"

text \<open>The world after the winning claim of \<open>row\<close>.\<close>

definition claimed_row :: "world \<Rightarrow> refresh_token \<Rightarrow> refresh_token" where
  "claimed_row w row = row\<lparr>rt_usedAt := Some (clock w)\<rparr>"

definition claim :: "string \<Rightarrow> world \<Rightarrow> world" where
  "claim hash w = w\<lparr>refreshTokens :=
     map (\<lambda>r. if rt_token r = hash then claimed_row w r else r) (refreshTokens w)\<rparr>"

lemma filter_token:
  assumes "tokens_unique rs"
  shows "filter (\<lambda>r. rt_token r = h \<and> Q r) rs =
    (case find (\<lambda>r. rt_token r = h) rs of None \<Rightarrow> [] | Some r \<Rightarrow> if Q r then [r] else [])"
  using assms
proof (induction rs)
  case (Cons a rs)
  then have "tokens_unique rs" and a: "rt_token a \<notin> rt_token ` set rs"
    by (auto simp: tokens_unique_def)
  show ?case
  proof (cases "rt_token a = h")
    case True
    with a have "\<forall>r \<in> set rs. rt_token r \<noteq> h" by (metis image_eqI)
    then have "filter (\<lambda>r. rt_token r = h \<and> Q r) rs = []" by auto
    with True show ?thesis by simp
  next
    case False
    with Cons.IH \<open>tokens_unique rs\<close> show ?thesis by simp
  qed
qed simp

lemma map_claim:
  assumes "tokens_unique rs" and "find (\<lambda>r. rt_token r = h) rs = Some row" and "claimable h t row"
  shows "map (\<lambda>r. if claimable h t r then f r else r) rs = map (\<lambda>r. if rt_token r = h then f r else r) rs"
proof (rule map_cong [OF refl])
  fix r assume "r \<in> set rs"
  with assms(1) find_Some_set [OF assms(2)] have "rt_token r = h \<Longrightarrow> r = row"
    by (auto dest: tokens_unique_token)
  with assms(3) show "(if claimable h t r then f r else r) = (if rt_token r = h then f r else r)"
    by (auto simp: claimable_def)
qed

text \<open>The whole behaviour of a rotation, branch by branch.\<close>

lemma run_useRefreshToken:
  assumes up: "pg w = Up" and u: "tokens_unique (refreshTokens w)"
  shows "run (useRefreshToken L token) w =
    (case find (\<lambda>r. rt_token r = sha256Hex L token) (refreshTokens w) of
       None \<Rightarrow> (Inl invalid_token, w)
     | Some row \<Rightarrow>
         if rt_usedAt row \<noteq> None
           then (Inl token_reuse, after_audit L (reuse_entry row) (burn_family (rt_familyId row) w))
         else if clock w < rt_expiresAt row
           then (Inr (claimed_row w row), claim (sha256Hex L token) w)
         else (Inl token_expired,
               w\<lparr>refreshTokens := filter (\<lambda>r. rt_id r \<noteq> rt_id row) (refreshTokens w)\<rparr>))"
proof -
  let ?h = "sha256Hex L token"
  let ?P = "claimable ?h (clock w)"
  have filt: "filter ?P (refreshTokens w) =
      (case find (\<lambda>r. rt_token r = ?h) (refreshTokens w) of
         None \<Rightarrow> [] | Some r \<Rightarrow> if rt_usedAt r = None \<and> clock w < rt_expiresAt r then [r] else [])"
    using filter_token [OF u, of ?h "\<lambda>r. rt_usedAt r = None \<and> clock w < rt_expiresAt r"]
    by (simp add: claimable_def [abs_def])
  have same: "map (\<lambda>r. if ?P r then f r else r) (refreshTokens w) = refreshTokens w"
    if "filter ?P (refreshTokens w) = []" for f
    using that by (auto simp: filter_empty_conv intro: map_idI)
  show ?thesis
  proof (cases "find (\<lambda>r. rt_token r = ?h) (refreshTokens w)")
    case None
    with filt same up show ?thesis by (simp add: useRefreshToken_def Let_def run_simps)
  next
    case (Some row)
    show ?thesis
    proof (cases "rt_usedAt row = None \<and> clock w < rt_expiresAt row")
      case True
      with find_Some_set [OF Some] have "?P row" by (simp add: claimable_def)
      with map_claim [OF u Some this] True Some filt up show ?thesis
        by (simp add: useRefreshToken_def Let_def run_simps claim_def claimed_row_def)
    next
      case False
      then have "filter ?P (refreshTokens w) = []" using filt Some by auto
      with False Some same up show ?thesis
        by (auto simp: useRefreshToken_def Let_def run_simps burn_family_def)
    qed
  qed
qed

lemma keeps_db_auth [keeps]:
  "all_steps keeps_db (createUser L e p n)" "all_steps keeps_db (findById i)"
  "all_steps keeps_db (findByEmail e)" "all_steps keeps_db (updatePassword L i p)"
  "all_steps keeps_db (markEmailVerified i)" "all_steps keeps_db (verifyCredentials L e p)"
  "all_steps keeps_db (revokeAllRefreshTokens i)" "all_steps keeps_db deleteExpiredRefreshTokens"
  "all_steps keeps_db (storeRefreshToken L i tok ex fam)" "all_steps keeps_db (useRefreshToken L tok)"
  "all_steps keeps_db (revokeRefreshToken L tok)"
  unfolding createUser_def findById_def findByEmail_def updatePassword_def markEmailVerified_def
    verifyCredentials_def revokeAllRefreshTokens_def deleteExpiredRefreshTokens_def
    storeRefreshToken_def useRefreshToken_def revokeRefreshToken_def password_hash_def getDummyHash_def Let_def
  by (auto intro!: all_steps_intros all_steps_now all_steps_draw all_steps_atom keeps
      simp: safe_user_update_def safe_token_update_def db_ok_cong [where w' = "_\<lparr>rng := _\<rparr>"]
      db_ok_cong [where w' = "_\<lparr>dummyHash := _\<rparr>"] Let_def split: option.splits list.splits)

subsection \<open>Properties\<close>

lemma demo_sha [simp]: "sha256Hex demo_lib t = CHR ''h'' # t"
  by (simp add: sha256Hex_def demo_lib_def)

lemma demo_db_ok [simp]: "db_ok demo_world"
  by (simp add: db_ok_def users_pk_def users_email_active_unique_def tokens_unique_def tokens_fk_def active_email_def)

text \<open>C4. Presenting a refresh token has exactly four outcomes: unknown, already used (the whole
  family is deleted and the reuse audited), valid (the row, and no other, is marked used and
  returned), or expired (the row alone is deleted). The audit entry aside, nothing else changes.\<close>

theorem rotation_outcome:
  assumes "pg w = Up" and "db_ok w"
  shows "run (useRefreshToken L token) w =
    (case find (\<lambda>r. rt_token r = sha256Hex L token) (refreshTokens w) of
       None \<Rightarrow> (Inl (App (UnauthorizedError (Some ''Invalid refresh token''))), w)
     | Some row \<Rightarrow>
         if rt_usedAt row \<noteq> None
           then (Inl (App (UnauthorizedError (Some ''Refresh token reuse detected''))),
                 after_audit L (audit_plain ''security.token_reuse_detected'' (Some (rt_userId row))
                     ''refresh_token_family'' (rt_familyId row))
                   (w\<lparr>refreshTokens := filter (\<lambda>r. rt_familyId r \<noteq> rt_familyId row) (refreshTokens w)\<rparr>))
         else if clock w < rt_expiresAt row
           then (Inr (row\<lparr>rt_usedAt := Some (clock w)\<rparr>),
                 w\<lparr>refreshTokens := map (\<lambda>r. if rt_id r = rt_id row then r\<lparr>rt_usedAt := Some (clock w)\<rparr> else r)
                     (refreshTokens w)\<rparr>)
         else (Inl (App (UnauthorizedError (Some ''Invalid or expired refresh token''))),
               w\<lparr>refreshTokens := filter (\<lambda>r. rt_id r \<noteq> rt_id row) (refreshTokens w)\<rparr>))"
proof -
  have u: "tokens_unique (refreshTokens w)" using assms(2) by (simp add: db_ok_def)
  have same: "map (\<lambda>r. if rt_token r = sha256Hex L token then claimed_row w r else r) (refreshTokens w) =
      map (\<lambda>r. if rt_id r = rt_id row then r\<lparr>rt_usedAt := Some (clock w)\<rparr> else r) (refreshTokens w)"
    if "find (\<lambda>r. rt_token r = sha256Hex L token) (refreshTokens w) = Some row" for row
  proof (rule map_cong [OF refl])
    fix r assume r: "r \<in> set (refreshTokens w)"
    with find_Some_set [OF that] tokens_unique_token [OF u r, of row] tokens_unique_id [OF u r, of row]
    have "rt_token r = sha256Hex L token \<longleftrightarrow> rt_id r = rt_id row" by auto
    then show "(if rt_token r = sha256Hex L token then claimed_row w r else r) =
        (if rt_id r = rt_id row then r\<lparr>rt_usedAt := Some (clock w)\<rparr> else r)"
      by (simp add: claimed_row_def)
  qed
  show ?thesis
    unfolding run_useRefreshToken [OF assms(1) u]
    by (auto simp: burn_family_def claim_def claimed_row_def reuse_entry_def invalid_token_def
        token_reuse_def token_expired_def same split: option.split)
qed

theorem rotation_outcome_witness:
  "run (useRefreshToken demo_lib ''new'') demo_world =
     (Inr (demo_token ''new'' (Some 1000)),
      demo_world\<lparr>refreshTokens := [demo_token ''new'' (Some 1000), demo_token ''old'' (Some 10)]\<rparr>)"
  using rotation_outcome [of demo_world demo_lib "''new''"]
  by (simp add: demo_token_def [of "''new''"])

text \<open>Replaying a used refresh token ends the login it descends from: from then on every token
  of its family, presented any number of times, is refused as unknown.\<close>

theorem replay_revokes_family:
  assumes "pg w = Up" "db_ok w" "row \<in> set (refreshTokens w)" "rt_usedAt row \<noteq> None"
    "rt_token row = sha256Hex L token" "other \<in> set (refreshTokens w)"
    "rt_familyId other = rt_familyId row" "rt_token other = sha256Hex L token'"
  defines "w' \<equiv> snd (run (useRefreshToken L token) w)"
  shows "fst (run (useRefreshToken L token) w) = Inl (App (UnauthorizedError (Some ''Refresh token reuse detected''))) \<and>
    rt_familyId row \<notin> rt_familyId ` set (refreshTokens w') \<and>
    run (useRefreshToken L token') w' = (Inl (App (UnauthorizedError (Some ''Invalid refresh token''))), w')"
proof (intro conjI)
  have u: "tokens_unique (refreshTokens w)" using assms(2) by (simp add: db_ok_def)
  have found: "find (\<lambda>r. rt_token r = sha256Hex L token) (refreshTokens w) = Some row"
    using find_token [OF u assms(3)] assms(5) by simp
  have res: "run (useRefreshToken L token) w =
      (Inl token_reuse, after_audit L (reuse_entry row) (burn_family (rt_familyId row) w))"
    using found assms(4) by (simp add: run_useRefreshToken [OF assms(1) u])
  then have rs: "refreshTokens w' = filter (\<lambda>r. rt_familyId r \<noteq> rt_familyId row) (refreshTokens w)"
    and up: "pg w' = Up" using assms(1) by (simp_all add: w'_def burn_family_def)
  show "fst (run (useRefreshToken L token) w) = Inl (App (UnauthorizedError (Some ''Refresh token reuse detected'')))"
    using res by (simp add: token_reuse_def)
  show "rt_familyId row \<notin> rt_familyId ` set (refreshTokens w')" by (auto simp: rs)
  have "find (\<lambda>r. rt_token r = sha256Hex L token') (refreshTokens w') = None"
    using tokens_unique_token [OF u assms(6)] assms(7,8) by (auto simp: find_None_iff rs)
  moreover have "tokens_unique (refreshTokens w')" unfolding rs by (rule tokens_unique_filter [OF u])
  ultimately show "run (useRefreshToken L token') w' =
      (Inl (App (UnauthorizedError (Some ''Invalid refresh token''))), w')"
    using run_useRefreshToken [OF up] by (simp add: invalid_token_def)
qed

theorem replay_revokes_family_witness:
  "let w' = snd (run (useRefreshToken demo_lib ''old'') demo_world) in
   run (useRefreshToken demo_lib ''new'') w' = (Inl (App (UnauthorizedError (Some ''Invalid refresh token''))), w')"
  unfolding Let_def
  by (rule replay_revokes_family [of _ "demo_token ''old'' (Some 10)" _ _ "demo_token ''new'' None",
        THEN conjunct2, THEN conjunct2]) simp_all

text \<open>C14. Registration: an address of an active account is refused with 409, whether the look-up
  sees it or only the unique index does; otherwise the new row is the only change to the users, and
  it is an active ordinary account with the hash of the password.\<close>

theorem createUser_outcome:
  assumes "pg w = Up" "argon2_len_ok L" "length email \<le> 255" "\<forall>n. name = Some n \<longrightarrow> length n \<le> 255"
    "uuid L (Suc (rng w)) \<notin> u_id ` set (users w)"
  shows "(\<exists>u \<in> set (users w). active_email email u) \<and>
       run (createUser L email password name) w = (Inl (App (ConflictError (Some ''Email already registered''))), w)
     \<or> \<not> (\<exists>u \<in> set (users w). active_email email u) \<and>
       (\<exists>u. run (createUser L email password name) w = (Inr u, w\<lparr>users := users w @ [u], rng := rng w + 2\<rparr>) \<and>
         active_email email u \<and> u_role u = User \<and> u_name u = name \<and>
         u_passwordHash u = argon2_hash L (rng w) password \<and> u_id u \<notin> u_id ` set (users w))"
proof -
  have "user_fits (registered L email password name w)"
    using assms(2-4) by (auto simp: user_fits_def registered_def new_user_def argon2_len_ok_def split: option.split)
  then show ?thesis
    using assms(5)
    by (auto simp: run_createUser [OF assms(1)] list_ex_iff email_taken_def active_email_def registered_def
        new_user_def)
qed

text \<open>A hash of fixed length, for the length hypotheses.\<close>

theorem createUser_outcome_witness:
  "\<exists>u. run (createUser (demo_lib\<lparr>argon2_hash := \<lambda>salt p. ''hash''\<rparr>) ''bob@example.com'' ''secret-pw'' None) demo_world =
     (Inr u, demo_world\<lparr>users := users demo_world @ [u], rng := rng demo_world + 2\<rparr>) \<and> u_role u = User"
  using createUser_outcome [of demo_world "demo_lib\<lparr>argon2_hash := \<lambda>salt p. ''hash''\<rparr>" "''bob@example.com''" None "''secret-pw''"]
  by (auto simp: argon2_len_ok_def active_email_def demo_lib_def)

text \<open>C13. Credentials: right after a registration, the address with a password is accepted exactly
  when the password is the registered one, and every refusal (unknown address, soft-deleted account,
  wrong password) is the same error.\<close>

theorem credentials_roundtrip:
  assumes "pg w = Up" "argon2_ok L" "run (createUser L email password name) w = (Inr u, w')"
  shows "fst (run (verifyCredentials L email attempt) w') =
      (if attempt = password then Inr u else Inl (App (UnauthorizedError (Some ''Invalid credentials'')))) \<and>
    (list_ex (active_email other) (users w') \<or>
      fst (run (verifyCredentials L other attempt) w') = Inl (App (UnauthorizedError (Some ''Invalid credentials''))))"
proof (intro conjI)
  have new: "\<not> list_ex (active_email email) (users w)" "w' = w\<lparr>users := users w @ [u], rng := rng w + 2\<rparr>"
    "u = registered L email password name w"
    using assms(3) by (auto simp: run_createUser [OF assms(1)] split: if_splits)
  have up: "pg w' = Up" using assms(1) new(2) by simp
  have "find (active_email email) (users w) = None"
    using new(1) by (auto simp: find_None_iff list_ex_iff)
  then have found: "find (active_email email) (users w') = Some u"
    using new(2,3) by (simp add: find_append registered_def new_user_def active_email_def)
  show "fst (run (verifyCredentials L email attempt) w') =
      (if attempt = password then Inr u else Inl (App (UnauthorizedError (Some ''Invalid credentials''))))"
    using run_verifyCredentials(1) [OF up, of L email attempt] found assms(2) new(3)
    by (simp add: argon2_ok_def registered_def new_user_def invalid_credentials_def)
  show "list_ex (active_email other) (users w') \<or>
      fst (run (verifyCredentials L other attempt) w') = Inl (App (UnauthorizedError (Some ''Invalid credentials'')))"
  proof (cases "find (active_email other) (users w')")
    case None
    then show ?thesis
      using run_verifyCredentials(1) [OF up, of L other attempt] by (simp add: invalid_credentials_def)
  next
    case (Some v)
    with find_Some_set [OF Some] show ?thesis by (auto simp: list_ex_iff)
  qed
qed

definition bob_world :: world where
  "bob_world = snd (run (createUser demo_lib ''bob@example.com'' ''secret-pw'' None) demo_world)"

theorem credentials_roundtrip_witness:
  "\<exists>u. fst (run (verifyCredentials demo_lib ''bob@example.com'' ''secret-pw'') bob_world) = Inr u"
proof -
  obtain u where "run (createUser demo_lib ''bob@example.com'' ''secret-pw'' None) demo_world = (Inr u, bob_world)"
    by (auto simp: bob_world_def run_createUser active_email_def user_fits_def registered_def new_user_def demo_lib_def)
  from credentials_roundtrip [OF _ _ this, of "''secret-pw''"] show ?thesis by simp
qed

end
