(* ===== verification/Guards.thy ===== *)
theory Guards
  imports Jwt AuthService
begin

text \<open>
  The guard macros of \<open>src/plugins/auth.ts\<close>. A guard is a program that either answers the request
  itself, with a status and a body, or lets it pass with what it adds to the context.
\<close>

record error_body =
  eb_error :: string
  eb_message :: string

definition UNAUTHORIZED :: error_body where
  "UNAUTHORIZED = \<lparr>eb_error = ''UNAUTHORIZED'', eb_message = ''Authentication required''\<rparr>"

definition FORBIDDEN :: error_body where
  "FORBIDDEN = \<lparr>eb_error = ''FORBIDDEN'', eb_message = ''Insufficient permissions''\<rparr>"

definition EMAIL_NOT_VERIFIED :: error_body where
  "EMAIL_NOT_VERIFIED = \<lparr>eb_error = ''EMAIL_NOT_VERIFIED'', eb_message = ''Email verification required''\<rparr>"

datatype 'a verdict = Status nat error_body | Pass 'a

definition resolveUser :: "lib \<Rightarrow> env \<Rightarrow> string option \<Rightarrow> (world, access_payload option) prog" where
  "resolveUser L E bearer =
     (if \<not> truthy_str bearer then Ret None else verifyAccessToken L E (the bearer))"

text \<open>A fresh look at the row.\<close>

definition isEmailVerified :: "string \<Rightarrow> (world, bool) prog" where
  "isEmailVerified userId =
     bnd (select_user (\<lambda>u. u_id u = userId \<and> u_deletedAt u = None)) (\<lambda>row.
     Ret (case row of None \<Rightarrow> False | Some u \<Rightarrow> u_emailVerifiedAt u \<noteq> None))"

definition passesVerificationGate :: "env \<Rightarrow> string \<Rightarrow> (world, bool) prog" where
  "passesVerificationGate E userId =
     (if \<not> REQUIRE_VERIFIED_EMAIL E then Ret True else isEmailVerified userId)"

datatype authed_mode = AuthedTrue | AllowUnverified

definition isAuthed :: "lib \<Rightarrow> env \<Rightarrow> authed_mode \<Rightarrow> string option \<Rightarrow> (world, access_payload verdict) prog" where
  "isAuthed L E mode bearer =
     bnd (resolveUser L E bearer) (\<lambda>found.
     case found of
       None \<Rightarrow> Ret (Status 401 UNAUTHORIZED)
     | Some user \<Rightarrow>
         if mode \<noteq> AllowUnverified then
           bnd (passesVerificationGate E (ap_sub user)) (\<lambda>ok.
           if \<not> ok then Ret (Status 403 EMAIL_NOT_VERIFIED) else Ret (Pass user))
         else Ret (Pass user))"

definition hasRole :: "lib \<Rightarrow> env \<Rightarrow> role \<Rightarrow> string option \<Rightarrow> (world, access_payload verdict) prog" where
  "hasRole L E role bearer =
     bnd (resolveUser L E bearer) (\<lambda>found.
     case found of
       None \<Rightarrow> Ret (Status 401 UNAUTHORIZED)
     | Some user \<Rightarrow>
         bnd (passesVerificationGate E (ap_sub user)) (\<lambda>ok.
         if \<not> ok then Ret (Status 403 EMAIL_NOT_VERIFIED)
         else if ap_role user \<noteq> role then Ret (Status 403 FORBIDDEN)
         else Ret (Pass user)))"

text \<open>
  \<open>action.split(":")\<close> destructured: an element that is not there is \<open>undefined\<close>, which a
  template literal spells out.
\<close>

definition action_part :: "nat \<Rightarrow> string \<Rightarrow> string" where
  "action_part i action = (let ps = split_on (CHR '':'') action in if i < length ps then ps ! i else ''undefined'')"

definition can :: "lib \<Rightarrow> env \<Rightarrow> string \<Rightarrow> string option \<Rightarrow> string option \<Rightarrow> (string \<Rightarrow> string option) \<Rightarrow>
    (world, (access_payload \<times> scope) verdict) prog" where
  "can L E action ownParam bearer params =
     bnd (resolveUser L E bearer) (\<lambda>found.
     case found of
       None \<Rightarrow> Ret (Status 401 UNAUTHORIZED)
     | Some user \<Rightarrow>
         bnd (passesVerificationGate E (ap_sub user)) (\<lambda>ok.
         if \<not> ok then Ret (Status 403 EMAIL_NOT_VERIFIED)
         else
           (case resolveScope (ap_role user) (action_part 0 action) (action_part 1 action) of
              None \<Rightarrow> Ret (Status 403 FORBIDDEN)
            | Some scope \<Rightarrow>
                if scope = Own \<and> truthy_str ownParam \<and> Some (ap_sub user) \<noteq> params (the ownParam)
                then Ret (Status 403 FORBIDDEN)
                else Ret (Pass (user, scope)))))"

definition verifiedEmail :: "lib \<Rightarrow> env \<Rightarrow> string option \<Rightarrow> (world, access_payload verdict) prog" where
  "verifiedEmail L E bearer =
     bnd (resolveUser L E bearer) (\<lambda>found.
     case found of
       None \<Rightarrow> Ret (Status 401 UNAUTHORIZED)
     | Some user \<Rightarrow>
         bnd (isEmailVerified (ap_sub user)) (\<lambda>ok.
         if \<not> ok then Ret (Status 403 EMAIL_NOT_VERIFIED) else Ret (Pass user)))"

subsection \<open>Execution\<close>

text \<open>The caller a bearer token stands for, and the state of the caller's account.\<close>

definition caller :: "lib \<Rightarrow> env \<Rightarrow> string option \<Rightarrow> int \<Rightarrow> access_payload option" where
  "caller L E bearer t = (if truthy_str bearer then token_payload L E (the bearer) t else None)"

definition email_verified :: "string \<Rightarrow> world \<Rightarrow> bool" where
  "email_verified userId w \<longleftrightarrow>
     (case find (\<lambda>u. u_id u = userId \<and> u_deletedAt u = None) (users w) of
        None \<Rightarrow> False | Some u \<Rightarrow> u_emailVerifiedAt u \<noteq> None)"

definition gate_open :: "env \<Rightarrow> string \<Rightarrow> world \<Rightarrow> bool" where
  "gate_open E userId w \<longleftrightarrow> \<not> REQUIRE_VERIFIED_EMAIL E \<or> email_verified userId w"

lemma run_resolveUser [run_simps]: "run (resolveUser L E b) w = (Inr (caller L E b (clock w)), w)"
  by (simp add: resolveUser_def caller_def run_simps)

lemma run_isEmailVerified [run_simps]:
  "pg w = Up \<Longrightarrow> run (isEmailVerified i) w = (Inr (email_verified i w), w)"
  by (simp add: isEmailVerified_def email_verified_def run_simps)

lemma run_passesVerificationGate [run_simps]:
  "pg w = Up \<Longrightarrow> run (passesVerificationGate E i) w = (Inr (gate_open E i w), w)"
  by (simp add: passesVerificationGate_def gate_open_def run_simps)

lemma run_isAuthed:
  "pg w = Up \<Longrightarrow> run (isAuthed L E mode b) w =
    (Inr (case caller L E b (clock w) of
            None \<Rightarrow> Status 401 UNAUTHORIZED
          | Some p \<Rightarrow> if mode = AllowUnverified \<or> gate_open E (ap_sub p) w then Pass p
                      else Status 403 EMAIL_NOT_VERIFIED), w)"
  by (auto simp: isAuthed_def run_simps split: option.split)

lemma run_hasRole:
  "pg w = Up \<Longrightarrow> run (hasRole L E r b) w =
    (Inr (case caller L E b (clock w) of
            None \<Rightarrow> Status 401 UNAUTHORIZED
          | Some p \<Rightarrow> if \<not> gate_open E (ap_sub p) w then Status 403 EMAIL_NOT_VERIFIED
                      else if ap_role p = r then Pass p else Status 403 FORBIDDEN), w)"
  by (auto simp: hasRole_def run_simps split: option.split)

lemma run_can:
  "pg w = Up \<Longrightarrow> run (can L E action own b params) w =
    (Inr (case caller L E b (clock w) of
            None \<Rightarrow> Status 401 UNAUTHORIZED
          | Some p \<Rightarrow> if \<not> gate_open E (ap_sub p) w then Status 403 EMAIL_NOT_VERIFIED
              else (case resolveScope (ap_role p) (action_part 0 action) (action_part 1 action) of
                  None \<Rightarrow> Status 403 FORBIDDEN
                | Some sc \<Rightarrow> if sc = Own \<and> truthy_str own \<and> Some (ap_sub p) \<noteq> params (the own)
                            then Status 403 FORBIDDEN else Pass (p, sc))), w)"
  by (auto simp: can_def run_simps split: option.split)

lemma run_verifiedEmail:
  "pg w = Up \<Longrightarrow> run (verifiedEmail L E b) w =
    (Inr (case caller L E b (clock w) of
            None \<Rightarrow> Status 401 UNAUTHORIZED
          | Some p \<Rightarrow> if email_verified (ap_sub p) w then Pass p else Status 403 EMAIL_NOT_VERIFIED), w)"
  by (auto simp: verifiedEmail_def run_simps split: option.split)

lemma keeps_db_guards [keeps]:
  "all_steps keeps_db (isAuthed L E m b)" "all_steps keeps_db (hasRole L E r b)"
  "all_steps keeps_db (can L E a own b ps)" "all_steps keeps_db (verifiedEmail L E b)"
  unfolding isAuthed_def hasRole_def can_def verifiedEmail_def resolveUser_def isEmailVerified_def
    passesVerificationGate_def
  by (auto intro!: all_steps_intros keeps split: option.split)

subsection \<open>Properties\<close>

text \<open>
  The behaviour matrix of the plugin's documentation: authentication first (401), then the verified
  address where the guard asks for it (403), then the authorization (403).
\<close>

definition decide :: "access_payload option \<Rightarrow> (access_payload \<Rightarrow> bool) \<Rightarrow> (access_payload \<Rightarrow> 'a option) \<Rightarrow> 'a verdict" where
  "decide authn verified authz =
     (case authn of
        None \<Rightarrow> Status 401 UNAUTHORIZED
      | Some p \<Rightarrow> if \<not> verified p then Status 403 EMAIL_NOT_VERIFIED
          else (case authz p of None \<Rightarrow> Status 403 FORBIDDEN | Some x \<Rightarrow> Pass x))"

text \<open>The guards implement the documented matrix: with the flag off a verified address is asked
  for by \<open>verifiedEmail\<close> only, with the flag on by every guard but the exempt mode of \<open>isAuthed\<close>; no
  guard changes anything.\<close>

theorem guards_implement_matrix:
  fixes E :: env and L :: lib and w :: world and bearer :: "string option"
  assumes "pg w = Up"
  defines "flag \<equiv> REQUIRE_VERIFIED_EMAIL E"
    and "verified \<equiv> (\<lambda>p. email_verified (ap_sub p) w)" and "who \<equiv> caller L E bearer (clock w)"
  shows "run (isAuthed L E AuthedTrue bearer) w = (Inr (decide who (\<lambda>p. flag \<longrightarrow> verified p) Some), w) \<and>
    run (isAuthed L E AllowUnverified bearer) w = (Inr (decide who (\<lambda>p. True) Some), w) \<and>
    run (hasRole L E r bearer) w =
      (Inr (decide who (\<lambda>p. flag \<longrightarrow> verified p) (\<lambda>p. if ap_role p = r then Some p else None)), w) \<and>
    run (verifiedEmail L E bearer) w = (Inr (decide who verified Some), w)"
  using assms(1)
  by (simp add: run_isAuthed run_hasRole run_verifiedEmail decide_def gate_open_def flag_def verified_def
      who_def split: option.split)

text \<open>The \<open>can\<close> guard with an owner parameter lets an ordinary user pass only on the actions
  granted, with scope own, and only to the resource whose parameter is the user's own id; an admin
  passes with scope all. Every caller who passes carries a valid token.\<close>

theorem can_confines_users:
  assumes "pg w = Up" "fst (run (can L E action (Some param) bearer params) w) = Inr (Pass (p, scope))" "param \<noteq> []"
  shows "caller L E bearer (clock w) = Some p \<and>
    (ap_role p = Admin \<and> scope = All \<or>
     ap_role p = User \<and> scope = Own \<and> params param = Some (ap_sub p) \<and>
       action_part 0 action @ '':'' @ action_part 1 action \<in> {''user:read'', ''user:update'', ''user:delete''})"
proof -
  obtain q where q: "caller L E bearer (clock w) = Some q"
    using assms(2) by (cases "caller L E bearer (clock w)") (simp_all add: run_can [OF assms(1)])
  show ?thesis
    using assms(2,3) q
    by (cases "ap_role q")
       (auto simp: run_can [OF assms(1)] resolveScope_User truthy_str_iff split: if_splits option.splits)
qed

definition demo_bearer :: "string" where
  "demo_bearer = demo_jwt_sign ''a-secret-of-sixteen'' (access_claims ''alice'' ''user'') 0 ''15m''"

lemma demo_caller: "caller demo_lib demo_env (Some demo_bearer) 1000 = Some \<lparr>ap_sub = ''alice'', ap_role = User\<rparr>"
  by code_simp

theorem guards_implement_matrix_witness:
  "run (verifiedEmail demo_lib demo_env (Some demo_bearer)) demo_world = (Inr (Status 403 EMAIL_NOT_VERIFIED), demo_world)"
  using guards_implement_matrix [of demo_world demo_lib demo_env "Some demo_bearer" User]
  by (simp add: demo_caller decide_def email_verified_def)

theorem can_confines_users_witness:
  "fst (run (can demo_lib demo_env ''user:update'' (Some ''id'') (Some demo_bearer) [''id'' \<mapsto> ''alice'']) demo_world) =
     Inr (Pass (\<lparr>ap_sub = ''alice'', ap_role = User\<rparr>, Own)) \<and>
   action_part 0 ''user:update'' @ '':'' @ action_part 1 ''user:update'' \<in> {''user:read'', ''user:update'', ''user:delete''}"
proof -
  have parts: "action_part 0 ''user:update'' = ''user''" "action_part 1 ''user:update'' = ''update''"
    "action_part (Suc 0) ''user:update'' = ''update''" by code_simp+
  have "fst (run (can demo_lib demo_env ''user:update'' (Some ''id'') (Some demo_bearer) [''id'' \<mapsto> ''alice'']) demo_world) =
     Inr (Pass (\<lparr>ap_sub = ''alice'', ap_role = User\<rparr>, Own))"
    by (simp add: run_can demo_caller gate_open_def parts resolveScope_User)
  with can_confines_users [OF _ this] show ?thesis by (simp add: parts)
qed

end
