(* ===== verification/RequestInfo.thy ===== *)
theory RequestInfo
  imports World
begin

text \<open>
  What the code reads off a request: the client address (\<open>src/lib/ip.ts\<close>), the origin check of the
  cookie transport (\<open>src/lib/origin.ts\<close>), the CORS origins (\<open>src/plugins/cors.ts\<close>) and the
  security headers every response gets (\<open>src/plugins/security-headers.ts\<close>).
\<close>

text \<open>
  \<open>rq_header\<close> is \<open>headers.get\<close> by lower-case name; \<open>rq_address\<close> is
  \<open>server?.requestIP?.(request)?.address\<close>.
\<close>

record request =
  rq_header :: "string \<Rightarrow> string option"
  rq_address :: "string option"

text \<open>\<open>s || d\<close>\<close>

definition or_else :: "string \<Rightarrow> string \<Rightarrow> string" where
  "or_else s d = (if s = [] then d else s)"

definition clientIp :: "env \<Rightarrow> request \<Rightarrow> string" where
  "clientIp E req =
     (let direct = default_arg ''unknown'' (rq_address req) in
      if TRUST_PROXY E then
        (case rq_header req ''x-forwarded-for'' of
           None \<Rightarrow> direct
         | Some xff \<Rightarrow>
             if xff = [] then direct
             else (case split_on (CHR '','') xff of
                     [] \<Rightarrow> ''unknown''
                   | hop # _ \<Rightarrow> or_else (trim hop) ''unknown''))
      else direct)"

definition assertTrustedOrigin :: "env \<Rightarrow> request \<Rightarrow> exn + unit" where
  "assertTrustedOrigin E req =
     (if CORS_ORIGIN E = ''*'' then Inr ()
      else (case rq_header req ''origin'' of
              None \<Rightarrow> Inr ()
            | Some origin \<Rightarrow>
                if origin = [] then Inr ()
                else if origin \<notin> set (map trim (split_on (CHR '','') (CORS_ORIGIN E)))
                  then Inl (App (ForbiddenError (Some ''Origin not allowed'')))
                else Inr ()))"

text \<open>The \<open>origin\<close> option of the CORS plugin: \<open>None\<close> is \<open>true\<close> (any origin).\<close>

definition corsOrigin :: "env \<Rightarrow> string list option" where
  "corsOrigin E = (if CORS_ORIGIN E = ''*'' then None else Some (split_on (CHR '','') (CORS_ORIGIN E)))"

definition securityHeaders :: "env \<Rightarrow> (string \<times> string) list" where
  "securityHeaders E =
     [(''x-content-type-options'', ''nosniff''),
      (''x-frame-options'', ''DENY''),
      (''referrer-policy'', ''no-referrer''),
      (''x-dns-prefetch-control'', ''off''),
      (''cross-origin-resource-policy'', ''same-origin'')] @
     (if isProduction E
      then [(''strict-transport-security'', ''max-age=31536000; includeSubDomains'')] else [])"

lemma clientIp_direct: "\<not> TRUST_PROXY E \<Longrightarrow> clientIp E req = default_arg ''unknown'' (rq_address req)"
  by (simp add: clientIp_def Let_def)

end
