(* ===== verification/UserModule.thy ===== *)
theory UserModule
  imports Guards RequestInfo "HOL-Library.Multiset" "HOL-Library.Char_ord" "HOL-Library.List_Lexorder" "HOL-Library.Product_Lexorder"
begin

text \<open>
  The user resource: sanitized text fields (\<open>src/lib/sanitize.ts\<close>), the public shape of a user
  (\<open>src/lib/user-public.ts\<close>), \<open>UserService\<close> (\<open>src/modules/user/service.ts\<close>) and its routes
  (\<open>src/modules/user/index.ts\<close>) behind the \<open>can\<close> guard.
\<close>

subsection \<open>Sanitized strings\<close>

definition sanitizeText :: "lib \<Rightarrow> string \<Rightarrow> string" where
  "sanitizeText L input = trim (sanitize_html L input)"

definition RAW_MAX_LENGTH :: nat where "RAW_MAX_LENGTH = 64 * 1024"

text \<open>Refused by the schema, rejected while decoding, or the value the handler sees.\<close>

datatype decoded = SchemaInvalid | Rejected app_error | Clean string

definition sanitizedString :: "lib \<Rightarrow> nat option \<Rightarrow> nat option \<Rightarrow> string \<Rightarrow> decoded" where
  "sanitizedString L minLength maxLength value =
     (if length value > RAW_MAX_LENGTH then SchemaInvalid
      else let clean = sanitizeText L value in
        if minLength \<noteq> None \<and> length clean < the minLength
        then Rejected (BadRequestError (Some (''Value must be at least '' @ show_nat (the minLength) @ '' character(s)'')))
        else if maxLength \<noteq> None \<and> length clean > the maxLength
        then Rejected (BadRequestError (Some (''Value must be at most '' @ show_nat (the maxLength) @ '' character(s)'')))
        else Clean clean)"

subsection \<open>The public shape\<close>

record public_user =
  pu_id :: string
  pu_email :: string
  pu_name :: "string option"
  pu_role :: role
  pu_emailVerified :: bool
  pu_totpEnabled :: bool
  pu_createdAt :: int

definition toPublicUser :: "user \<Rightarrow> public_user" where
  "toPublicUser u = \<lparr>pu_id = u_id u, pu_email = u_email u, pu_name = u_name u, pu_role = u_role u,
     pu_emailVerified = (u_emailVerifiedAt u \<noteq> None), pu_totpEnabled = (u_totpEnabledAt u \<noteq> None),
     pu_createdAt = u_createdAt u\<rparr>"

text \<open>The columns selected for it, and all that it shows: two rows that agree on them are shown alike.\<close>

record public_input =
  pi_id :: string
  pi_email :: string
  pi_name :: "string option"
  pi_role :: role
  pi_emailVerifiedAt :: "int option"
  pi_totpEnabledAt :: "int option"
  pi_createdAt :: int

definition publicColumns :: "user \<Rightarrow> public_input" where
  "publicColumns u = \<lparr>pi_id = u_id u, pi_email = u_email u, pi_name = u_name u, pi_role = u_role u,
     pi_emailVerifiedAt = u_emailVerifiedAt u, pi_totpEnabledAt = u_totpEnabledAt u, pi_createdAt = u_createdAt u\<rparr>"

lemma toPublicUser_columns: "publicColumns u = publicColumns v \<Longrightarrow> toPublicUser u = toPublicUser v"
  by (simp add: publicColumns_def toPublicUser_def)

subsection \<open>UserService\<close>

text \<open>
  \<open>orderBy(desc(createdAt), id).limit(l).offset(o)\<close>. Postgres comes upon the rows in an order of its
  own, different from one statement to the next, and sorts them then. The two numbers reach it as the
  texts of \<open>bigint\<close> parameters: a fraction is no such text (SQLSTATE 22P02) and a number beyond 63 bits
  is out of range (22003). No negative number passes the schema.
\<close>

definition page_order :: "user \<Rightarrow> int \<times> string" where
  "page_order u = (- u_createdAt u, u_id u)"

definition bigint_param :: "rat \<Rightarrow> exn + nat" where
  "bigint_param x =
     (if x \<noteq> of_int \<lfloor>x\<rfloor> then Inl (DrizzleQueryError ''22P02'')
      else if \<lfloor>x\<rfloor> < 0 \<or> 2 ^ 63 \<le> \<lfloor>x\<rfloor> then Inl (DrizzleQueryError ''22003'')
      else Inr (nat \<lfloor>x\<rfloor>))"

definition scanned :: "lib \<Rightarrow> int \<Rightarrow> rat \<Rightarrow> user list \<Rightarrow> user list" where
  "scanned L t offset us = sort_key (\<lambda>u. row_place L t offset (u_id u)) us"

definition select_page :: "lib \<Rightarrow> (user \<Rightarrow> bool) \<Rightarrow> rat \<Rightarrow> rat \<Rightarrow> (world, user list) prog" where
  "select_page L P limit offset =
     pg_call (\<lambda>w. (case bigint_param limit of Inl e \<Rightarrow> Inl e | Inr l \<Rightarrow>
       (case bigint_param offset of Inl e \<Rightarrow> Inl e | Inr k \<Rightarrow>
        Inr (take l (drop k (sort_key page_order (scanned L (clock w) offset (filter P (users w))))))), w))"

definition user_list :: "lib \<Rightarrow> rat option \<Rightarrow> rat option \<Rightarrow> string option \<Rightarrow> (world, public_user list) prog" where
  "user_list L limit offset ownerId =
     bnd (select_page L (if truthy_str ownerId then (\<lambda>u. u_id u = the ownerId \<and> notDeleted u) else notDeleted)
       (default_arg 20 limit) (default_arg 0 offset)) (\<lambda>rows.
     Ret (map toPublicUser rows))"

definition user_not_found :: exn where
  "user_not_found = App (NotFoundError (Some ''User not found''))"

definition user_getById :: "string \<Rightarrow> (world, public_user) prog" where
  "user_getById i =
     bnd (select_user (\<lambda>u. u_id u = i \<and> notDeleted u)) (\<lambda>found.
     case found of None \<Rightarrow> Throw user_not_found | Some u \<Rightarrow> Ret (toPublicUser u))"

record update_body =
  ub_name :: "string option"
  ub_role :: "role option"

text \<open>\<open>set(data)\<close>: the columns \<open>data\<close> has.\<close>

definition set_fields :: "update_body \<Rightarrow> user \<Rightarrow> user" where
  "set_fields d u = u\<lparr>u_name := (case ub_name d of None \<Rightarrow> u_name u | Some n \<Rightarrow> Some n),
                      u_role := default_arg (u_role u) (ub_role d)\<rparr>"

definition user_update :: "string \<Rightarrow> update_body \<Rightarrow> (world, public_user) prog" where
  "user_update i data =
     (if ub_name data = None \<and> ub_role data = None then Throw (App (BadRequestError (Some ''No fields to update'')))
      else
        bnd (update_users (\<lambda>u. u_id u = i \<and> notDeleted u) (set_fields data)) (\<lambda>rows.
        case rows of [] \<Rightarrow> Throw user_not_found | u # _ \<Rightarrow> Ret (toPublicUser u)))"

definition user_remove :: "string \<Rightarrow> (world, unit) prog" where
  "user_remove i =
     bnd now (\<lambda>t.
     bnd (update_users (\<lambda>u. u_id u = i \<and> notDeleted u) (\<lambda>u. u\<lparr>u_deletedAt := Some t\<rparr>)) (\<lambda>rows.
     case rows of
       [] \<Rightarrow> Throw user_not_found
     | _ # _ \<Rightarrow> revokeAllRefreshTokens i))"

subsection \<open>Routes\<close>

text \<open>A handler behind a guard: a guard that answers ends the request.\<close>

definition guarded :: "(world, 'a verdict) prog \<Rightarrow> ('a \<Rightarrow> (world, 'b) prog) \<Rightarrow> (world, 'b verdict) prog" where
  "guarded guard handler =
     bnd guard (\<lambda>v. case v of
        Status st body \<Rightarrow> Ret (Status st body)
      | Pass ctx \<Rightarrow> bnd (handler ctx) (\<lambda>r. Ret (Pass r)))"

definition id_param :: "string \<Rightarrow> string \<Rightarrow> string option" where
  "id_param i name = (if name = ''id'' then Some i else None)"

definition get_users :: "lib \<Rightarrow> env \<Rightarrow> string option \<Rightarrow> rat option \<Rightarrow> rat option \<Rightarrow>
    (world, public_user list verdict) prog" where
  "get_users L E bearer limit offset =
     guarded (can L E ''user:read'' None bearer (\<lambda>_. None)) (\<lambda>(user, scope).
       if scope = All then user_list L limit offset None
       else user_list L limit offset (Some (ap_sub user)))"

definition get_user :: "lib \<Rightarrow> env \<Rightarrow> string option \<Rightarrow> string \<Rightarrow> (world, public_user verdict) prog" where
  "get_user L E bearer i =
     guarded (can L E ''user:read'' (Some ''id'') bearer (id_param i)) (\<lambda>_. user_getById i)"

definition patch_user :: "lib \<Rightarrow> env \<Rightarrow> string option \<Rightarrow> request \<Rightarrow> string \<Rightarrow> update_body \<Rightarrow>
    (world, public_user verdict) prog" where
  "patch_user L E bearer req i body =
     guarded (can L E ''user:update'' (Some ''id'') bearer (id_param i)) (\<lambda>(user, scope).
       if scope \<noteq> All \<and> ub_role body \<noteq> None
       then Throw (App (ForbiddenError (Some ''Only admins can change roles'')))
       else
         bnd (user_update i body) (\<lambda>updated.
         case ub_role body of
           None \<Rightarrow> Ret updated
         | Some r \<Rightarrow>
             sequ (recordAudit L
               \<lparr>ae_action = ''user.role_changed'', ae_actorId = Some (ap_sub user),
                ae_targetType = Some ''user'', ae_targetId = Some i,
                ae_metadata = Some (JObj [(''role'', JStr (role_name r))]), ae_ip = Some (clientIp E req)\<rparr>)
             (Ret updated)))"

definition delete_user :: "lib \<Rightarrow> env \<Rightarrow> string option \<Rightarrow> request \<Rightarrow> string \<Rightarrow> (world, unit verdict) prog" where
  "delete_user L E bearer req i =
     guarded (can L E ''user:delete'' (Some ''id'') bearer (id_param i)) (\<lambda>(user, scope).
       bnd (user_remove i) (\<lambda>result.
       sequ (recordAudit L
         \<lparr>ae_action = ''user.deleted'', ae_actorId = Some (ap_sub user),
          ae_targetType = Some ''user'', ae_targetId = Some i, ae_metadata = None,
          ae_ip = Some (clientIp E req)\<rparr>)
       (Ret result)))"

subsection \<open>Execution\<close>

lemma run_guarded [run_simps]:
  "run (guarded g h) w = (case run g w of (r, w') \<Rightarrow> (case r of
      Inl e \<Rightarrow> (Inl e, w')
    | Inr (Status st b) \<Rightarrow> (Inr (Status st b), w')
    | Inr (Pass c) \<Rightarrow> (case run (h c) w' of (r', w'') \<Rightarrow> (map_sum id Pass r', w''))))"
  by (auto simp: guarded_def run_simps split: prod.split sum.split verdict.split)

lemma filter_pk:
  assumes "users_pk us"
  shows "filter (\<lambda>u. u_id u = i \<and> Q u) us =
    (case find (\<lambda>u. u_id u = i \<and> Q u) us of None \<Rightarrow> [] | Some u \<Rightarrow> [u])"
  using assms
proof (induction us)
  case (Cons a us)
  then have pk: "users_pk us" and a: "u_id a \<notin> u_id ` set us" by (auto simp: users_pk_def)
  show ?case
  proof (cases "u_id a = i \<and> Q a")
    case True
    with a have "filter (\<lambda>u. u_id u = i \<and> Q u) us = []"
      by (auto simp: filter_empty_conv image_iff)
    with True show ?thesis by simp
  next
    case False
    with Cons.IH [OF pk] show ?thesis by auto
  qed
qed simp

text \<open>The rows after a change of the active row \<open>i\<close>.\<close>

definition change_active :: "string \<Rightarrow> (user \<Rightarrow> user) \<Rightarrow> world \<Rightarrow> user list" where
  "change_active i f w =
     map (\<lambda>u. if u_id u = i \<and> notDeleted u then set_user (clock w) f u else u) (users w)"

lemma run_user_update:
  assumes "pg w = Up" "users_pk (users w)"
  shows "run (user_update i d) w =
    (if ub_name d = None \<and> ub_role d = None then (Inl (App (BadRequestError (Some ''No fields to update''))), w)
     else (case find (\<lambda>u. u_id u = i \<and> notDeleted u) (users w) of
         None \<Rightarrow> (Inl user_not_found, w)
       | Some u \<Rightarrow> (Inr (toPublicUser (set_user (clock w) (set_fields d) u)),
                    w\<lparr>users := change_active i (set_fields d) w\<rparr>)))"
proof -
  have same: "change_active i f w = users w" if "find (\<lambda>u. u_id u = i \<and> notDeleted u) (users w) = None" for f
    using that by (auto simp: change_active_def find_None_iff intro!: map_idI)
  show ?thesis
  proof (cases "find (\<lambda>u. u_id u = i \<and> notDeleted u) (users w)")
    case None
    with assms same [OF None, of "set_fields d"] show ?thesis
      by (simp add: user_update_def run_simps filter_pk change_active_def)
  next
    case (Some u)
    with assms show ?thesis
      by (simp add: user_update_def run_simps filter_pk change_active_def)
  qed
qed

lemma run_user_remove:
  assumes "pg w = Up" "users_pk (users w)"
  shows "run (user_remove i) w =
    (case find (\<lambda>u. u_id u = i \<and> notDeleted u) (users w) of
         None \<Rightarrow> (Inl user_not_found, w)
       | Some u \<Rightarrow> (Inr (), w\<lparr>users := change_active i (\<lambda>u. u\<lparr>u_deletedAt := Some (clock w)\<rparr>) w,
                             refreshTokens := filter (\<lambda>r. rt_userId r \<noteq> i) (refreshTokens w)\<rparr>))"
proof (cases "find (\<lambda>u. u_id u = i \<and> notDeleted u) (users w)")
  case None
  then have "change_active i f w = users w" for f
    by (auto simp: change_active_def find_None_iff intro!: map_idI)
  with None assms show ?thesis
    by (simp add: user_remove_def run_simps filter_pk change_active_def)
next
  case (Some u)
  with assms show ?thesis
    by (simp add: user_remove_def run_simps filter_pk change_active_def)
qed

lemma bigint_param_nat [simp]: "n < 2 ^ 63 \<Longrightarrow> bigint_param (of_nat n) = Inr n"
  by (simp add: bigint_param_def)

lemma bigint_param_defaults [simp]: "bigint_param 20 = Inr 20" "bigint_param 0 = Inr 0"
  using bigint_param_nat [of 20] bigint_param_nat [of 0] by simp_all

lemma set_scanned [simp]: "set (scanned L t k us) = set us"
  by (simp add: scanned_def)

text \<open>The rows of a page, wherever they come from.\<close>

definition page_rows :: "lib \<Rightarrow> rat \<Rightarrow> rat \<Rightarrow> string option \<Rightarrow> world \<Rightarrow> exn + user list" where
  "page_rows L limit offset own w =
     (case bigint_param limit of Inl e \<Rightarrow> Inl e | Inr l \<Rightarrow>
      (case bigint_param offset of Inl e \<Rightarrow> Inl e | Inr k \<Rightarrow>
       Inr (take l (drop k (sort_key page_order (scanned L (clock w) offset
         (filter (if truthy_str own then (\<lambda>u. u_id u = the own \<and> notDeleted u) else notDeleted) (users w))))))))"

lemma page_rows_stored:
  "page_rows L l k own w = Inr us \<Longrightarrow>
   \<forall>u \<in> set us. u \<in> set (users w) \<and> notDeleted u \<and> (truthy_str own \<longrightarrow> u_id u = the own)"
  by (auto simp: page_rows_def dest!: in_set_takeD in_set_dropD split: sum.splits if_splits)

lemma run_user_list [run_simps]:
  "pg w = Up \<Longrightarrow> run (user_list L l k own) w =
    (map_sum id (map toPublicUser) (page_rows L (default_arg 20 l) (default_arg 0 k) own w), w)"
  by (simp add: user_list_def select_page_def page_rows_def pg_call_def run_simps split: sum.split)

lemma run_user_getById [run_simps]:
  "pg w = Up \<Longrightarrow> run (user_getById i) w =
    (case find (\<lambda>u. u_id u = i \<and> notDeleted u) (users w) of
       None \<Rightarrow> (Inl user_not_found, w) | Some u \<Rightarrow> (Inr (toPublicUser u), w))"
  by (simp add: user_getById_def run_simps split: option.split)

lemma keeps_db_user_service [keeps]:
  "all_steps keeps_db (user_list L l k own)" "all_steps keeps_db (user_getById i)"
  "all_steps keeps_db (user_update i d)" "all_steps keeps_db (user_remove i)"
  unfolding user_list_def user_getById_def user_update_def user_remove_def select_page_def pg_call_def
  by (auto intro!: all_steps_intros all_steps_now all_steps_over_link keeps
      simp: safe_user_update_def set_fields_def split: option.split list.split)

lemma keeps_db_guarded [keeps]:
  "all_steps keeps_db g \<Longrightarrow> (\<And>c. all_steps keeps_db (h c)) \<Longrightarrow> all_steps keeps_db (guarded g h)"
  unfolding guarded_def by (auto intro!: all_steps_bnd split: verdict.split)

lemma keeps_db_user_routes [keeps]:
  "all_steps keeps_db (get_users L E b l k)" "all_steps keeps_db (get_user L E b i)"
  "all_steps keeps_db (patch_user L E b req i d)" "all_steps keeps_db (delete_user L E b req i)"
  unfolding get_users_def get_user_def patch_user_def delete_user_def
  by (auto intro!: keeps_db_guarded all_steps_intros keeps split: option.split)

subsection \<open>Properties\<close>

lemma change_active_other:
  "u \<in> set (users w) \<Longrightarrow> u_id u \<noteq> i \<Longrightarrow> u \<in> set (change_active i f w)"
  by (auto simp: change_active_def image_iff intro!: bexI [of _ u])

lemma change_active_map:
  "change_active i f w = map (\<lambda>u. if u_id u = i \<and> notDeleted u then set_user (clock w) f u else u) (users w)"
  by (simp add: change_active_def)

text \<open>What the guard of a route under \<open>/:id\<close> makes of an ordinary user's request.\<close>

lemma own_guard:
  fixes L :: lib and w :: world
  assumes "pg w = Up" "caller L E bearer (clock w) = Some p" "ap_role p = User"
  shows "run (can L E action (Some ''id'') bearer (id_param i)) w = (Inr (Pass (p, Own)), w) \<and> i = ap_sub p \<or>
    (\<exists>st b. run (can L E action (Some ''id'') bearer (id_param i)) w = (Inr (Status st b), w))"
  using assms(2,3)
  by (auto simp: run_can [OF assms(1)] resolveScope_User id_param_def truthy_str_iff split: option.split if_splits)

text \<open>Rows that differ at most in what an ordinary user may change.\<close>

definition own_change :: "string \<Rightarrow> user list \<Rightarrow> user list \<Rightarrow> bool" where
  "own_change i us us' \<longleftrightarrow> length us' = length us \<and> (\<forall>k < length us.
     u_role (us' ! k) = u_role (us ! k) \<and> u_id (us' ! k) = u_id (us ! k) \<and> (u_id (us ! k) \<noteq> i \<longrightarrow> us' ! k = us ! k))"

lemma own_change_refl [simp]: "own_change i us us"
  by (simp add: own_change_def)

lemma own_change_active:
  "(\<And>u. u_role (f u) = u_role u \<and> u_id (f u) = u_id u) \<Longrightarrow> own_change i (users w) (change_active i f w)"
  by (auto simp: own_change_def change_active_def set_user_def)

lemma own_change_patch:
  assumes "pg w = Up" "users_pk (users w)" "caller L E bearer (clock w) = Some p" "ap_role p = User"
  shows "own_change (ap_sub p) (users w) (users (snd (run (patch_user L E bearer req i body) w)))"
proof -
  have "users (snd (run (patch_user L E bearer req i body) w)) = users w \<or> i = ap_sub p \<and>
      ub_role body = None \<and> users (snd (run (patch_user L E bearer req i body) w)) = change_active i (set_fields body) w"
    using own_guard [OF assms(1,3,4), of "''user:update''" i]
    by (cases "ub_role body") (auto simp: patch_user_def run_simps run_user_update [OF assms(1,2)] split: option.split)
  then show ?thesis by (auto simp: set_fields_def intro!: own_change_active)
qed

lemma own_change_delete:
  assumes "pg w = Up" "users_pk (users w)" "caller L E bearer (clock w) = Some p" "ap_role p = User"
  shows "own_change (ap_sub p) (users w) (users (snd (run (delete_user L E bearer req i) w)))"
proof -
  have "users (snd (run (delete_user L E bearer req i) w)) = users w \<or> i = ap_sub p \<and>
      users (snd (run (delete_user L E bearer req i) w)) = change_active i (\<lambda>u. u\<lparr>u_deletedAt := Some (clock w)\<rparr>) w"
    using own_guard [OF assms(1,3,4), of "''user:delete''" i]
    by (auto simp: delete_user_def run_simps run_user_remove [OF assms(1,2)] split: option.split)
  then show ?thesis by (auto intro!: own_change_active)
qed

lemma own_reads:
  assumes "pg w = Up" "caller L E bearer (clock w) = Some p" "ap_role p = User"
  shows "fst (run (get_user L E bearer i) w) = Inr (Pass q) \<Longrightarrow> pu_id q = ap_sub p"
    and "fst (run (get_users L E bearer limit offset) w) = Inr (Pass qs) \<Longrightarrow> ap_sub p \<noteq> [] \<Longrightarrow> x \<in> set qs \<Longrightarrow>
      pu_id x = ap_sub p"
proof -
  show "pu_id q = ap_sub p" if "fst (run (get_user L E bearer i) w) = Inr (Pass q)"
    using own_guard [OF assms, of "''user:read''" i] that assms(1)
    by (auto simp: get_user_def run_simps toPublicUser_def dest!: find_Some_set split: option.splits)
  show "pu_id x = ap_sub p" if "fst (run (get_users L E bearer limit offset) w) = Inr (Pass qs)" "ap_sub p \<noteq> []" "x \<in> set qs"
    using that assms
    by (cases "page_rows L (default_arg 20 limit) (default_arg 0 offset) (Some (ap_sub p)) w")
      (auto simp: get_users_def run_simps run_can resolveScope_User truthy_str_iff toPublicUser_def
        dest!: page_rows_stored split: if_splits option.splits)
qed

text \<open>C25. A request under an ordinary user's token shows and changes the user's own row only, and nobody's
  role: whatever the target, the body and the outcome of \<open>PATCH\<close> or \<open>DELETE /users/:id\<close>, every other row
  and every role is as before, and \<open>GET /users\<close> and \<open>GET /users/:id\<close> return no other account.\<close>

theorem users_confined_to_own_row:
  assumes "pg w = Up" "db_ok w" "caller L E bearer (clock w) = Some p" "ap_role p = User" "ap_sub p \<noteq> []"
    "w' = snd (run (patch_user L E bearer req i body) w) \<or> w' = snd (run (delete_user L E bearer req i) w)"
  shows "length (users w') = length (users w) \<and>
    (\<forall>k < length (users w). u_role (users w' ! k) = u_role (users w ! k) \<and> u_id (users w' ! k) = u_id (users w ! k) \<and>
       (u_id (users w ! k) \<noteq> ap_sub p \<longrightarrow> users w' ! k = users w ! k)) \<and>
    (\<forall>q. fst (run (get_user L E bearer j) w) = Inr (Pass q) \<longrightarrow> pu_id q = ap_sub p) \<and>
    (\<forall>qs. fst (run (get_users L E bearer limit offset) w) = Inr (Pass qs) \<longrightarrow> (\<forall>q \<in> set qs. pu_id q = ap_sub p))"
proof -
  have "users_pk (users w)" using assms(2) by (simp add: db_ok_def)
  with assms(6) own_change_patch [OF assms(1) _ assms(3,4)] own_change_delete [OF assms(1) _ assms(3,4)]
  have "own_change (ap_sub p) (users w) (users w')" by auto
  with own_reads [OF assms(1,3,4)] assms(5) show ?thesis unfolding own_change_def by blast
qed

text \<open>Removing an account deletes it softly: the row stays, marked; no refresh token of it is
  left; it can neither be found nor log in; and its address is free for a new registration.\<close>

theorem remove_outcome:
  assumes "pg w = Up" "db_ok w" "u \<in> set (users w)" "u_deletedAt u = None"
  defines "w' \<equiv> snd (run (user_remove (u_id u)) w)"
  shows "fst (run (user_remove (u_id u)) w) = Inr () \<and>
    map u_id (users w') = map u_id (users w) \<and>
    (\<forall>r \<in> set (refreshTokens w'). rt_userId r \<noteq> u_id u) \<and>
    fst (run (user_getById (u_id u)) w') = Inl user_not_found \<and>
    fst (run (verifyCredentials L (u_email u) password) w') = Inl invalid_credentials \<and>
    \<not> list_ex (active_email (u_email u)) (users w')"
proof -
  have pk: "users_pk (users w)" and eu: "users_email_active_unique (users w)" using assms(2) by (simp_all add: db_ok_def)
  have "find (\<lambda>v. u_id v = u_id u \<and> notDeleted v) (users w) \<noteq> None"
    using assms(3,4) by (auto simp: find_None_iff notDeleted_def)
  then obtain v where v: "find (\<lambda>v. u_id v = u_id u \<and> notDeleted v) (users w) = Some v" by blast
  let ?f = "\<lambda>u. u\<lparr>u_deletedAt := Some (clock w)\<rparr>"
  have res: "run (user_remove (u_id u)) w = (Inr (), w\<lparr>users := change_active (u_id u) ?f w,
      refreshTokens := filter (\<lambda>r. rt_userId r \<noteq> u_id u) (refreshTokens w)\<rparr>)"
    using v by (simp add: run_user_remove [OF assms(1) pk])
  then have us: "users w' = change_active (u_id u) ?f w" and up: "pg w' = Up" using assms(1) by (simp_all add: w'_def)
  have gone: "\<not> (u_id x = u_id u \<and> u_deletedAt x = None)" if "x \<in> set (users w')" for x
    using that by (auto simp: us change_active_def set_user_def notDeleted_def)
  have free: "\<not> active_email (u_email u) x" if x: "x \<in> set (users w')" for x
  proof
    assume act: "active_email (u_email u) x"
    from x obtain y where y: "y \<in> set (users w)" "x = (if u_id y = u_id u \<and> notDeleted y then set_user (clock w) ?f y else y)"
      by (auto simp: us change_active_def)
    with act have "active_email (u_email u) y" "x = y" by (auto simp: active_email_def set_user_def split: if_splits)
    moreover have "active_email (u_email u) u" using assms(4) by (simp add: active_email_def)
    ultimately have "y = u" using active_email_unique [OF eu y(1) assms(3)] by blast
    with gone [OF x] \<open>x = y\<close> assms(4) show False by simp
  qed
  have ids: "map u_id (users w') = map u_id (users w)"
    by (simp add: us change_active_def set_user_def)
  have "find (\<lambda>v. u_id v = u_id u \<and> notDeleted v) (users w') = None"
    using gone by (auto simp: find_None_iff notDeleted_def)
  then have nf: "fst (run (user_getById (u_id u)) w') = Inl user_not_found" by (simp add: run_user_getById [OF up])
  have "find (active_email (u_email u)) (users w') = None" using free by (auto simp: find_None_iff)
  then have "fst (run (verifyCredentials L (u_email u) password) w') = Inl invalid_credentials"
    using run_verifyCredentials(1) [OF up, of L "u_email u" password] by simp
  moreover have "\<forall>r \<in> set (refreshTokens w'). rt_userId r \<noteq> u_id u" using res by (simp add: w'_def)
  moreover have "\<not> list_ex (active_email (u_email u)) (users w')" using free by (auto simp: list_ex_iff)
  ultimately show ?thesis using res ids nf by simp
qed

text \<open>Sorted rows do not depend on the order they were found in.\<close>

lemma page_order_inj: "users_pk us \<Longrightarrow> inj_on page_order (set us)"
  by (auto simp: users_pk_def page_order_def distinct_map inj_on_def)

lemma sorted_page:
  assumes "users_pk us"
  shows "sort_key page_order (scanned L t k us) = sort_key page_order us"
proof (rule sort_key_inj_key_eq)
  show "mset (scanned L t k us) = mset (sort_key page_order us)" by (simp add: scanned_def)
  show "inj_on page_order (set (scanned L t k us))" using page_order_inj [OF assms] by simp
qed simp

text \<open>Newest first, and by id where two were created at once.\<close>

definition listed_before :: "public_user \<Rightarrow> public_user \<Rightarrow> bool" where
  "listed_before p q \<longleftrightarrow> pu_createdAt q < pu_createdAt p \<or> (pu_createdAt p = pu_createdAt q \<and> pu_id p < pu_id q)"

lemma sorted_listed:
  assumes "users_pk us"
  shows "sorted_wrt listed_before (map toPublicUser (sort_key page_order us))"
proof -
  let ?vs = "sort_key page_order us"
  have "distinct (map page_order ?vs)"
    using assms page_order_inj [OF assms] by (simp add: distinct_map users_pk_def)
  then have "sorted_wrt (<) (map page_order ?vs)" by (simp add: strict_sorted_iff)
  then have "sorted_wrt (\<lambda>u v. page_order u < page_order v) ?vs" by (simp add: sorted_wrt_map)
  then have "sorted_wrt (\<lambda>u v. listed_before (toPublicUser u) (toPublicUser v)) ?vs"
    by (rule sorted_wrt_mono_rel [rotated]) (auto simp: listed_before_def page_order_def toPublicUser_def less_prod_def)
  then show ?thesis by (simp add: sorted_wrt_map)
qed

lemma users_pk_filter: "users_pk us \<Longrightarrow> users_pk (filter P us)"
  by (simp add: users_pk_def distinct_map_filter)

text \<open>The page \<open>k\<close> of a listing, asked for at time \<open>t\<close>.\<close>

definition page_at :: "lib \<Rightarrow> nat \<Rightarrow> nat \<Rightarrow> int \<Rightarrow> world \<Rightarrow> public_user list" where
  "page_at L limit k t w =
     (case fst (run (user_list L (Some (of_nat limit)) (Some (of_nat (k * limit))) None) (w\<lparr>clock := t\<rparr>)) of
        Inr us \<Rightarrow> us | Inl e \<Rightarrow> [])"

lemma page_at_rows:
  assumes "pg w = Up" "users_pk (users w)" "limit < 2 ^ 63" "k * limit < 2 ^ 63"
  shows "page_at L limit k t w =
    map toPublicUser (take limit (drop (k * limit) (sort_key page_order (filter notDeleted (users w)))))"
  using assms bigint_param_nat [of "k * limit"]
  by (simp add: page_at_def run_simps page_rows_def sorted_page users_pk_filter del: of_nat_mult)

lemma take_pages: "concat (map (\<lambda>k. take m (drop (k * m) xs)) [0..<n]) = take (n * m) xs"
proof (induction n)
  case (Suc n)
  have "take (n * m + m) xs = take (n * m) xs @ take m (drop (n * m) xs)" by (rule take_add)
  with Suc show ?case by (simp add: add.commute)
qed simp


theorem users_confined_to_own_row_witness:
  "users (snd (run (patch_user demo_lib demo_env (Some demo_bearer) \<lparr>rq_header = Map.empty, rq_address = None\<rparr> ''bob''
      \<lparr>ub_name = Some ''x'', ub_role = Some Admin\<rparr>) (demo_world\<lparr>users := [demo_user, demo_user\<lparr>u_id := ''bob'', u_email := ''bob@example.com''\<rparr>]\<rparr>))) ! 1 =
   demo_user\<lparr>u_id := ''bob'', u_email := ''bob@example.com''\<rparr>"
proof -
  let ?bob = "demo_user\<lparr>u_id := ''bob'', u_email := ''bob@example.com''\<rparr>"
  let ?w = "demo_world\<lparr>users := [demo_user, ?bob]\<rparr>"
  let ?w' = "snd (run (patch_user demo_lib demo_env (Some demo_bearer) \<lparr>rq_header = Map.empty, rq_address = None\<rparr> ''bob''
      \<lparr>ub_name = Some ''x'', ub_role = Some Admin\<rparr>) ?w)"
  have "db_ok ?w"
    by (simp add: db_ok_def users_pk_def users_email_active_unique_def tokens_unique_def tokens_fk_def active_email_def)
  with users_confined_to_own_row [where w = ?w and L = demo_lib and E = demo_env and bearer = "Some demo_bearer"
      and p = "\<lparr>ap_sub = ''alice'', ap_role = User\<rparr>" and w' = ?w' and i = "''bob''"
      and req = "\<lparr>rq_header = Map.empty, rq_address = None\<rparr>"
      and body = "\<lparr>ub_name = Some ''x'', ub_role = Some Admin\<rparr>"]
  have "\<forall>k < 2. u_id (users ?w ! k) \<noteq> ''alice'' \<longrightarrow> users ?w' ! k = users ?w ! k"
    by (simp add: demo_caller)
  then show ?thesis by (auto dest: spec [of _ 1])
qed

theorem remove_outcome_witness:
  "fst (run (user_remove ''alice'') demo_world) = Inr () \<and>
   \<not> list_ex (active_email ''alice@example.com'') (users (snd (run (user_remove ''alice'') demo_world)))"
  using remove_outcome [of demo_world demo_user demo_lib "''x''"] by simp


end
