(* ===== verification/Codes.thy ===== *)
theory Codes
  imports Cache
begin

text \<open>
  One-time codes with a bounded number of guesses: the contract that email verification, password
  reset and the MFA challenge share. The locale \<open>guess_limited\<close> states what one guess promises and
  derives what any sequence of guesses, with any delays between them, can achieve; the services
  interpret it. The rest is the pair of Redis keys all three use, a code and its attempt counter.
\<close>

subsection \<open>Random codes\<close>

text \<open>\<open>(n % 1_000_000).toString().padStart(6, "0")\<close>\<close>

definition code_of_u32 :: "32 word \<Rightarrow> string" where
  "code_of_u32 n = pad_start 6 (CHR ''0'') (show_nat (unat (n mod 1000000)))"

definition generateCode :: "lib \<Rightarrow> (world, string) prog" where
  "generateCode L = draw (\<lambda>i. code_of_u32 (rand_u32 L i))"

lemma run_generateCode [run_simps]:
  "run (generateCode L) w = (Inr (code_of_u32 (rand_u32 L (rng w))), w\<lparr>rng := Suc (rng w)\<rparr>)"
  by (simp add: generateCode_def run_simps)

lemma unat_mod_million: "unat (n mod 1000000 :: 32 word) = unat n mod 1000000"
  by (simp add: unat_mod)

lemma code_of_u32_length: "length (code_of_u32 n) = 6"
proof -
  have "unat (n mod 1000000) < 10 ^ Suc 5" by (simp add: unat_mod_million)
  then have "length (show_nat (unat (n mod 1000000))) \<le> Suc 5" by (rule length_show_nat)
  then show ?thesis by (simp add: code_of_u32_def length_pad_start)
qed

lemma code_of_u32_digits: "list_all is_digit (code_of_u32 n)"
  using show_nat_digits [of "unat (n mod 1000000)"]
  by (auto simp: code_of_u32_def list_all_iff is_digit_def dest!: set_pad_start [THEN subsetD])

subsection \<open>A sequence of guesses\<close>

fun guesses :: "('x \<Rightarrow> 's \<Rightarrow> 'r \<times> 's) \<Rightarrow> 'x list \<Rightarrow> 's \<Rightarrow> 'r list" where
  "guesses g [] s = []"
| "guesses g (x # xs) s = fst (g x s) # guesses g xs (snd (g x s))"

lemma length_guesses [simp]: "length (guesses g xs s) = length xs"
  by (induction xs arbitrary: s) auto

text \<open>
  \<open>armed\<close>: a code is stored; \<open>tries\<close>: the attempts counted against it; \<open>fine\<close>: the service answers
  and its bookkeeping is in order. A guess that leaves the code in place has been counted; a guess is
  accepted only below the limit, and consumes the code.
\<close>

locale guess_limited =
  fixes guess :: "'x \<Rightarrow> 's \<Rightarrow> 'r \<times> 's"
    and ok_input :: "'x \<Rightarrow> bool"
    and accepts :: "'r \<Rightarrow> bool"
    and armed :: "'s \<Rightarrow> bool"
    and tries :: "'s \<Rightarrow> nat"
    and fine :: "'s \<Rightarrow> bool"
    and limit :: nat
  assumes fine_step: "fine s \<Longrightarrow> ok_input x \<Longrightarrow> fine (snd (guess x s))"
    and counted: "fine s \<Longrightarrow> ok_input x \<Longrightarrow> armed (snd (guess x s)) \<Longrightarrow>
          armed s \<and> tries (snd (guess x s)) = Suc (tries s)"
    and accepted: "fine s \<Longrightarrow> ok_input x \<Longrightarrow> accepts (fst (guess x s)) \<Longrightarrow>
          armed s \<and> tries s < limit \<and> \<not> armed (snd (guess x s))"
begin

lemma unarmed_rejects:
  "fine s \<Longrightarrow> list_all ok_input xs \<Longrightarrow> \<not> armed s \<Longrightarrow> r \<in> set (guesses guess xs s) \<Longrightarrow> \<not> accepts r"
proof (induction xs arbitrary: s)
  case (Cons x xs)
  let ?t = "snd (guess x s)"
  have "\<not> accepts (fst (guess x s))" using accepted [of s x] Cons.prems by auto
  moreover have "fine ?t" "\<not> armed ?t"
    using fine_step [of s x] counted [of s x] Cons.prems by auto
  then have "r \<in> set (guesses guess xs ?t) \<Longrightarrow> \<not> accepts r"
    using Cons.IH [of ?t] Cons.prems by simp
  ultimately show ?case using Cons.prems(4) by auto
qed simp

lemma within_limit:
  "fine s \<Longrightarrow> list_all ok_input xs \<Longrightarrow> i < length xs \<Longrightarrow> accepts (guesses guess xs s ! i) \<Longrightarrow>
   tries s + i < limit"
proof (induction xs arbitrary: s i)
  case (Cons x xs)
  let ?t = "snd (guess x s)"
  have fine: "fine ?t" using Cons.prems fine_step [of s x] by simp
  show ?case
  proof (cases i)
    case 0
    with Cons.prems accepted [of s x] show ?thesis by simp
  next
    case (Suc j)
    with Cons.prems have j: "j < length xs" "accepts (guesses guess xs ?t ! j)" by simp_all
    with Cons.IH [OF fine] Cons.prems have "tries ?t + j < limit" by simp
    moreover have "guesses guess xs ?t ! j \<in> set (guesses guess xs ?t)" using j by simp
    then have "armed ?t" using unarmed_rejects [OF fine, of xs] Cons.prems(2) j(2) by fastforce
    then have "tries ?t = Suc (tries s)" using counted [of s x] Cons.prems by auto
    ultimately show ?thesis using Suc by simp
  qed
qed simp

lemma single_use:
  "fine s \<Longrightarrow> list_all ok_input xs \<Longrightarrow> i < j \<Longrightarrow> j < length xs \<Longrightarrow>
   accepts (guesses guess xs s ! i) \<Longrightarrow> \<not> accepts (guesses guess xs s ! j)"
proof (induction xs arbitrary: s i j)
  case (Cons x xs)
  let ?t = "snd (guess x s)"
  have fine: "fine ?t" using Cons.prems fine_step [of s x] by simp
  from Cons.prems obtain j' where j': "j = Suc j'" "j' < length xs" by (cases j) auto
  show ?case
  proof (cases i)
    case 0
    with Cons.prems accepted [of s x] have "\<not> armed ?t" by simp
    moreover have "guesses guess xs ?t ! j' \<in> set (guesses guess xs ?t)" using j' by simp
    ultimately show ?thesis using unarmed_rejects [OF fine, of xs] Cons.prems j' by auto
  next
    case (Suc i')
    with Cons.IH [OF fine, of i' j'] Cons.prems j' show ?thesis by simp
  qed
qed simp

end

subsection \<open>A code and its counter in Redis\<close>

text \<open>The count a counter key holds, expired or not.\<close>

definition counter_value :: "string \<Rightarrow> world \<Rightarrow> nat" where
  "counter_value ak w = (case redis w ak of
      None \<Rightarrow> 0
    | Some (v, _) \<Rightarrow> (case parse_int v of None \<Rightarrow> 0 | Some n \<Rightarrow> nat n))"

text \<open>As long as the code lives, so does its counter, and it holds a count.\<close>

definition counter_covers :: "string \<Rightarrow> string \<Rightarrow> world \<Rightarrow> bool" where
  "counter_covers ck ak w \<longleftrightarrow>
     (\<forall>t \<ge> clock w. live_at t (redis w ck) \<noteq> None \<longrightarrow> (\<exists>n. live_at t (redis w ak) = Some (show_int (int n))))"

lemma counter_covers_now:
  assumes "counter_covers ck ak w" and "redis_look w ck \<noteq> None"
  shows "redis_look w ak = Some (show_int (int (counter_value ak w)))"
proof -
  from assms obtain n where n: "live_at (clock w) (redis w ak) = Some (show_int (int n))"
    by (auto simp: counter_covers_def redis_look_def)
  then have "counter_value ak w = n"
    by (cases "(clock w, redis w ak)" rule: live_at.cases) (auto simp: counter_value_def split: if_splits)
  with n show ?thesis by (simp add: redis_look_def)
qed

lemma counter_covers_advance: "0 \<le> d \<Longrightarrow> counter_covers ck ak w \<Longrightarrow> counter_covers ck ak (advance d w)"
  by (simp add: counter_covers_def advance_def)

lemma counter_covers_drop: "counter_covers ck ak (redis_drop ck w)"
  by (simp add: counter_covers_def redis_drop_def)

lemma counter_covers_cong:
  "redis w' ck = redis w ck \<Longrightarrow> redis w' ak = redis w ak \<Longrightarrow> clock w' = clock w \<Longrightarrow>
   counter_covers ck ak w' = counter_covers ck ak w"
  by (simp add: counter_covers_def)

lemma live_at_keep:
  "live_at t x = Some v \<Longrightarrow> live_at s x \<noteq> None \<Longrightarrow> live_at s (Some (u, Option.bind x snd)) = Some u"
  by (cases "(s, x)" rule: live_at.cases) (auto split: if_splits)

lemma counter_covers_bump:
  assumes "counter_covers ck ak w" and "redis_look w ak \<noteq> None" and "ck \<noteq> ak"
  shows "counter_covers ck ak (redis_keep_ttl ak (show_int (int n)) w)"
proof -
  have "\<exists>m. live_at t (Some (show_int (int n), Option.bind (redis w ak) snd)) = Some (show_int (int m))"
    if "clock w \<le> t" "live_at t (redis w ck) \<noteq> None" for t
  proof -
    from assms(1) that obtain m where "live_at t (redis w ak) = Some (show_int (int m))"
      by (auto simp: counter_covers_def)
    then have "live_at t (Some (show_int (int n), Option.bind (redis w ak) snd)) = Some (show_int (int n))"
      using live_at_keep by blast
    then show ?thesis by blast
  qed
  moreover have "redis (redis_keep_ttl ak (show_int (int n)) w) ak =
      Some (show_int (int n), Option.bind (redis w ak) snd)"
    using assms(2) by (auto simp: redis_keep_ttl_def)
  moreover have "redis (redis_keep_ttl ak (show_int (int n)) w) ck = redis w ck"
    using assms(3) by (simp add: redis_keep_ttl_def)
  ultimately show ?thesis
    by (simp add: counter_covers_def)
qed

lemma counter_value_bump [simp]: "counter_value ak (redis_keep_ttl ak (show_int (int n)) w) = n"
  by (simp add: counter_value_def redis_keep_ttl_def)

lemma counter_value_bump_Suc [simp]: "counter_value ak (redis_keep_ttl ak (show_int (1 + int n)) w) = Suc n"
  using counter_value_bump [of ak "Suc n" w] by simp

lemma counter_covers_issue:
  assumes "ck \<noteq> ak" and "0 < n"
  shows "counter_covers ck ak (redis_put ak (show_int 0) (Some n) (redis_put ck v (Some n) w))"
proof -
  have "show_int 0 = show_int (int 0)" by simp
  then have "\<exists>m. show_int 0 = show_int (int m)" by blast
  with assms(1) show ?thesis by (auto simp: counter_covers_def redis_put_def split: if_splits)
qed

lemma counter_value_advance [simp]: "counter_value ak (advance d w) = counter_value ak w"
  by (simp add: counter_value_def)

lemma redis_look_advance: "0 \<le> d \<Longrightarrow> redis_look (advance d w) k \<noteq> None \<Longrightarrow> redis_look w k \<noteq> None"
  using redis_kv.look_elapse [of d w k] by (cases "redis_look (advance d w) k") auto

subsection \<open>Guessing against a stored code\<close>

text \<open>
  What one guess of any of the three services does, after a delay: nothing while no code is stored;
  else it is counted first, and then burns the code at the limit, or leaves it, or is accepted and
  consumes it. \<open>sound\<close> is what the service needs of the rest of the world. This is enough for the
  contract above.
\<close>

abbreviation armed :: "string \<Rightarrow> world \<Rightarrow> bool" where
  "armed ck w \<equiv> truthy_str (redis_look w ck)"

definition bumped :: "string \<Rightarrow> world \<Rightarrow> world" where
  "bumped ak w = redis_keep_ttl ak (show_int (int (Suc (counter_value ak w)))) w"

lemma counter_value_bumped: "counter_value ak (bumped ak w) = Suc (counter_value ak w)"
  unfolding bumped_def by (rule counter_value_bump)

lemma incr_covered:
  assumes "counter_covers ck ak w" and "armed ck w"
  shows "redis_INCR ak w = (Inr (int (counter_value ak w) + 1), bumped ak w)"
proof -
  from assms(2) have "redis_look w ck \<noteq> None" by (auto simp: truthy_str_iff)
  from counter_covers_now [OF assms(1) this] show ?thesis by (simp add: bumped_def add.commute)
qed

lemma counter_covers_bumped:
  assumes "counter_covers ck ak w" and "armed ck w" and "ck \<noteq> ak"
  shows "counter_covers ck ak (bumped ak w)"
proof -
  from assms(2) have "redis_look w ck \<noteq> None" by (auto simp: truthy_str_iff)
  from counter_covers_now [OF assms(1) this] have "redis_look w ak \<noteq> None" by simp
  then show ?thesis unfolding bumped_def by (rule counter_covers_bump [OF assms(1) _ assms(3)])
qed

lemma counter_covers_gone: "redis w ck = None \<Longrightarrow> counter_covers ck ak w"
  by (simp add: counter_covers_def)

lemma bumped_frames [simp]:
  "users (bumped ak w) = users w" "refreshTokens (bumped ak w) = refreshTokens w"
  "pg (bumped ak w) = pg w" "rd (bumped ak w) = rd w" "clock (bumped ak w) = clock w" "rng (bumped ak w) = rng w"
  "redis_look (bumped ak w) k = (if k = ak then Some (show_int (int (Suc (counter_value ak w)))) else redis_look w k)"
  by (simp_all add: bumped_def)

locale counted_code =
  fixes guess :: "'x \<Rightarrow> world \<Rightarrow> 'r \<times> world"
    and delay :: "'x \<Rightarrow> int"
    and accepts :: "'r \<Rightarrow> bool"
    and ck :: string
    and ak :: string
    and limit :: nat
    and sound :: "world \<Rightarrow> bool"
  assumes keys: "ck \<noteq> ak"
    and unarmed: "sound w \<Longrightarrow> counter_covers ck ak w \<Longrightarrow> 0 \<le> delay x \<Longrightarrow>
          \<not> armed ck (advance (delay x) w) \<Longrightarrow>
          \<not> accepts (fst (guess x w)) \<and> snd (guess x w) = advance (delay x) w"
    and exhausted: "sound w \<Longrightarrow> counter_covers ck ak w \<Longrightarrow> 0 \<le> delay x \<Longrightarrow>
          armed ck (advance (delay x) w) \<Longrightarrow> limit \<le> counter_value ak w \<Longrightarrow>
          \<not> accepts (fst (guess x w)) \<and> redis (snd (guess x w)) ck = None"
    and tried: "sound w \<Longrightarrow> counter_covers ck ak w \<Longrightarrow> 0 \<le> delay x \<Longrightarrow>
          armed ck (advance (delay x) w) \<Longrightarrow> counter_value ak w < limit \<Longrightarrow>
          if accepts (fst (guess x w)) then redis (snd (guess x w)) ck = None
          else snd (guess x w) = bumped ak (advance (delay x) w)"
    and sound_step: "sound w \<Longrightarrow> counter_covers ck ak w \<Longrightarrow> 0 \<le> delay x \<Longrightarrow> sound (snd (guess x w))"
begin

lemma gone_unarmed: "redis w ck = None \<Longrightarrow> \<not> armed ck w"
  by (simp add: redis_look_def)

lemma armed_before: "0 \<le> d \<Longrightarrow> armed ck (advance d w) \<Longrightarrow> armed ck w"
  using redis_kv.look_elapse [of d w ck] by (auto simp: truthy_str_iff)

lemma covers_step:
  assumes "sound w" "counter_covers ck ak w" "0 \<le> delay x"
  shows "counter_covers ck ak (snd (guess x w))"
proof (cases "armed ck (advance (delay x) w)")
  case True
  have cov: "counter_covers ck ak (advance (delay x) w)"
    using assms by (simp add: counter_covers_advance)
  show ?thesis
    using exhausted [OF assms True] tried [OF assms True] counter_covers_bumped [OF cov True keys]
      counter_covers_gone by (cases "limit \<le> counter_value ak w") (auto split: if_splits)
next
  case False
  with assms unarmed [OF assms] show ?thesis by (simp add: counter_covers_advance)
qed

end

sublocale counted_code \<subseteq> guess_limited guess "\<lambda>x. 0 \<le> delay x" accepts "armed ck" "counter_value ak"
  "\<lambda>w. sound w \<and> counter_covers ck ak w" limit
proof
  fix w x
  assume *: "sound w \<and> counter_covers ck ak w" and d: "0 \<le> delay x"
  then show "sound (snd (guess x w)) \<and> counter_covers ck ak (snd (guess x w))"
    using sound_step covers_step by blast
  let ?a = "armed ck (advance (delay x) w)"
  have first: "?a \<Longrightarrow> armed ck w" using armed_before d by blast
  have outcomes: "(\<not> ?a \<and> \<not> accepts (fst (guess x w)) \<and> snd (guess x w) = advance (delay x) w) \<or>
      (?a \<and> \<not> accepts (fst (guess x w)) \<and> redis (snd (guess x w)) ck = None) \<or>
      (?a \<and> counter_value ak w < limit \<and> accepts (fst (guess x w)) \<and> redis (snd (guess x w)) ck = None) \<or>
      (?a \<and> \<not> accepts (fst (guess x w)) \<and> snd (guess x w) = bumped ak (advance (delay x) w))"
  proof (cases ?a)
    case True
    then show ?thesis
      using exhausted [OF _ _ d True] tried [OF _ _ d True] * by (cases "limit \<le> counter_value ak w") (auto split: if_splits)
  next
    case False
    then show ?thesis using unarmed [OF _ _ d False] * by blast
  qed
  show "armed ck w \<and> counter_value ak (snd (guess x w)) = Suc (counter_value ak w)"
    if "armed ck (snd (guess x w))"
    using outcomes that first gone_unarmed counter_value_bumped [of ak "advance (delay x) w"] by auto
  show "armed ck w \<and> counter_value ak w < limit \<and> \<not> armed ck (snd (guess x w))"
    if "accepts (fst (guess x w))"
    using outcomes that first gone_unarmed by auto
qed

end
