(* ===== verification/Mail.thy ===== *)
theory Mail
  imports LibHash Database
begin

text \<open>
  Transactional mail: the templates of \<open>src/lib/mail-templates.ts\<close> and the mailer of
  \<open>src/lib/mailer.ts\<close> (choice of transport, sending, the capped outbox).
\<close>

subsection \<open>Escaping\<close>

text \<open>\<open>s.replace(/c/g, rep)\<close>\<close>

definition replace_all :: "char \<Rightarrow> string \<Rightarrow> string \<Rightarrow> string" where
  "replace_all c rep s = concat (map (\<lambda>x. if x = c then rep else [x]) s)"

definition escapeHtml :: "string \<Rightarrow> string" where
  "escapeHtml v =
     replace_all CHR 0x27 ''&#39;''
       (replace_all CHR 0x22 ''&quot;''
         (replace_all CHR ''>'' ''&gt;''
           (replace_all CHR ''<'' ''&lt;''
             (replace_all CHR ''&'' ''&amp;'' v))))"

text \<open>The specification: each character on its own.\<close>

definition escape_char :: "char \<Rightarrow> string" where
  "escape_char x =
     (if x = CHR ''&'' then ''&amp;'' else if x = CHR ''<'' then ''&lt;''
      else if x = CHR ''>'' then ''&gt;'' else if x = CHR 0x22 then ''&quot;''
      else if x = CHR 0x27 then ''&#39;'' else [x])"

text \<open>The reader's side: what a browser shows for the five entities.\<close>

fun unescape :: "string \<Rightarrow> string" where
  "unescape [] = []"
| "unescape (x # xs) =
     (if x = CHR ''&'' then
        (if starts_with ''amp;'' xs then CHR ''&'' # unescape (drop 4 xs)
         else if starts_with ''lt;'' xs then CHR ''<'' # unescape (drop 3 xs)
         else if starts_with ''gt;'' xs then CHR ''>'' # unescape (drop 3 xs)
         else if starts_with ''quot;'' xs then CHR 0x22 # unescape (drop 5 xs)
         else if starts_with ''#39;'' xs then CHR 0x27 # unescape (drop 4 xs)
         else x # unescape xs)
      else x # unescape xs)"

lemma replace_all_simps [simp]:
  "replace_all c rep [] = []"
  "replace_all c rep (x # xs) = (if x = c then rep else [x]) @ replace_all c rep xs"
  "replace_all c rep (xs @ ys) = replace_all c rep xs @ replace_all c rep ys"
  by (simp_all add: replace_all_def)

lemma escapeHtml_simps [simp]:
  "escapeHtml [] = []"
  "escapeHtml (x # xs) = escape_char x @ escapeHtml xs"
  by (simp_all add: escapeHtml_def escape_char_def)

lemma escapeHtml_spec: "escapeHtml v = concat (map escape_char v)"
  by (induction v) simp_all

lemma escapeHtml_append: "escapeHtml (v @ w) = escapeHtml v @ escapeHtml w"
  by (simp add: escapeHtml_spec)

lemma set_escape_char:
  "set (escape_char x) \<inter> {CHR ''<'', CHR ''>'', CHR 0x22, CHR 0x27} = {}"
  by (simp add: escape_char_def)

lemma escapeHtml_no_markup:
  "set (escapeHtml v) \<inter> {CHR ''<'', CHR ''>'', CHR 0x22, CHR 0x27} = {}"
proof (induction v)
  case (Cons x v)
  then show ?case using set_escape_char [of x] by auto
qed simp

lemma unescape_escape_char: "unescape (escape_char x @ s) = x # unescape s"
  by (simp add: escape_char_def starts_with_def)

lemma unescape_escapeHtml: "unescape (escapeHtml v) = v"
  by (induction v) (simp_all add: unescape_escape_char del: unescape.simps(2))

subsection \<open>Templates\<close>

record email_content =
  ec_heading :: string
  ec_lines :: "string list"
  ec_code :: "string option"
  ec_footer :: "string option"

definition nl :: string where
  "nl = [CHR 0x0A]"

text \<open>\<open>xs.join("\n")\<close>\<close>

fun join_nl :: "string list \<Rightarrow> string" where
  "join_nl [] = []"
| "join_nl [x] = x"
| "join_nl (x # y # ys) = x @ nl @ join_nl (y # ys)"

text \<open>\<open>x ? f(x) : ""\<close> for an optional text.\<close>

definition when_text :: "string option \<Rightarrow> (string \<Rightarrow> string) \<Rightarrow> string" where
  "when_text x f = (case x of None \<Rightarrow> [] | Some s \<Rightarrow> if s = [] then [] else f s)"

definition html_paragraph :: "string \<Rightarrow> string" where
  \<open>html_paragraph line =
    ''<p style="margin:0 0 12px;font-size:15px;line-height:1.6;color:#333333;">'' @
    escapeHtml line @ ''</p>''\<close>

definition html_code :: "string \<Rightarrow> string" where
  \<open>html_code code =
    ''<div style="margin:20px 0;padding:14px 0;background:#f4f5f7;border-radius:8px;text-align:center;font-family:SFMono-Regular,Menlo,Consolas,monospace;font-size:28px;letter-spacing:8px;color:#111111;">'' @
    escapeHtml code @ ''</div>''\<close>

definition html_footer :: "string \<Rightarrow> string" where
  \<open>html_footer footer =
    ''<p style="margin:16px 0 0;font-size:12px;line-height:1.5;color:#8a8f98;">'' @
    escapeHtml footer @ ''</p>''\<close>

definition renderEmailHtml :: "env \<Rightarrow> email_content \<Rightarrow> string" where
  \<open>renderEmailHtml E c =
     (let paragraphs = join_nl (map html_paragraph (ec_lines c));
          codeBlock = when_text (ec_code c) html_code;
          footer = when_text (ec_footer c) html_footer
      in
      ''<!DOCTYPE html>'' @
      nl @
      ''<html lang="en">'' @
      nl @
      ''<body style="margin:0;padding:0;background:#eef0f3;">'' @
      nl @
      ''  <table role="presentation" width="100%" cellpadding="0" cellspacing="0" style="background:#eef0f3;padding:32px 16px;">'' @
      nl @
      ''    <tr>'' @
      nl @
      ''      <td align="center">'' @
      nl @
      ''        <table role="presentation" width="100%" cellpadding="0" cellspacing="0" style="max-width:480px;background:#ffffff;border-radius:12px;padding:32px;font-family:-apple-system,BlinkMacSystemFont,'Segoe UI',Roboto,Helvetica,Arial,sans-serif;">'' @
      nl @
      ''          <tr>'' @
      nl @
      ''            <td>'' @
      nl @
      ''              <p style="margin:0 0 20px;font-size:13px;font-weight:600;letter-spacing:1px;text-transform:uppercase;color:#8a8f98;">'' @
      escapeHtml (APP_NAME E) @
      ''</p>'' @
      nl @
      ''              <h1 style="margin:0 0 16px;font-size:20px;color:#111111;">'' @
      escapeHtml (ec_heading c) @
      ''</h1>'' @
      nl @
      ''              '' @
      paragraphs @
      nl @
      ''              '' @
      codeBlock @
      nl @
      ''              '' @
      footer @
      nl @
      ''            </td>'' @
      nl @
      ''          </tr>'' @
      nl @
      ''        </table>'' @
      nl @
      ''      </td>'' @
      nl @
      ''    </tr>'' @
      nl @
      ''  </table>'' @
      nl @
      ''</body>'' @
      nl @
      ''</html>'')\<close>

text \<open>An em dash, as its UTF-8 bytes.\<close>

definition em_dash :: string where
  "em_dash = [CHR 0xE2, CHR 0x80, CHR 0x94]"

definition verificationCodeEmail :: "env \<Rightarrow> string \<Rightarrow> string \<Rightarrow> mail" where
  "verificationCodeEmail E to code =
     \<lparr>m_to = to, m_subject = ''Your verification code'',
      m_text = ''Your email verification code is '' @ code @ ''. It expires in 10 minutes.'',
      m_html = Some (renderEmailHtml E
        \<lparr>ec_heading = ''Verify your email'',
         ec_lines = [''Use this code to verify your email address:''],
         ec_code = Some code,
         ec_footer = Some ''The code expires in 10 minutes. If you didn't request it, you can ignore this email.''\<rparr>)\<rparr>"

definition passwordResetCodeEmail :: "env \<Rightarrow> string \<Rightarrow> string \<Rightarrow> mail" where
  "passwordResetCodeEmail E to code =
     \<lparr>m_to = to, m_subject = ''Your password reset code'',
      m_text = ''Your password reset code is '' @ code @
        ''. It expires in 15 minutes. If you didn't request this, ignore this email.'',
      m_html = Some (renderEmailHtml E
        \<lparr>ec_heading = ''Reset your password'',
         ec_lines = [''Use this code to reset your password:''],
         ec_code = Some code,
         ec_footer = Some (''The code expires in 15 minutes. If you didn't request this, ignore this email '' @
           em_dash @ '' your password is unchanged.'')\<rparr>)\<rparr>"

subsection \<open>The mailer\<close>

datatype mail_mode = Capture | LogMode | Smtp

definition resolveMode :: "env \<Rightarrow> mail_mode" where
  "resolveMode E =
     (if isTest E then Capture
      else
        let mode = (case MAIL_TRANSPORT E of
                      MailAuto \<Rightarrow> if isProduction E then Smtp else LogMode
                    | MailLog \<Rightarrow> LogMode
                    | MailSmtp \<Rightarrow> Smtp)
        in if mode = Smtp \<and> (SMTP_HOST E = [] \<or> SMTP_USER E = []) then LogMode else mode)"

text \<open>Delivery by SMTP hands the mail to nodemailer, which may fail; the other transports cannot.\<close>

definition transport_send :: "env \<Rightarrow> mail \<Rightarrow> (world, unit) prog" where
  "transport_send E m =
     (case resolveMode E of
        Capture \<Rightarrow> Ret ()
      | LogMode \<Rightarrow> Ret ()
      | Smtp \<Rightarrow> over_link smtp (Thrown (js_Error ''Connection timeout''))
                  (\<lambda>w. (Inr (), w\<lparr>sent := sent w @ [m]\<rparr>)))"

definition OUTBOX_LIMIT :: nat where
  "OUTBOX_LIMIT = 50"

text \<open>\<open>outbox.push(mail); if (outbox.length > OUTBOX_LIMIT) outbox.shift();\<close>\<close>

definition outbox_push :: "mail \<Rightarrow> mail list \<Rightarrow> mail list" where
  "outbox_push m box =
     (let box' = box @ [m] in if OUTBOX_LIMIT < length box' then tl box' else box')"

definition mailer_send :: "env \<Rightarrow> mail \<Rightarrow> (world, unit) prog" where
  "mailer_send E m =
     sequ (transport_send E m)
          (atom (\<lambda>w. (Inr (), w\<lparr>outbox := outbox_push m (outbox w)\<rparr>)))"

text \<open>The loop of \<open>lastTo\<close>, from the last index down: \<open>Suc i\<close> looks at index \<open>i\<close>.\<close>

fun lastTo_from :: "mail list \<Rightarrow> string \<Rightarrow> nat \<Rightarrow> mail option" where
  "lastTo_from box to 0 = None"
| "lastTo_from box to (Suc i) =
     (if m_to (box ! i) = to then Some (box ! i) else lastTo_from box to i)"

definition lastTo :: "mail list \<Rightarrow> string \<Rightarrow> mail option" where
  "lastTo box to = lastTo_from box to (length box)"

lemma lastTo_from_find: "i \<le> length box \<Longrightarrow> lastTo_from box to i = find (\<lambda>m. m_to m = to) (rev (take i box))"
  by (induction i) (simp_all add: take_Suc_conv_app_nth)

lemma lastTo_spec: "lastTo box to = find (\<lambda>m. m_to m = to) (rev box)"
  by (simp add: lastTo_def lastTo_from_find)

lemma outbox_push_length: "length box \<le> OUTBOX_LIMIT \<Longrightarrow> length (outbox_push m box) \<le> OUTBOX_LIMIT"
  by (simp add: outbox_push_def Let_def)

lemma outbox_push_last: "\<exists>box'. outbox_push m box = box' @ [m]"
  by (cases box) (auto simp: outbox_push_def Let_def OUTBOX_LIMIT_def)

lemma lastTo_push_same: "lastTo (outbox_push m box) (m_to m) = Some m"
  using outbox_push_last [of m box] by (auto simp: lastTo_spec)

lemma lastTo_push_other:
  "m_to m \<noteq> to \<Longrightarrow> length box < OUTBOX_LIMIT \<Longrightarrow> lastTo (outbox_push m box) to = lastTo box to"
  by (simp add: lastTo_spec outbox_push_def Let_def)

lemma keeps_db_mailer_send [keeps]: "all_steps keeps_db (mailer_send E m)"
  by (auto simp: mailer_send_def transport_send_def db_ok_cong [where w' = "_\<lparr>sent := _\<rparr>"]
      db_ok_cong [where w' = "_\<lparr>outbox := _\<rparr>"]
      intro!: all_steps_sequ all_steps_over_link all_steps_atom split: mail_mode.splits)

subsection \<open>Properties\<close>

text \<open>The characters a reader of HTML takes for markup, in order.\<close>

definition markup :: "string \<Rightarrow> string" where
  "markup s = filter (\<lambda>x. x \<in> {CHR ''<'', CHR ''>'', CHR 0x22, CHR 0x27}) s"

text \<open>Contents of the same shape: as many lines, and the same optional parts.\<close>

definition same_shape :: "email_content \<Rightarrow> email_content \<Rightarrow> bool" where
  "same_shape c c' \<longleftrightarrow> length (ec_lines c) = length (ec_lines c') \<and>
     truthy_str (ec_code c) = truthy_str (ec_code c') \<and> truthy_str (ec_footer c) = truthy_str (ec_footer c')"

lemma markup_append: "markup (s @ t) = markup s @ markup t"
  by (simp add: markup_def)

lemma markup_escapeHtml: "markup (escapeHtml v) = []"
  using escapeHtml_no_markup [of v] by (auto simp: markup_def filter_empty_conv)

lemma markup_join_nl: "markup (join_nl xs) = concat (map markup xs)"
proof (induction xs rule: join_nl.induct)
  case (3 x y ys)
  have "markup nl = []" by (simp add: nl_def markup_def)
  with 3 show ?case by (simp add: markup_append)
qed (simp_all add: markup_def)

lemma markup_parts:
  "markup (html_paragraph line) = markup (html_paragraph [])"
  "markup (html_code code) = markup (html_code [])"
  "markup (html_footer footer) = markup (html_footer [])"
  unfolding html_paragraph_def html_code_def html_footer_def
  by (simp_all only: markup_append markup_escapeHtml)

lemma markup_paragraphs:
  "length xs = length ys \<Longrightarrow> markup (join_nl (map html_paragraph xs)) = markup (join_nl (map html_paragraph ys))"
proof (induction xs ys rule: list_induct2)
  case (Cons x xs y ys)
  with markup_parts(1) [of x] markup_parts(1) [of y] show ?case by (simp add: markup_join_nl)
qed simp

lemma markup_when_text:
  assumes "\<And>s. markup (f s) = markup (f [])" "truthy_str x = truthy_str y"
  shows "markup (when_text x f) = markup (when_text y f)"
proof -
  have "markup (when_text z f) = (if truthy_str z then markup (f []) else [])" for z
    using assms(1) by (cases z) (simp_all add: when_text_def markup_def)
  with assms(2) show ?thesis by simp
qed

text \<open>C33. No text of an account or of the configuration reaches the markup of a mail: the tags and the
  quotes of a rendered message, in order, depend only on how many lines it has and which optional
  parts, never on the application name, the heading, a line, the code or the footer.\<close>

theorem content_is_not_markup:
  assumes "same_shape c c'"
  shows "markup (renderEmailHtml E c) = markup (renderEmailHtml E' c')"
proof -
  have "markup (join_nl (map html_paragraph (ec_lines c))) = markup (join_nl (map html_paragraph (ec_lines c')))"
    using assms by (intro markup_paragraphs) (simp add: same_shape_def)
  moreover have "markup (when_text (ec_code c) html_code) = markup (when_text (ec_code c') html_code)"
    using assms by (intro markup_when_text markup_parts(2)) (simp add: same_shape_def)
  moreover have "markup (when_text (ec_footer c) html_footer) = markup (when_text (ec_footer c') html_footer)"
    using assms by (intro markup_when_text markup_parts(3)) (simp add: same_shape_def)
  ultimately show ?thesis
    unfolding renderEmailHtml_def Let_def by (simp only: markup_append markup_escapeHtml)
qed

theorem content_is_not_markup_witness:
  "markup (renderEmailHtml demo_env \<lparr>ec_heading = ''<script>'', ec_lines = [''<b>hi</b>''], ec_code = Some ''000000'', ec_footer = None\<rparr>) =
   markup (renderEmailHtml demo_env \<lparr>ec_heading = [], ec_lines = [''hello''], ec_code = Some ''1'', ec_footer = Some []\<rparr>)"
  by (rule content_is_not_markup) (simp add: same_shape_def)

text \<open>The outbox holds the last fifty mails in the order they were sent, and \<open>lastTo\<close> answers with
  the most recent of them to an address.\<close>

fun send_all :: "env \<Rightarrow> mail list \<Rightarrow> (world, unit) prog" where
  "send_all E [] = Ret ()"
| "send_all E (m # ms) = sequ (mailer_send E m) (send_all E ms)"

lemma outbox_push_latest:
  "foldl (\<lambda>box m. outbox_push m box) (drop (length ms - OUTBOX_LIMIT) ms) ns =
   drop (length (ms @ ns) - OUTBOX_LIMIT) (ms @ ns)"
proof (induction ns arbitrary: ms)
  case (Cons n ns)
  have "outbox_push n (drop (length ms - OUTBOX_LIMIT) ms) = drop (length (ms @ [n]) - OUTBOX_LIMIT) (ms @ [n])"
  proof (cases "length ms < 50")
    case True
    then show ?thesis by (simp add: outbox_push_def Let_def OUTBOX_LIMIT_def)
  next
    case False
    then have "drop (length ms - 50) ms \<noteq> []" and "length ms - 49 = Suc (length ms - 50)" by simp_all
    with False show ?thesis
      by (simp add: outbox_push_def Let_def OUTBOX_LIMIT_def drop_Suc tl_drop)
  qed
  with Cons.IH [of "ms @ [n]"] show ?case by simp
qed simp

lemma run_mailer_send:
  "resolveMode E \<noteq> Smtp \<Longrightarrow> run (mailer_send E m) w = (Inr (), w\<lparr>outbox := outbox_push m (outbox w)\<rparr>)"
  by (cases "resolveMode E") (simp_all add: mailer_send_def transport_send_def run_simps)

lemma run_send_all:
  "resolveMode E \<noteq> Smtp \<Longrightarrow>
   run (send_all E ms) w = (Inr (), w\<lparr>outbox := foldl (\<lambda>box m. outbox_push m box) (outbox w) ms\<rparr>)"
  by (induction ms arbitrary: w) (simp_all add: run_simps run_mailer_send)

theorem outbox_keeps_latest:
  assumes "resolveMode E \<noteq> Smtp" "outbox w = []"
  shows "fst (run (send_all E ms) w) = Inr () \<and>
    outbox (snd (run (send_all E ms) w)) = drop (length ms - 50) ms \<and>
    lastTo (outbox (snd (run (send_all E ms) w))) to = find (\<lambda>m. m_to m = to) (rev (drop (length ms - 50) ms))"
  using outbox_push_latest [of "[]" ms] assms by (simp add: run_send_all lastTo_spec OUTBOX_LIMIT_def)

theorem outbox_keeps_latest_witness:
  "lastTo (outbox (snd (run (send_all (demo_env\<lparr>NODE_ENV := Test\<rparr>)
      [verificationCodeEmail demo_env ''a'' ''1'', verificationCodeEmail demo_env ''b'' ''2'', verificationCodeEmail demo_env ''a'' ''3''])
      demo_world))) ''a'' = Some (verificationCodeEmail demo_env ''a'' ''3'')"
proof -
  have "resolveMode (demo_env\<lparr>NODE_ENV := Test\<rparr>) \<noteq> Smtp" by (simp add: resolveMode_def isTest_def)
  moreover have "outbox demo_world = []" by (simp add: demo_world_def empty_world_def)
  moreover have "m_to (verificationCodeEmail E t c) = t" for E t c by (simp add: verificationCodeEmail_def)
  ultimately show ?thesis
    using outbox_keeps_latest [of "demo_env\<lparr>NODE_ENV := Test\<rparr>" demo_world
        "[verificationCodeEmail demo_env ''a'' ''1'', verificationCodeEmail demo_env ''b'' ''2'', verificationCodeEmail demo_env ''a'' ''3'']" "''a''", THEN conjunct2, THEN conjunct2]
    by (simp del: send_all.simps)
qed

end
