(* ===== verification/Queue.thy ===== *)
theory Queue
  imports Mail Cache
begin

text \<open>
  Background jobs: the driver and the typed queues (\<open>src/queue/connection.ts\<close>,
  \<open>src/queue/define.ts\<close>, \<open>src/queue/email.queue.ts\<close>), the ops alert (\<open>src/lib/alert.ts\<close>) and
  the failure handling of the worker (\<open>src/queue/runtime.ts\<close>).
\<close>

subsection \<open>Queues\<close>

definition driver :: "env \<Rightarrow> queue_driver" where
  "driver E = (if isTest E then DriverSync else QUEUE_DRIVER E)"

definition DEFAULT_JOB_OPTS :: job_opts where
  "DEFAULT_JOB_OPTS = \<lparr>jo_attempts = 3, jo_backoff_delay = 1000, jo_removeOnComplete = True,
     jo_removeOnFail = 500\<rparr>"

text \<open>A partial options object; spreading it overrides the fields it has.\<close>

record job_patch =
  jp_attempts :: "nat option"
  jp_backoff_delay :: "nat option"
  jp_removeOnComplete :: "bool option"
  jp_removeOnFail :: "nat option"

definition no_opts :: job_patch where
  "no_opts = \<lparr>jp_attempts = None, jp_backoff_delay = None, jp_removeOnComplete = None, jp_removeOnFail = None\<rparr>"

definition spread_opts :: "job_patch \<Rightarrow> job_opts \<Rightarrow> job_opts" where
  "spread_opts p d = \<lparr>jo_attempts = default_arg (jo_attempts d) (jp_attempts p),
     jo_backoff_delay = default_arg (jo_backoff_delay d) (jp_backoff_delay p),
     jo_removeOnComplete = default_arg (jo_removeOnComplete d) (jp_removeOnComplete p),
     jo_removeOnFail = default_arg (jo_removeOnFail d) (jp_removeOnFail p)\<rparr>"

text \<open>
  \<open>defineQueue(name, processor, defaultJobOpts).add(data, opts)\<close>: a job for the worker under the
  redis driver, the processor run inline under the sync driver. \<open>enqueue\<close> is the effect of
  \<open>bull.add\<close> on the queue.
\<close>

definition queue_add ::
  "env \<Rightarrow> ('d \<times> job_opts \<Rightarrow> world \<Rightarrow> world) \<Rightarrow> ('d \<Rightarrow> (world, unit) prog) \<Rightarrow> job_patch \<Rightarrow>
   'd \<Rightarrow> job_patch \<Rightarrow> (world, unit) prog" where
  "queue_add E enqueue processor defaultJobOpts data opts =
     (if driver E = DriverRedis
      then over_link rd (Thrown (js_Error ''Connection is closed.''))
             (\<lambda>w. (Inr (), enqueue (data, spread_opts opts (spread_opts defaultJobOpts DEFAULT_JOB_OPTS)) w))
      else processor data)"

definition emailQueue_add :: "env \<Rightarrow> mail \<Rightarrow> (world, unit) prog" where
  "emailQueue_add E m =
     queue_add E (\<lambda>job w. w\<lparr>email_jobs := email_jobs w @ [job]\<rparr>) (mailer_send E) no_opts m no_opts"

text \<open>What a queued mail leaves behind, under either driver.\<close>

definition mail_queued :: "env \<Rightarrow> mail \<Rightarrow> world \<Rightarrow> world" where
  "mail_queued E m w = snd (run (emailQueue_add E m) w)"

lemma no_opts_spread [simp]: "spread_opts no_opts d = d"
  by (simp add: spread_opts_def no_opts_def)

lemma emailQueue_add_redis [run_simps]:
  "driver E = DriverRedis \<Longrightarrow> rd w = Up \<Longrightarrow>
   run (emailQueue_add E m) w = (Inr (), w\<lparr>email_jobs := email_jobs w @ [(m, DEFAULT_JOB_OPTS)]\<rparr>)"
  by (simp add: emailQueue_add_def queue_add_def run_simps)

lemma mailer_send_frames [simp]:
  "redis (snd (run (mailer_send E m) w)) = redis w" "users (snd (run (mailer_send E m) w)) = users w"
  "refreshTokens (snd (run (mailer_send E m) w)) = refreshTokens w"
  "auditLogs (snd (run (mailer_send E m) w)) = auditLogs w"
  "clock (snd (run (mailer_send E m) w)) = clock w" "pg (snd (run (mailer_send E m) w)) = pg w"
  "rd (snd (run (mailer_send E m) w)) = rd w" "rng (snd (run (mailer_send E m) w)) = rng w"
  by (simp_all add: mailer_send_def transport_send_def run_simps run_over_link
      split: mail_mode.splits link.splits)

lemma mail_queued_frames [simp]:
  "redis (mail_queued E m w) = redis w" "users (mail_queued E m w) = users w"
  "refreshTokens (mail_queued E m w) = refreshTokens w" "auditLogs (mail_queued E m w) = auditLogs w"
  "clock (mail_queued E m w) = clock w" "pg (mail_queued E m w) = pg w"
  "rd (mail_queued E m w) = rd w" "rng (mail_queued E m w) = rng w"
  by (simp_all add: mail_queued_def emailQueue_add_def queue_add_def run_over_link split: link.splits)

lemma redis_look_mail_queued [simp]: "redis_look (mail_queued E m w) k = redis_look w k"
  by (simp add: redis_look_def)

text \<open>With Redis answering, queueing fails only when an inline SMTP delivery fails.\<close>

definition mail_ok :: "env \<Rightarrow> world \<Rightarrow> bool" where
  "mail_ok E w \<longleftrightarrow> driver E = DriverRedis \<or> resolveMode E \<noteq> Smtp \<or> smtp w = Up"

lemma run_emailQueue_add [run_simps]:
  "rd w = Up \<Longrightarrow> mail_ok E w \<Longrightarrow> run (emailQueue_add E m) w = (Inr (), mail_queued E m w)"
  by (cases "resolveMode E") (auto simp: mail_queued_def emailQueue_add_def queue_add_def mail_ok_def
      mailer_send_def transport_send_def run_simps)

text \<open>The mail handed over last: to the queue under the redis driver, else to the mail server, or kept
  in the outbox.\<close>

definition newest_mail :: "env \<Rightarrow> world \<Rightarrow> mail option" where
  "newest_mail E w =
     (let ms = (if driver E = DriverRedis then map fst (email_jobs w)
                else if resolveMode E = Smtp then sent w else outbox w)
      in if ms = [] then None else Some (last ms))"

lemma newest_mail_queued:
  assumes "rd w = Up" "mail_ok E w"
  shows "newest_mail E (mail_queued E m w) = Some m"
  using assms outbox_push_last [of m "outbox w"]
  by (cases "resolveMode E") (auto simp: newest_mail_def mail_queued_def emailQueue_add_def queue_add_def mail_ok_def
      mailer_send_def transport_send_def run_simps)

lemma mail_ok_upd [simp]:
  "mail_ok E (w\<lparr>users := us\<rparr>) = mail_ok E w" "mail_ok E (w\<lparr>rng := n\<rparr>) = mail_ok E w"
  "mail_ok E (redis_put k v t w) = mail_ok E w" "mail_ok E (redis_drop k w) = mail_ok E w"
  "mail_ok E (redis_keep_ttl k v w) = mail_ok E w" "mail_ok E (w\<lparr>refreshTokens := rs\<rparr>) = mail_ok E w"
  by (simp_all add: mail_ok_def redis_put_def redis_drop_def redis_keep_ttl_def)

lemma keeps_db_emailQueue_add [keeps]: "all_steps keeps_db (emailQueue_add E m)"
  by (auto simp: emailQueue_add_def queue_add_def db_ok_cong [where w' = "_\<lparr>email_jobs := _\<rparr>"]
      intro!: all_steps_over_link keeps)

subsection \<open>Alerts\<close>

fun node_env_name :: "node_env \<Rightarrow> string" where
  "node_env_name Development = ''development''"
| "node_env_name Production = ''production''"
| "node_env_name Test = ''test''"

text \<open>The request of \<open>fetch\<close>: a status, or \<open>None\<close> where the call throws (no connection, timeout).\<close>

definition webhook_post :: "string \<Rightarrow> alert \<Rightarrow> (world, nat option) prog" where
  "webhook_post body a = atom (\<lambda>w. case hook w of
      Responds st \<Rightarrow> (Inr (Some st), w\<lparr>alerts := alerts w @ [(body, a)]\<rparr>)
    | Fails \<Rightarrow> (Inr None, w))"

definition sendAlert :: "env \<Rightarrow> alert \<Rightarrow> (world, bool) prog" where
  "sendAlert E a =
     (if ALERT_WEBHOOK_URL E = [] then Ret False
      else
        bnd (webhook_post (''['' @ node_env_name (NODE_ENV E) @ ''] '' @ a_title a @ '': '' @ a_message a) a)
          (\<lambda>res. case res of
             None \<Rightarrow> Ret False
           | Some st \<Rightarrow> if 200 \<le> st \<and> st < 300 then Ret True else Ret False))"

subsection \<open>Failed jobs\<close>

record failed_job =
  fj_id :: "string option"
  fj_attemptsMade :: nat
  fj_opts :: "nat option option"

text \<open>\<open>job?.opts?.attempts ?? 1\<close> and \<open>(job?.attemptsMade ?? maxAttempts) >= maxAttempts\<close>\<close>

definition maxAttempts :: "failed_job option \<Rightarrow> nat" where
  "maxAttempts job = (case job of
      None \<Rightarrow> 1
    | Some j \<Rightarrow> (case fj_opts j of None \<Rightarrow> 1 | Some a \<Rightarrow> default_arg 1 a))"

definition isFinal :: "failed_job option \<Rightarrow> bool" where
  "isFinal job \<longleftrightarrow> (case job of None \<Rightarrow> maxAttempts job | Some j \<Rightarrow> fj_attemptsMade j) \<ge> maxAttempts job"

definition job_id :: "failed_job option \<Rightarrow> string option" where
  "job_id job = Option.bind job fj_id"

definition failure_alert :: "string \<Rightarrow> failed_job option \<Rightarrow> string \<Rightarrow> alert" where
  "failure_alert queueName job err_message =
     \<lparr>a_title = ''queue job permanently failed'',
      a_message = queueName @ '' job '' @ default_arg ''?'' (job_id job) @ '' exhausted '' @
        show_nat (maxAttempts job) @ '' attempts: '' @ err_message,
      a_context = [(''queue'', JStr queueName),
        (''jobId'', (case job_id job of None \<Rightarrow> JUndefined | Some i \<Rightarrow> JStr i)),
        (''error'', JStr err_message)]\<rparr>"

definition handleJobFailure :: "env \<Rightarrow> string \<Rightarrow> failed_job option \<Rightarrow> string \<Rightarrow> (world, unit) prog" where
  "handleJobFailure E queueName job err_message =
     (if \<not> isFinal job then Ret ()
      else sequ (sendAlert E (failure_alert queueName job err_message)) (Ret ()))"

lemma run_sendAlert:
  "run (sendAlert E a) w =
     (if ALERT_WEBHOOK_URL E = [] then (Inr False, w)
      else (case hook w of
              Fails \<Rightarrow> (Inr False, w)
            | Responds st \<Rightarrow> (Inr (200 \<le> st \<and> st < 300), w\<lparr>alerts := alerts w @
                [(''['' @ node_env_name (NODE_ENV E) @ ''] '' @ a_title a @ '': '' @ a_message a, a)]\<rparr>)))"
  by (simp add: sendAlert_def webhook_post_def run_simps split: fetch_result.splits)

text \<open>The failures of one job, one after each of its attempts.\<close>

fun job_failures :: "env \<Rightarrow> string \<Rightarrow> string option \<Rightarrow> nat \<Rightarrow> string \<Rightarrow> nat list \<Rightarrow> (world, unit) prog" where
  "job_failures E q i attempts err [] = Ret ()"
| "job_failures E q i attempts err (n # ns) =
     sequ (handleJobFailure E q (Some \<lparr>fj_id = i, fj_attemptsMade = n, fj_opts = Some (Some attempts)\<rparr>) err)
          (job_failures E q i attempts err ns)"

lemma run_handleJobFailure:
  "run (handleJobFailure E q job err) w =
     (if isFinal job then (Inr (), snd (run (sendAlert E (failure_alert q job err)) w)) else (Inr (), w))"
  by (simp add: handleJobFailure_def run_simps run_sendAlert split: fetch_result.split)

lemma isFinal_attempt:
  "isFinal (Some \<lparr>fj_id = i, fj_attemptsMade = n, fj_opts = Some (Some a)\<rparr>) \<longleftrightarrow> a \<le> n"
  by (simp add: isFinal_def maxAttempts_def)

lemma run_job_failures_before:
  "\<forall>n \<in> set ns. n < a \<Longrightarrow> run (job_failures E q i a err (ns @ ms)) w = run (job_failures E q i a err ms) w"
  by (induction ns) (simp_all add: run_simps run_handleJobFailure isFinal_attempt)

subsection \<open>Properties\<close>

text \<open>C34. A job that fails for good raises exactly one alert: over the failures of its attempts
  \<open>1, \<dots>, a\<close> the state is as before after any but the last, which posts one alert naming the queue, the
  job, the number of attempts and the error; handling a failure never throws, whatever the webhook does.\<close>

theorem one_alert_per_dead_job:
  assumes "0 < a" "ALERT_WEBHOOK_URL E \<noteq> []"
  shows "(\<forall>k \<le> a. run (job_failures E q (Some i) a err [1..<k]) w = (Inr (), w)) \<and>
    fst (run (job_failures E q (Some i) a err [1..<a + 1]) w) = Inr () \<and>
    map snd (alerts (snd (run (job_failures E q (Some i) a err [1..<a + 1]) w))) = map snd (alerts w) @
      (case hook w of Fails \<Rightarrow> [] | Responds st \<Rightarrow>
         [\<lparr>a_title = ''queue job permanently failed'',
           a_message = q @ '' job '' @ i @ '' exhausted '' @ show_nat a @ '' attempts: '' @ err,
           a_context = [(''queue'', JStr q), (''jobId'', JStr i), (''error'', JStr err)]\<rparr>])"
proof -
  have split: "[1..<a + 1] = [1..<a] @ [a]" using assms(1) by simp
  have "run (job_failures E q (Some i) a err [1..<k]) w = (Inr (), w)" if "k \<le> a" for k
    using run_job_failures_before [of "[1..<k]" a E q "Some i" err "[]" w] that by simp
  then show ?thesis
    using assms unfolding split
    by (simp add: run_job_failures_before run_simps run_handleJobFailure isFinal_attempt run_sendAlert
        failure_alert_def job_id_def maxAttempts_def split: fetch_result.split)
qed

theorem one_alert_per_dead_job_witness:
  "alerts (snd (run (job_failures (demo_env\<lparr>ALERT_WEBHOOK_URL := ''http://ops''\<rparr>) ''email'' (Some ''7'') 3 ''boom'' [1..<3])
      demo_world)) = [] \<and>
   map (a_title \<circ> snd) (alerts (snd (run (job_failures (demo_env\<lparr>ALERT_WEBHOOK_URL := ''http://ops''\<rparr>) ''email'' (Some ''7'') 3 ''boom'' [1..<3 + 1])
      demo_world))) = [''queue job permanently failed'']"
proof -
  let ?E = "demo_env\<lparr>ALERT_WEBHOOK_URL := ''http://ops''\<rparr>"
  have none: "alerts demo_world = []" by (simp add: demo_world_def empty_world_def)
  note all = one_alert_per_dead_job [of 3 ?E "''email''" "''7''" "''boom''" demo_world]
  have "run (job_failures ?E ''email'' (Some ''7'') 3 ''boom'' [1..<3]) demo_world = (Inr (), demo_world)"
    by (rule all [THEN conjunct1, rule_format]) simp_all
  moreover have "map snd (alerts (snd (run (job_failures ?E ''email'' (Some ''7'') 3 ''boom'' [1..<3 + 1]) demo_world))) =
      map snd (alerts demo_world) @ (case hook demo_world of Fails \<Rightarrow> [] | Responds st \<Rightarrow>
         [\<lparr>a_title = ''queue job permanently failed'',
           a_message = ''email'' @ '' job '' @ ''7'' @ '' exhausted '' @ show_nat 3 @ '' attempts: '' @ ''boom'',
           a_context = [(''queue'', JStr ''email''), (''jobId'', JStr ''7''), (''error'', JStr ''boom'')]\<rparr>])"
    by (rule all [THEN conjunct2, THEN conjunct2]) simp_all
  then have "map a_title (map snd (alerts (snd (run (job_failures ?E ''email'' (Some ''7'') 3 ''boom'' [1..<3 + 1]) demo_world)))) =
      [''queue job permanently failed'']"
    by (simp only: none) (simp add: demo_world_def empty_world_def)
  ultimately show ?thesis using none by (simp only: map_map snd_conv simp_thms)
qed

end
