(* ===== verification/Otp.thy ===== *)
theory Otp
  imports Codes Queue AuthService
begin

text \<open>
  Email-verification codes, \<open>OtpService\<close> (\<open>src/modules/auth/otp.service.ts\<close>): issue with a resend
  cooldown, verify with a bounded number of attempts, all state in Redis.
\<close>

definition OTP_TTL_SECONDS :: int where "OTP_TTL_SECONDS = 10 * 60"
definition OTP_COOLDOWN_SECONDS :: int where "OTP_COOLDOWN_SECONDS = 60"
definition OTP_MAX_ATTEMPTS :: nat where "OTP_MAX_ATTEMPTS = 5"

definition otp_codeKey :: "string \<Rightarrow> string" where
  "otp_codeKey userId = ''otp:verify:'' @ userId"

definition otp_attemptsKey :: "string \<Rightarrow> string" where
  "otp_attemptsKey userId = ''otp:verify:attempts:'' @ userId"

definition otp_cooldownKey :: "string \<Rightarrow> string" where
  "otp_cooldownKey userId = ''otp:verify:cooldown:'' @ userId"

definition hashCode :: "lib \<Rightarrow> string \<Rightarrow> string" where
  "hashCode L code = sha256 L code"

definition bad_request :: "string \<Rightarrow> exn" where
  "bad_request m = App (BadRequestError (Some m))"

definition otp_cooldown_error :: exn where
  "otp_cooldown_error = bad_request (''A code was just sent '' @ em_dash @ '' please wait before requesting another'')"

definition too_many_attempts :: exn where
  "too_many_attempts = bad_request (''Too many attempts '' @ em_dash @ '' please request a new code'')"

definition otp_issue :: "lib \<Rightarrow> env \<Rightarrow> string \<Rightarrow> string \<Rightarrow> (world, unit) prog" where
  "otp_issue L E userId email =
     bnd (cache_exists (otp_cooldownKey userId)) (\<lambda>cooling.
     if cooling then Throw otp_cooldown_error
     else
       bnd (generateCode L) (\<lambda>code.
       sequ (cache_set (otp_codeKey userId) (hashCode L code) (Some OTP_TTL_SECONDS))
      (sequ (cache_set (otp_attemptsKey userId) ''0'' (Some OTP_TTL_SECONDS))
      (sequ (cache_set (otp_cooldownKey userId) ''1'' (Some OTP_COOLDOWN_SECONDS))
       (emailQueue_add E (verificationCodeEmail E email code))))))"

definition otp_verify :: "lib \<Rightarrow> string \<Rightarrow> string \<Rightarrow> (world, bool) prog" where
  "otp_verify L userId code =
     bnd (cache_get (otp_codeKey userId)) (\<lambda>stored.
     if \<not> truthy_str stored then Ret False
     else
       bnd (cache_incr (otp_attemptsKey userId)) (\<lambda>attempts.
       if attempts > int OTP_MAX_ATTEMPTS then
         sequ (cache_del (otp_codeKey userId)) (Throw too_many_attempts)
       else if Some (hashCode L code) \<noteq> stored then Ret False
       else
         sequ (cache_del (otp_codeKey userId))
        (sequ (cache_del (otp_attemptsKey userId))
         (Ret True))))"

lemmas otp_consts = OTP_TTL_SECONDS_def OTP_COOLDOWN_SECONDS_def OTP_MAX_ATTEMPTS_def

subsection \<open>Keys\<close>

lemma otp_keys [simp, key_simps]:
  "otp_codeKey u \<noteq> otp_attemptsKey u" "otp_attemptsKey u \<noteq> otp_codeKey u"
  "otp_codeKey u \<noteq> otp_cooldownKey u" "otp_cooldownKey u \<noteq> otp_codeKey u"
  "otp_attemptsKey u \<noteq> otp_cooldownKey u" "otp_cooldownKey u \<noteq> otp_attemptsKey u"
  unfolding otp_codeKey_def otp_attemptsKey_def otp_cooldownKey_def
  by (auto dest: arg_cong [where f = length])

lemma zero_text: "''0'' = show_int 0"
  by code_simp

subsection \<open>Execution\<close>

text \<open>What an issue stores.\<close>

definition otp_stored :: "lib \<Rightarrow> string \<Rightarrow> string \<Rightarrow> world \<Rightarrow> world" where
  "otp_stored L userId code w =
     redis_put (otp_cooldownKey userId) ''1'' (Some OTP_COOLDOWN_SECONDS)
       (redis_put (otp_attemptsKey userId) (show_int 0) (Some OTP_TTL_SECONDS)
         (redis_put (otp_codeKey userId) (hashCode L code) (Some OTP_TTL_SECONDS) (w\<lparr>rng := Suc (rng w)\<rparr>)))"

lemma run_otp_issue:
  fixes L :: lib and w :: world
  assumes "rd w = Up" "mail_ok E w"
  defines "code \<equiv> code_of_u32 (rand_u32 L (rng w))"
  shows "run (otp_issue L E userId email) w =
    (if redis_look w (otp_cooldownKey userId) \<noteq> None then (Inl otp_cooldown_error, w)
     else (Inr (), mail_queued E (verificationCodeEmail E email code) (otp_stored L userId code w)))"
  using assms(1,2)
  by (simp add: otp_issue_def code_def run_simps otp_consts otp_stored_def zero_text)

lemma run_otp_verify:
  assumes "rd w = Up"
  shows "run (otp_verify L userId code) w =
    (let ck = otp_codeKey userId; ak = otp_attemptsKey userId in
     if \<not> truthy_str (redis_look w ck) then (Inr False, w)
     else (case redis_INCR ak w of (r, w1) \<Rightarrow> (case r of
        Inl e \<Rightarrow> (Inl e, w1)
      | Inr n \<Rightarrow>
          if n > int OTP_MAX_ATTEMPTS then (Inl too_many_attempts, redis_drop ck w1)
          else if Some (hashCode L code) \<noteq> redis_look w ck then (Inr False, w1)
          else (Inr True, redis_drop ak (redis_drop ck w1)))))"
proof (cases "redis_INCR (otp_attemptsKey userId) w")
  case (Pair r w1)
  then have "rd w1 = Up" using assms redis_INCR_frames(5) by (metis snd_conv)
  with Pair assms show ?thesis
    by (simp add: otp_verify_def run_simps Let_def split: sum.splits)
qed

subsection \<open>Bounded guessing\<close>

text \<open>One guess after a delay.\<close>

definition otp_guess :: "lib \<Rightarrow> string \<Rightarrow> int \<times> string \<Rightarrow> world \<Rightarrow> (exn + bool) \<times> world" where
  "otp_guess L userId x w = run (otp_verify L userId (snd x)) (advance (fst x) w)"

lemma otp_guess_cases:
  fixes w :: world and d :: int and userId :: string
  assumes "rd w = Up" "counter_covers (otp_codeKey userId) (otp_attemptsKey userId) w" "0 \<le> d"
  defines "w' \<equiv> advance d w" and "ck \<equiv> otp_codeKey userId" and "ak \<equiv> otp_attemptsKey userId"
  shows "otp_guess L userId (d, c) w =
    (if \<not> armed ck w' then (Inr False, w')
     else if OTP_MAX_ATTEMPTS \<le> counter_value ak w then (Inl too_many_attempts, redis_drop ck (bumped ak w'))
     else if Some (hashCode L c) \<noteq> redis_look w' ck then (Inr False, bumped ak w')
     else (Inr True, redis_drop ak (redis_drop ck (bumped ak w'))))"
proof -
  have up: "rd w' = Up" and cov: "counter_covers ck ak w'"
    using assms by (simp_all add: counter_covers_advance)
  have "redis_INCR ak w' = (Inr (int (counter_value ak w) + 1), bumped ak w')" if "armed ck w'"
    using incr_covered [OF cov that] by (simp add: w'_def)
  with up show ?thesis
    unfolding otp_guess_def snd_conv fst_conv w'_def [symmetric] run_otp_verify [OF up]
    by (simp add: ck_def ak_def Let_def)
qed

interpretation otp: counted_code "otp_guess L userId" fst "\<lambda>r. r = Inr True"
  "otp_codeKey userId" "otp_attemptsKey userId" OTP_MAX_ATTEMPTS "\<lambda>w. rd w = Up"
  for L userId
proof
  let ?ck = "otp_codeKey userId" and ?ak = "otp_attemptsKey userId"
  show "?ck \<noteq> ?ak" by simp
  fix w and x :: "int \<times> string"
  assume hyps: "rd w = Up" "counter_covers ?ck ?ak w" "0 \<le> fst x"
  note guess = otp_guess_cases [OF hyps, of L "snd x", unfolded prod.collapse]
  show "rd (snd (otp_guess L userId x w)) = Up"
    unfolding guess using hyps(1) by simp
  show "fst (otp_guess L userId x w) \<noteq> Inr True \<and> snd (otp_guess L userId x w) = advance (fst x) w"
    if "\<not> armed ?ck (advance (fst x) w)" unfolding guess using that by simp
  show "fst (otp_guess L userId x w) \<noteq> Inr True \<and> redis (snd (otp_guess L userId x w)) ?ck = None"
    if "armed ?ck (advance (fst x) w)" "OTP_MAX_ATTEMPTS \<le> counter_value ?ak w"
    unfolding guess using that by (simp add: redis_drop_def)
  show "if fst (otp_guess L userId x w) = Inr True then redis (snd (otp_guess L userId x w)) ?ck = None
      else snd (otp_guess L userId x w) = bumped ?ak (advance (fst x) w)"
    if "armed ?ck (advance (fst x) w)" "counter_value ?ak w < OTP_MAX_ATTEMPTS"
    unfolding guess using that by (simp add: redis_drop_def)
qed

lemma otp_covers_stored:
  "counter_covers (otp_codeKey userId) (otp_attemptsKey userId) (mail_queued E m (otp_stored L userId code w))"
proof -
  let ?w = "w\<lparr>rng := Suc (rng w)\<rparr>"
  have "counter_covers (otp_codeKey userId) (otp_attemptsKey userId)
      (redis_put (otp_attemptsKey userId) (show_int 0) (Some OTP_TTL_SECONDS)
         (redis_put (otp_codeKey userId) (hashCode L code) (Some OTP_TTL_SECONDS) ?w))"
    by (rule counter_covers_issue) (simp_all add: otp_consts)
  then show ?thesis
    unfolding otp_stored_def
    by (rule counter_covers_cong [THEN iffD2, rotated 3]) (simp_all add: redis_put_def)
qed

lemma otp_counter_stored: "counter_value (otp_attemptsKey userId) (mail_queued E m (otp_stored L userId code w)) = 0"
  by (simp add: counter_value_def otp_stored_def redis_put_def)

lemma keeps_db_otp [keeps]:
  "all_steps keeps_db (otp_issue L E u e)" "all_steps keeps_db (otp_verify L u c)"
  unfolding otp_issue_def otp_verify_def generateCode_def
  by (auto intro!: all_steps_intros all_steps_draw keeps simp: db_ok_cong [where w' = "_\<lparr>rng := _\<rparr>"])

subsection \<open>Properties\<close>

lemma otp_issuedD:
  assumes "rd w = Up" "mail_ok E w" "run (otp_issue L E userId email) w = (Inr (), w')"
  shows "w' = mail_queued E (verificationCodeEmail E email (code_of_u32 (rand_u32 L (rng w))))
      (otp_stored L userId (code_of_u32 (rand_u32 L (rng w))) w)"
    and "redis_look w (otp_cooldownKey userId) = None"
  using assms(3) unfolding run_otp_issue [OF assms(1,2)] by (auto split: if_splits)

lemma otp_stored_frames [simp]:
  "rd (otp_stored L u c w) = rd w" "clock (otp_stored L u c w) = clock w" "pg (otp_stored L u c w) = pg w"
  "mail_ok E (otp_stored L u c w) = mail_ok E w"
  by (simp_all add: otp_stored_def)

lemma redis_look_via: "redis v k = redis w k \<Longrightarrow> clock v = clock w \<Longrightarrow> redis_look (advance d v) k = redis_look (advance d w) k"
  by (simp add: redis_look_def)

lemma otp_stored_look:
  assumes "0 \<le> d"
  shows "redis_look (advance d (mail_queued E m (otp_stored L u c w))) (otp_codeKey u) =
      (if d < 600000 then Some (sha256 L c) else None)"
    and "redis_look (advance d (mail_queued E m (otp_stored L u c w))) (otp_cooldownKey u) =
      (if d < 60000 then Some ''1'' else None)"
  using assms
  by (simp_all add: redis_look_def otp_stored_def redis_put_def otp_consts hashCode_def)

text \<open>C18. Against one issued email code, of any number of guesses at any times at most the first
  five can succeed, and at most one does.\<close>

theorem otp_guesses_bounded:
  assumes "rd w = Up" "mail_ok E w" "run (otp_issue L E userId email) w = (Inr (), w')"
    "list_all (\<lambda>x. 0 \<le> fst x) xs" "i < length xs" "guesses (otp_guess L userId) xs w' ! i = Inr True"
  shows "i < 5 \<and> (\<forall>j < length xs. guesses (otp_guess L userId) xs w' ! j = Inr True \<longrightarrow> j = i)"
proof -
  have fine: "rd w' = Up \<and> counter_covers (otp_codeKey userId) (otp_attemptsKey userId) w'"
    and zero: "counter_value (otp_attemptsKey userId) w' = 0"
    using assms(1) by (simp_all add: otp_issuedD(1) [OF assms(1-3)] otp_covers_stored otp_counter_stored)
  have "i < OTP_MAX_ATTEMPTS" using otp.within_limit [OF fine assms(4-6)] zero by simp
  moreover have "j = i" if "j < length xs" "guesses (otp_guess L userId) xs w' ! j = Inr True" for j
    using otp.single_use [OF fine assms(4), of i j] otp.single_use [OF fine assms(4), of j i] that assms(5,6)
    by (cases i j rule: linorder_cases) auto
  ultimately show ?thesis by (simp add: otp_consts)
qed

text \<open>What the mail of a code carries.\<close>

lemma verification_mail:
  "m_to (verificationCodeEmail E to code) = to"
  "m_text (verificationCodeEmail E to code) = ''Your email verification code is '' @ code @ ''. It expires in 10 minutes.''"
  by (simp_all add: verificationCodeEmail_def)

lemma otp_mailed:
  assumes "rd w = Up" "mail_ok E w" "run (otp_issue L E userId email) w = (Inr (), w')"
  shows "newest_mail E w' = Some (verificationCodeEmail E email (code_of_u32 (rand_u32 L (rng w))))"
  unfolding otp_issuedD(1) [OF assms] by (rule newest_mail_queued) (use assms in simp_all)

text \<open>C19. The code in the mail is the one that verifies: after an issue the newest mail goes to the
  given address and its text carries a code of six decimal digits, and a later guess of six characters
  is accepted exactly when it is that code and ten minutes have not passed. Different texts of six
  characters are taken to have different digests.\<close>

theorem otp_roundtrip:
  assumes "rd w = Up" "mail_ok E w" "run (otp_issue L E userId email) w = (Inr (), w')" "0 \<le> d"
    "\<forall>s. sha256 L s \<noteq> []" "inj_on (sha256 L) {s. length s = 6}"
  shows "\<exists>c m. length c = 6 \<and> list_all is_digit c \<and> newest_mail E w' = Some m \<and> m_to m = email \<and>
    m_text m = ''Your email verification code is '' @ c @ ''. It expires in 10 minutes.'' \<and>
    (\<forall>code. length code = 6 \<longrightarrow>
       fst (run (otp_verify L userId code) (advance d w')) = Inr (d < 10 * 60 * 1000 \<and> code = c))"
proof (intro exI conjI allI impI)
  let ?c = "code_of_u32 (rand_u32 L (rng w))"
  show "length ?c = 6" "list_all is_digit ?c" by (simp_all add: code_of_u32_length code_of_u32_digits)
  show "newest_mail E w' = Some (verificationCodeEmail E email ?c)" by (rule otp_mailed [OF assms(1-3)])
  show "m_to (verificationCodeEmail E email ?c) = email"
    "m_text (verificationCodeEmail E email ?c) = ''Your email verification code is '' @ ?c @ ''. It expires in 10 minutes.''"
    by (simp_all add: verification_mail)
  fix code :: string assume "length code = 6"
  then have same: "sha256 L code = sha256 L ?c \<longleftrightarrow> code = ?c"
    using assms(6) by (auto simp: code_of_u32_length dest: inj_onD)
  note w' = otp_issuedD(1) [OF assms(1-3)]
  have fine: "rd w' = Up" "counter_covers (otp_codeKey userId) (otp_attemptsKey userId) w'"
    and zero: "counter_value (otp_attemptsKey userId) w' = 0"
    using assms(1) by (simp_all add: w' otp_covers_stored otp_counter_stored)
  have look: "redis_look (advance d w') (otp_codeKey userId) = (if d < 600000 then Some (sha256 L ?c) else None)"
    unfolding w' by (rule otp_stored_look(1) [OF assms(4)])
  have "fst (otp_guess L userId (d, code) w') = Inr (d < 600000 \<and> code = ?c)"
    unfolding otp_guess_cases [OF fine assms(4)]
    using look zero assms(5) same by (simp add: truthy_str_iff otp_consts hashCode_def)
  then show "fst (run (otp_verify L userId code) (advance d w')) = Inr (d < 10 * 60 * 1000 \<and> code = ?c)"
    by (simp add: otp_guess_def)
qed

text \<open>After a code was issued, another request within a minute is refused and changes nothing
  (the first code stays good); a minute later it is served again.\<close>

theorem otp_cooldown:
  assumes "rd w = Up" "mail_ok E w" "run (otp_issue L E userId email) w = (Inr (), w')" "0 \<le> d"
    "mail_ok E (advance d w')"
  shows "if d < 60 * 1000
    then run (otp_issue L E userId email) (advance d w') = (Inl otp_cooldown_error, advance d w')
    else fst (run (otp_issue L E userId email) (advance d w')) = Inr ()"
proof -
  note w' = otp_issuedD(1) [OF assms(1-3)]
  have up: "rd (advance d w') = Up" using assms(1) by (simp add: w')
  have "redis_look (advance d w') (otp_cooldownKey userId) = (if d < 60000 then Some ''1'' else None)"
    unfolding w' by (rule otp_stored_look(2) [OF assms(4)])
  then show ?thesis by (simp add: run_otp_issue [OF up assms(5)])
qed

lemma demo_driver [simp]: "driver demo_env = DriverRedis"
  by (simp add: driver_def isTest_def)

lemma demo_mail_ok [simp]: "mail_ok demo_env w"
  by (simp add: mail_ok_def)

definition otp_world :: world where
  "otp_world = snd (run (otp_issue demo_lib demo_env ''alice'' ''alice@example.com'') demo_world)"

lemma otp_world_issued:
  "run (otp_issue demo_lib demo_env ''alice'' ''alice@example.com'') demo_world = (Inr (), otp_world)"
  by (simp add: otp_world_def run_otp_issue redis_look_def)

lemma demo_code: "code_of_u32 (rand_u32 demo_lib 0) = ''000000''"
  by code_simp

lemma otp_world_eq:
  "otp_world = mail_queued demo_env (verificationCodeEmail demo_env ''alice@example.com'' ''000000'')
     (otp_stored demo_lib ''alice'' ''000000'' demo_world)"
  using otp_issuedD(1) [OF _ _ otp_world_issued] by (simp add: demo_code)

theorem otp_roundtrip_witness:
  "\<exists>c m. newest_mail demo_env otp_world = Some m \<and> m_to m = ''alice@example.com'' \<and>
     m_text m = ''Your email verification code is '' @ c @ ''. It expires in 10 minutes.'' \<and>
     fst (run (otp_verify demo_lib ''alice'' c) (advance 5000 otp_world)) = Inr True \<and>
     fst (run (otp_verify demo_lib ''alice'' c) (advance 600000 otp_world)) = Inr False"
proof -
  have lib: "\<forall>s. sha256 demo_lib s \<noteq> []" "inj_on (sha256 demo_lib) {s. length s = 6}"
    by (simp_all add: demo_lib_def inj_on_def)
  from otp_roundtrip [OF _ _ otp_world_issued _ lib, of 5000] obtain c m where c: "length c = 6"
    "newest_mail demo_env otp_world = Some m" "m_to m = ''alice@example.com''"
    "m_text m = ''Your email verification code is '' @ c @ ''. It expires in 10 minutes.''"
    "fst (run (otp_verify demo_lib ''alice'' c) (advance 5000 otp_world)) = Inr True" by auto
  moreover have "fst (run (otp_verify demo_lib ''alice'' c) (advance 600000 otp_world)) = Inr False"
    using otp_roundtrip [OF _ _ otp_world_issued _ lib, of 600000] c(1) by auto
  ultimately show ?thesis by blast
qed

theorem otp_cooldown_witness:
  "run (otp_issue demo_lib demo_env ''alice'' ''alice@example.com'') (advance 5000 otp_world) =
     (Inl otp_cooldown_error, advance 5000 otp_world)"
  using otp_cooldown [OF _ _ otp_world_issued, of 5000] by simp

theorem otp_guesses_bounded_witness:
  "let gs = guesses (otp_guess demo_lib ''alice'') [(1000, ''123456''), (1000, ''000000''), (1000, ''000000'')] otp_world in
   gs ! 1 = Inr True \<and> gs ! 2 \<noteq> Inr True"
proof -
  let ?xs = "[(1000, ''123456''), (1000, ''000000''), (1000, ''000000'')] :: (int \<times> string) list"
  let ?gs = "guesses (otp_guess demo_lib ''alice'') ?xs otp_world"
  have cov: "counter_covers (otp_codeKey ''alice'') (otp_attemptsKey ''alice'') otp_world"
    "rd otp_world = Up" "counter_value (otp_attemptsKey ''alice'') otp_world = 0"
    by (simp_all add: otp_world_eq otp_covers_stored otp_counter_stored)
  let ?ck = "otp_codeKey ''alice''" and ?ak = "otp_attemptsKey ''alice''"
  have look: "redis_look (advance d otp_world) ?ck = Some ''h000000''" if "0 \<le> d" "d < 600000" for d
    unfolding otp_world_eq otp_stored_look(1) [OF that(1)] using that(2) by (simp add: demo_lib_def)
  have one: "otp_guess demo_lib ''alice'' (1000, ''123456'') otp_world = (Inr False, bumped ?ak (advance 1000 otp_world))"
    using cov by (simp add: otp_guess_cases look truthy_str_iff otp_consts hashCode_def) (simp add: demo_lib_def)
  let ?w = "bumped ?ak (advance 1000 otp_world)"
  have "counter_covers ?ck ?ak ?w"
    using cov look [of 1000] by (intro counter_covers_bumped counter_covers_advance) (simp_all add: truthy_str_iff)
  moreover have "counter_value ?ak ?w = 1" "rd ?w = Up"
    using cov by (simp_all add: counter_value_bumped)
  moreover have "redis_look (advance 1000 ?w) ?ck = Some ''h000000''"
    using look [of 2000] by (simp add: redis_look_def bumped_def redis_keep_ttl_def add.commute)
  ultimately have "fst (otp_guess demo_lib ''alice'' (1000, ''000000'') ?w) = Inr True"
    by (simp add: otp_guess_cases truthy_str_iff otp_consts hashCode_def) (simp add: demo_lib_def)
  with one have "?gs ! 1 = Inr True" by simp
  then have "1 < (5::nat) \<and> (\<forall>j < length ?xs. ?gs ! j = Inr True \<longrightarrow> j = 1)"
    by (intro otp_guesses_bounded [OF _ _ otp_world_issued]) simp_all
  then have "?gs ! 2 \<noteq> Inr True" by auto
  with \<open>?gs ! 1 = Inr True\<close> show ?thesis by (simp add: Let_def)
qed

end
