(* ===== verification/PasswordReset.thy ===== *)
theory PasswordReset
  imports Otp
begin

text \<open>
  Forgotten passwords, \<open>PasswordResetService\<close> (\<open>src/modules/auth/password-reset.service.ts\<close>): a
  code by mail, and a reset that spends it, sets the new password and ends every session.
\<close>

definition PWRESET_TTL_SECONDS :: int where "PWRESET_TTL_SECONDS = 15 * 60"
definition PWRESET_COOLDOWN_SECONDS :: int where "PWRESET_COOLDOWN_SECONDS = 60"
definition PWRESET_MAX_ATTEMPTS :: nat where "PWRESET_MAX_ATTEMPTS = 5"

definition pwreset_codeKey :: "string \<Rightarrow> string" where
  "pwreset_codeKey userId = ''pwreset:'' @ userId"

definition pwreset_attemptsKey :: "string \<Rightarrow> string" where
  "pwreset_attemptsKey userId = ''pwreset:attempts:'' @ userId"

definition pwreset_cooldownKey :: "string \<Rightarrow> string" where
  "pwreset_cooldownKey userId = ''pwreset:cooldown:'' @ userId"

definition pwreset_request :: "lib \<Rightarrow> env \<Rightarrow> string \<Rightarrow> (world, unit) prog" where
  "pwreset_request L E email =
     bnd (findByEmail email) (\<lambda>found.
     case found of
       None \<Rightarrow> Ret ()
     | Some u \<Rightarrow>
         bnd (cache_exists (pwreset_cooldownKey (u_id u))) (\<lambda>cooling.
         if cooling then Ret ()
         else
           bnd (generateCode L) (\<lambda>code.
           sequ (cache_set (pwreset_codeKey (u_id u)) (sha256Hex L code) (Some PWRESET_TTL_SECONDS))
          (sequ (cache_set (pwreset_attemptsKey (u_id u)) ''0'' (Some PWRESET_TTL_SECONDS))
          (sequ (cache_set (pwreset_cooldownKey (u_id u)) ''1'' (Some PWRESET_COOLDOWN_SECONDS))
           (emailQueue_add E (passwordResetCodeEmail E email code)))))))"

definition reset_invalid :: exn where
  "reset_invalid = bad_request ''Invalid or expired reset code''"

definition reset_entry :: "string \<Rightarrow> audit_entry" where
  "reset_entry userId = audit_plain ''auth.password_reset'' (Some userId) ''user'' userId"

definition pwreset_reset :: "lib \<Rightarrow> string \<Rightarrow> string \<Rightarrow> string \<Rightarrow> (world, unit) prog" where
  "pwreset_reset L email code newPassword =
     bnd (findByEmail email) (\<lambda>found.
     case found of
       None \<Rightarrow> Throw reset_invalid
     | Some u \<Rightarrow>
         bnd (cache_get (pwreset_codeKey (u_id u))) (\<lambda>stored.
         if \<not> truthy_str stored then Throw reset_invalid
         else
           bnd (cache_incr (pwreset_attemptsKey (u_id u))) (\<lambda>attempts.
           if attempts > int PWRESET_MAX_ATTEMPTS then
             sequ (cache_del (pwreset_codeKey (u_id u))) (Throw too_many_attempts)
           else if Some (sha256Hex L code) \<noteq> stored then Throw reset_invalid
           else
             sequ (cache_del (pwreset_codeKey (u_id u)))
            (sequ (cache_del (pwreset_attemptsKey (u_id u)))
            (sequ (updatePassword L (u_id u) newPassword)
            (sequ (revokeAllRefreshTokens (u_id u))
             (recordAudit L (reset_entry (u_id u)))))))))"

lemmas pwreset_consts = PWRESET_TTL_SECONDS_def PWRESET_COOLDOWN_SECONDS_def PWRESET_MAX_ATTEMPTS_def

lemma pwreset_keys [simp, key_simps]:
  "pwreset_codeKey u \<noteq> pwreset_attemptsKey u" "pwreset_attemptsKey u \<noteq> pwreset_codeKey u"
  "pwreset_codeKey u \<noteq> pwreset_cooldownKey u" "pwreset_cooldownKey u \<noteq> pwreset_codeKey u"
  "pwreset_attemptsKey u \<noteq> pwreset_cooldownKey u" "pwreset_cooldownKey u \<noteq> pwreset_attemptsKey u"
  unfolding pwreset_codeKey_def pwreset_attemptsKey_def pwreset_cooldownKey_def
  by (auto dest: arg_cong [where f = length])

subsection \<open>Execution\<close>

definition pwreset_stored :: "lib \<Rightarrow> string \<Rightarrow> string \<Rightarrow> world \<Rightarrow> world" where
  "pwreset_stored L userId code w =
     redis_put (pwreset_cooldownKey userId) ''1'' (Some PWRESET_COOLDOWN_SECONDS)
       (redis_put (pwreset_attemptsKey userId) (show_int 0) (Some PWRESET_TTL_SECONDS)
         (redis_put (pwreset_codeKey userId) (sha256Hex L code) (Some PWRESET_TTL_SECONDS)
           (w\<lparr>rng := Suc (rng w)\<rparr>)))"

lemma run_pwreset_request:
  fixes L :: lib and w :: world
  assumes "pg w = Up" "rd w = Up" "mail_ok E w"
  defines "code \<equiv> code_of_u32 (rand_u32 L (rng w))"
  shows "run (pwreset_request L E email) w =
    (case find (active_email email) (users w) of
       None \<Rightarrow> (Inr (), w)
     | Some u \<Rightarrow>
         if redis_look w (pwreset_cooldownKey (u_id u)) \<noteq> None then (Inr (), w)
         else (Inr (), mail_queued E (passwordResetCodeEmail E email code) (pwreset_stored L (u_id u) code w)))"
  using assms(1-3)
  by (simp add: pwreset_request_def code_def run_simps pwreset_consts pwreset_stored_def zero_text
      split: option.splits)

text \<open>What a successful reset leaves: the new hash, no session, an audit entry.\<close>

definition reset_done :: "lib \<Rightarrow> string \<Rightarrow> string \<Rightarrow> world \<Rightarrow> world" where
  "reset_done L userId newPassword w =
     after_audit L (reset_entry userId)
       (w\<lparr>rng := Suc (rng w),
          users := map (\<lambda>u. if u_id u = userId
            then set_user (clock w) (\<lambda>u. u\<lparr>u_passwordHash := argon2_hash L (rng w) newPassword\<rparr>) u
            else u) (users w),
          refreshTokens := filter (\<lambda>r. rt_userId r \<noteq> userId) (refreshTokens w)\<rparr>)"

lemma run_pwreset_reset:
  assumes "pg w = Up" "rd w = Up"
  shows "run (pwreset_reset L email code pw) w =
    (case find (active_email email) (users w) of
       None \<Rightarrow> (Inl reset_invalid, w)
     | Some u \<Rightarrow> (let ck = pwreset_codeKey (u_id u); ak = pwreset_attemptsKey (u_id u) in
         if \<not> truthy_str (redis_look w ck) then (Inl reset_invalid, w)
         else (case redis_INCR ak w of (r, w1) \<Rightarrow> (case r of
            Inl e \<Rightarrow> (Inl e, w1)
          | Inr n \<Rightarrow>
              if n > int PWRESET_MAX_ATTEMPTS then (Inl too_many_attempts, redis_drop ck w1)
              else if Some (sha256Hex L code) \<noteq> redis_look w ck then (Inl reset_invalid, w1)
              else (Inr (), reset_done L (u_id u) pw (redis_drop ak (redis_drop ck w1)))))))"
proof (cases "find (active_email email) (users w)")
  case None
  with assms show ?thesis by (simp add: pwreset_reset_def run_simps)
next
  case (Some u)
  obtain r w1 where incr: "redis_INCR (pwreset_attemptsKey (u_id u)) w = (r, w1)" by fastforce
  then have "rd w1 = Up" "pg w1 = Up" using assms redis_INCR_frames(4,5) by (metis snd_conv)+
  with Some incr assms show ?thesis
    by (simp add: pwreset_reset_def run_simps Let_def reset_done_def split: sum.splits)
qed

subsection \<open>Bounded guessing\<close>

text \<open>A guess is a delay, a code and the new password.\<close>

definition pwreset_guess ::
  "lib \<Rightarrow> string \<Rightarrow> int \<times> string \<times> string \<Rightarrow> world \<Rightarrow> (exn + unit) \<times> world" where
  "pwreset_guess L email x w =
     run (pwreset_reset L email (fst (snd x)) (snd (snd x))) (advance (fst x) w)"

text \<open>Postgres and Redis answer, and the address is the one of the account \<open>userId\<close>.\<close>

definition pwreset_sound :: "string \<Rightarrow> string \<Rightarrow> world \<Rightarrow> bool" where
  "pwreset_sound email userId w \<longleftrightarrow> pg w = Up \<and> rd w = Up \<and>
     map_option u_id (find (active_email email) (users w)) = Some userId"

lemma pwreset_soundE:
  assumes "pwreset_sound email userId w"
  obtains u where "pg w = Up" "rd w = Up" "find (active_email email) (users w) = Some u" "u_id u = userId"
  using assms by (auto simp: pwreset_sound_def)

lemma find_active_email_update:
  assumes "safe_user_update f" "\<And>u. u_deletedAt (f u) = u_deletedAt u"
  shows "find (active_email e) (map (\<lambda>u. if P u then set_user t f u else u) us) =
    map_option (\<lambda>u. if P u then set_user t f u else u) (find (active_email e) us)"
  using assms by (induction us) (auto simp: active_email_def set_user_def safe_user_update_def)

lemma find_active_id_update:
  assumes "safe_user_update f" "\<And>u. u_deletedAt (f u) = u_deletedAt u"
  shows "map_option u_id (find (active_email e) (map (\<lambda>u. if P u then set_user t f u else u) us)) =
    map_option u_id (find (active_email e) us)"
proof -
  have "u_id \<circ> (\<lambda>u. if P u then set_user t f u else u) = u_id"
    using assms(1) by (auto simp: fun_eq_iff set_user_def safe_user_update_def)
  then show ?thesis by (simp add: find_active_email_update [OF assms] option.map_comp)
qed

lemma pwreset_sound_done:
  "pwreset_sound email userId w \<Longrightarrow> pwreset_sound email userId (reset_done L i pw w)"
  by (simp add: pwreset_sound_def reset_done_def find_active_id_update safe_user_update_def)

lemma pwreset_sound_frames [simp]:
  "pwreset_sound e i (advance d w) = pwreset_sound e i w"
  "pwreset_sound e i (redis_drop k w) = pwreset_sound e i w"
  "pwreset_sound e i (bumped k w) = pwreset_sound e i w"
  by (simp_all add: pwreset_sound_def)

lemma reset_done_redis [simp]: "redis (reset_done L i p w) = redis w"
  by (simp add: reset_done_def)

lemma pwreset_guess_cases:
  fixes w :: world and userId :: string and x :: "int \<times> string \<times> string"
  assumes "pwreset_sound email userId w"
    "counter_covers (pwreset_codeKey userId) (pwreset_attemptsKey userId) w" "0 \<le> fst x"
  defines "w' \<equiv> advance (fst x) w" and "ck \<equiv> pwreset_codeKey userId" and "ak \<equiv> pwreset_attemptsKey userId"
  shows "pwreset_guess L email x w =
    (if \<not> armed ck w' then (Inl reset_invalid, w')
     else if PWRESET_MAX_ATTEMPTS \<le> counter_value ak w
       then (Inl too_many_attempts, redis_drop ck (bumped ak w'))
     else if Some (sha256Hex L (fst (snd x))) \<noteq> redis_look w' ck then (Inl reset_invalid, bumped ak w')
     else (Inr (), reset_done L userId (snd (snd x)) (redis_drop ak (redis_drop ck (bumped ak w')))))"
proof -
  from assms(1) obtain u where u: "find (active_email email) (users w) = Some u" "u_id u = userId"
    and up: "pg w' = Up" "rd w' = Up" by (auto simp: w'_def elim: pwreset_soundE)
  have cov: "counter_covers ck ak w'" using assms by (simp add: counter_covers_advance)
  have "redis_INCR ak w' = (Inr (int (counter_value ak w) + 1), bumped ak w')" if "armed ck w'"
    using incr_covered [OF cov that] by (simp add: w'_def)
  with u show ?thesis
    unfolding pwreset_guess_def w'_def [symmetric] run_pwreset_reset [OF up]
    by (simp add: ck_def ak_def Let_def w'_def)
qed

interpretation pwreset: counted_code "pwreset_guess L email" fst "\<lambda>r. r = Inr ()"
  "pwreset_codeKey userId" "pwreset_attemptsKey userId" PWRESET_MAX_ATTEMPTS "pwreset_sound email userId"
  for L email userId
proof
  let ?ck = "pwreset_codeKey userId" and ?ak = "pwreset_attemptsKey userId"
  show "?ck \<noteq> ?ak" by simp
  fix w and x :: "int \<times> string \<times> string"
  assume hyps: "pwreset_sound email userId w" "counter_covers ?ck ?ak w" "0 \<le> fst x"
  note guess = pwreset_guess_cases [OF hyps, of L]
  show "pwreset_sound email userId (snd (pwreset_guess L email x w))"
    unfolding guess using hyps(1) pwreset_sound_done by simp
  show "fst (pwreset_guess L email x w) \<noteq> Inr () \<and> snd (pwreset_guess L email x w) = advance (fst x) w"
    if "\<not> armed ?ck (advance (fst x) w)" unfolding guess using that by simp
  show "fst (pwreset_guess L email x w) \<noteq> Inr () \<and> redis (snd (pwreset_guess L email x w)) ?ck = None"
    if "armed ?ck (advance (fst x) w)" "PWRESET_MAX_ATTEMPTS \<le> counter_value ?ak w"
    unfolding guess using that by (simp add: redis_drop_def)
  show "if fst (pwreset_guess L email x w) = Inr () then redis (snd (pwreset_guess L email x w)) ?ck = None
      else snd (pwreset_guess L email x w) = bumped ?ak (advance (fst x) w)"
    if "armed ?ck (advance (fst x) w)" "counter_value ?ak w < PWRESET_MAX_ATTEMPTS"
    unfolding guess using that by (simp add: redis_drop_def)
qed

lemma pwreset_covers_stored:
  "counter_covers (pwreset_codeKey userId) (pwreset_attemptsKey userId)
     (mail_queued E m (pwreset_stored L userId code w))"
proof -
  let ?w = "w\<lparr>rng := Suc (rng w)\<rparr>"
  have "counter_covers (pwreset_codeKey userId) (pwreset_attemptsKey userId)
      (redis_put (pwreset_attemptsKey userId) (show_int 0) (Some PWRESET_TTL_SECONDS)
         (redis_put (pwreset_codeKey userId) (sha256Hex L code) (Some PWRESET_TTL_SECONDS) ?w))"
    by (rule counter_covers_issue) (simp_all add: pwreset_consts)
  then show ?thesis
    unfolding pwreset_stored_def
    by (rule counter_covers_cong [THEN iffD2, rotated 3]) (simp_all add: redis_put_def)
qed

lemma pwreset_counter_stored:
  "counter_value (pwreset_attemptsKey userId) (mail_queued E m (pwreset_stored L userId code w)) = 0"
  by (simp add: counter_value_def pwreset_stored_def redis_put_def)

lemma keeps_db_pwreset [keeps]:
  "all_steps keeps_db (pwreset_request L E e)" "all_steps keeps_db (pwreset_reset L e c p)"
  unfolding pwreset_request_def pwreset_reset_def generateCode_def
  by (auto intro!: all_steps_intros all_steps_draw keeps simp: db_ok_cong [where w' = "_\<lparr>rng := _\<rparr>"]
      split: option.splits)

subsection \<open>Properties\<close>

text \<open>A reset request never says whether the address belongs to an account: with the services
  answering, the response is the same for every address, and no user or session changes.\<close>

theorem request_reveals_nothing:
  assumes "pg w = Up" "rd w = Up" "mail_ok E w"
  shows "fst (run (pwreset_request L E email) w) = Inr () \<and>
    users (snd (run (pwreset_request L E email) w)) = users w \<and>
    refreshTokens (snd (run (pwreset_request L E email) w)) = refreshTokens w"
  unfolding run_pwreset_request [OF assms]
  by (simp add: pwreset_stored_def split: option.split)

theorem request_reveals_nothing_witness:
  "fst (run (pwreset_request demo_lib demo_env ''alice@example.com'') demo_world) =
   fst (run (pwreset_request demo_lib demo_env ''nobody@example.com'') demo_world)"
  using request_reveals_nothing [of demo_world demo_env demo_lib "''alice@example.com''"]
    request_reveals_nothing [of demo_world demo_env demo_lib "''nobody@example.com''"] by simp

lemma pwreset_requestedD:
  assumes "pg w = Up" "rd w = Up" "mail_ok E w" "find (active_email email) (users w) = Some u"
    "redis_look w (pwreset_cooldownKey (u_id u)) = None"
  shows "snd (run (pwreset_request L E email) w) =
    mail_queued E (passwordResetCodeEmail E email (code_of_u32 (rand_u32 L (rng w))))
      (pwreset_stored L (u_id u) (code_of_u32 (rand_u32 L (rng w))) w)"
  using assms by (simp add: run_pwreset_request)

lemma pwreset_stored_frames [simp]:
  "rd (pwreset_stored L u c w) = rd w" "pg (pwreset_stored L u c w) = pg w" "clock (pwreset_stored L u c w) = clock w"
  "users (pwreset_stored L u c w) = users w" "refreshTokens (pwreset_stored L u c w) = refreshTokens w"
  by (simp_all add: pwreset_stored_def)

lemma pwreset_stored_look:
  assumes "0 \<le> d"
  shows "redis_look (advance d (mail_queued E m (pwreset_stored L u c w))) (pwreset_codeKey u) =
      (if d < 900000 then Some (sha256 L c) else None)"
  using assms by (simp add: redis_look_def pwreset_stored_def redis_put_def pwreset_consts sha256Hex_def)

text \<open>C20. Against one issued reset code, of any number of guesses at any times at most the first
  five can succeed, and at most one does.\<close>

theorem reset_guesses_bounded:
  fixes L :: lib and E :: env and email :: string
  assumes "pg w = Up" "rd w = Up" "mail_ok E w" "find (active_email email) (users w) = Some u"
    "redis_look w (pwreset_cooldownKey (u_id u)) = None"
  defines "w' \<equiv> snd (run (pwreset_request L E email) w)"
  assumes "list_all (\<lambda>x. 0 \<le> fst x) xs" "i < length xs" "guesses (pwreset_guess L email) xs w' ! i = Inr ()"
  shows "i < 5 \<and> (\<forall>j < length xs. guesses (pwreset_guess L email) xs w' ! j = Inr () \<longrightarrow> j = i)"
proof -
  note w' = pwreset_requestedD [OF assms(1-5), of L, folded w'_def]
  have fine: "pwreset_sound email (u_id u) w' \<and>
      counter_covers (pwreset_codeKey (u_id u)) (pwreset_attemptsKey (u_id u)) w'"
    and zero: "counter_value (pwreset_attemptsKey (u_id u)) w' = 0"
    using assms(1-4) by (simp_all add: w' pwreset_covers_stored pwreset_counter_stored pwreset_sound_def)
  have "i < PWRESET_MAX_ATTEMPTS" using pwreset.within_limit [OF fine assms(7-9)] zero by simp
  moreover have "j = i" if "j < length xs" "guesses (pwreset_guess L email) xs w' ! j = Inr ()" for j
    using pwreset.single_use [OF fine assms(7), of i j] pwreset.single_use [OF fine assms(7), of j i] that assms(8,9)
    by (cases i j rule: linorder_cases) auto
  ultimately show ?thesis by (simp add: pwreset_consts)
qed

lemma pwreset_first_guess:
  fixes L :: lib and E :: env and email :: string and w :: world
  defines "c \<equiv> code_of_u32 (rand_u32 L (rng w))" and "v \<equiv> snd (run (pwreset_request L E email) w)"
  assumes "pg w = Up" "rd w = Up" "mail_ok E w" "find (active_email email) (users w) = Some u"
    "redis_look w (pwreset_cooldownKey (u_id u)) = None" "0 \<le> d" "d < 900000" "sha256 L c \<noteq> []"
  shows "pwreset_guess L email (d, c, pw) v =
    (Inr (), reset_done L (u_id u) pw (redis_drop (pwreset_attemptsKey (u_id u))
       (redis_drop (pwreset_codeKey (u_id u)) (bumped (pwreset_attemptsKey (u_id u)) (advance d v)))))"
proof -
  let ?ck = "pwreset_codeKey (u_id u)" and ?ak = "pwreset_attemptsKey (u_id u)"
  note v = pwreset_requestedD [OF assms(3-7), of L, folded v_def c_def]
  have sound: "pwreset_sound email (u_id u) v" and cov: "counter_covers ?ck ?ak v"
    and zero: "counter_value ?ak v = 0"
    using assms(3-6) by (simp_all add: v pwreset_covers_stored pwreset_counter_stored pwreset_sound_def)
  have look: "redis_look (advance d v) ?ck = Some (sha256 L c)"
    unfolding v pwreset_stored_look [OF assms(8)] using assms(9) by simp
  show ?thesis
    using pwreset_guess_cases [OF sound cov, of "(d, c, pw)" L] look zero assms(8,10)
    by (simp add: truthy_str_iff pwreset_consts sha256Hex_def)
qed

lemma reset_mail:
  "m_to (passwordResetCodeEmail E to code) = to"
  "m_text (passwordResetCodeEmail E to code) = ''Your password reset code is '' @ code @
     ''. It expires in 15 minutes. If you didn't request this, ignore this email.''"
  by (simp_all add: passwordResetCodeEmail_def)

lemma pwreset_mailed:
  assumes "pg w = Up" "rd w = Up" "mail_ok E w" "find (active_email email) (users w) = Some u"
    "redis_look w (pwreset_cooldownKey (u_id u)) = None"
  shows "newest_mail E (snd (run (pwreset_request L E email) w)) =
    Some (passwordResetCodeEmail E email (code_of_u32 (rand_u32 L (rng w))))"
  unfolding pwreset_requestedD [OF assms]
  by (rule newest_mail_queued) (use assms(2,3) in \<open>simp_all add: pwreset_stored_def\<close>)

text \<open>C21. The mailed code resets the password: after a request for a registered address the newest mail
  goes to that address and its text carries a code of six decimal digits, and a reset with this code
  within fifteen minutes succeeds. Afterwards the new password is accepted and every other one refused,
  no session of the account is left, and the sessions of the other accounts are untouched.\<close>

theorem reset_outcome:
  fixes L :: lib and E :: env and email newPassword :: string and d :: int and w :: world
  assumes "pg w = Up" "rd w = Up" "mail_ok E w" "find (active_email email) (users w) = Some u"
    "redis_look w (pwreset_cooldownKey (u_id u)) = None" "argon2_ok L" "0 \<le> d" "d < 15 * 60 * 1000"
    "\<forall>s. sha256 L s \<noteq> []"
  defines "w0 \<equiv> snd (run (pwreset_request L E email) w)"
  shows "\<exists>c m w2. length c = 6 \<and> list_all is_digit c \<and> newest_mail E w0 = Some m \<and> m_to m = email \<and>
    m_text m = ''Your password reset code is '' @ c @
      ''. It expires in 15 minutes. If you didn't request this, ignore this email.'' \<and>
    run (pwreset_reset L email c newPassword) (advance d w0) = (Inr (), w2) \<and>
    (\<exists>v. u_id v = u_id u \<and> (\<forall>attempt. fst (run (verifyCredentials L email attempt) w2) =
       (if attempt = newPassword then Inr v else Inl invalid_credentials))) \<and>
    refreshTokens w2 = filter (\<lambda>r. rt_userId r \<noteq> u_id u) (refreshTokens w)"
proof (intro exI conjI allI)
  let ?c = "code_of_u32 (rand_u32 L (rng w))" and ?ck = "pwreset_codeKey (u_id u)"
    and ?ak = "pwreset_attemptsKey (u_id u)"
  note v = pwreset_requestedD [OF assms(1-5), of L, folded w0_def]
  show "length ?c = 6" "list_all is_digit ?c" by (simp_all add: code_of_u32_length code_of_u32_digits)
  show "newest_mail E w0 = Some (passwordResetCodeEmail E email ?c)"
    unfolding w0_def by (rule pwreset_mailed [OF assms(1-5)])
  show "m_to (passwordResetCodeEmail E email ?c) = email"
    "m_text (passwordResetCodeEmail E email ?c) = ''Your password reset code is '' @ ?c @
      ''. It expires in 15 minutes. If you didn't request this, ignore this email.''"
    by (simp_all add: reset_mail)
  define w2 where "w2 = reset_done L (u_id u) newPassword (redis_drop ?ak (redis_drop ?ck (bumped ?ak (advance d w0))))"
  have "pwreset_guess L email (d, ?c, newPassword) w0 = (Inr (), w2)"
    unfolding w2_def w0_def using assms(1-9) by (intro pwreset_first_guess) simp_all
  then show "run (pwreset_reset L email ?c newPassword) (advance d w0) = (Inr (), w2)"
    by (simp add: pwreset_guess_def)
  have up: "pg w2 = Up" using assms(1) by (simp add: w2_def reset_done_def v)
  show "refreshTokens w2 = filter (\<lambda>r. rt_userId r \<noteq> u_id u) (refreshTokens w)"
    by (simp add: w2_def reset_done_def v)
  let ?u = "set_user (clock w2) (\<lambda>u. u\<lparr>u_passwordHash := argon2_hash L (rng (advance d w0)) newPassword\<rparr>) u"
  show "u_id ?u = u_id u" by (simp add: set_user_def)
  have "find (active_email email) (users w2) = Some ?u"
    using assms(4) by (simp add: w2_def reset_done_def v find_active_email_update safe_user_update_def)
  then show "fst (run (verifyCredentials L email attempt) w2) =
      (if attempt = newPassword then Inr ?u else Inl invalid_credentials)" for attempt
    using run_verifyCredentials(1) [OF up, of L email attempt] assms(6)
    by (simp add: argon2_ok_def set_user_def)
qed

theorem reset_outcome_witness:
  "\<exists>c m w2. newest_mail demo_env (snd (run (pwreset_request demo_lib demo_env ''alice@example.com'') demo_world)) = Some m \<and>
     m_text m = ''Your password reset code is '' @ c @
       ''. It expires in 15 minutes. If you didn't request this, ignore this email.'' \<and>
     run (pwreset_reset demo_lib ''alice@example.com'' c ''new-password'')
       (advance 5000 (snd (run (pwreset_request demo_lib demo_env ''alice@example.com'') demo_world))) = (Inr (), w2)"
proof -
  have "\<forall>s. sha256 demo_lib s \<noteq> []" by (simp add: demo_lib_def)
  from reset_outcome [OF _ _ _ _ _ _ _ _ this, of demo_world demo_env "''alice@example.com''" demo_user 5000 "''new-password''"]
  show ?thesis by (simp add: active_email_def redis_look_def) blast
qed

theorem reset_guesses_bounded_witness:
  "guesses (pwreset_guess demo_lib ''alice@example.com'') [(5000, ''000000'', ''new-password''), (1, ''000000'', ''other'')]
     (snd (run (pwreset_request demo_lib demo_env ''alice@example.com'') demo_world)) ! 1 \<noteq> Inr ()"
proof -
  let ?w = "snd (run (pwreset_request demo_lib demo_env ''alice@example.com'') demo_world)"
  let ?xs = "[(5000, ''000000'', ''new-password''), (1, ''000000'', ''other'')] :: (int \<times> string \<times> string) list"
  have "find (active_email ''alice@example.com'') (users demo_world) = Some demo_user"
    by (simp add: active_email_def)
  moreover have "fst (run (pwreset_reset demo_lib ''alice@example.com'' ''000000'' ''new-password'') (advance 5000 ?w)) = Inr ()"
    using pwreset_first_guess [of demo_world demo_env "''alice@example.com''" demo_user 5000 demo_lib "''new-password''"]
    by (simp add: active_email_def redis_look_def demo_code pwreset_guess_def) (simp add: demo_lib_def)
  ultimately show ?thesis
    using reset_guesses_bounded [where w = demo_world and E = demo_env and email = "''alice@example.com''"
        and u = demo_user and L = demo_lib and xs = ?xs and i = 0]
    by (auto simp: redis_look_def pwreset_guess_def dest: spec [of _ 1])
qed

subsection \<open>The attempt limit and unknown addresses\<close>

text \<open>The answers to resets for one address with a sequence of codes.\<close>

fun reset_answers :: "lib \<Rightarrow> string \<Rightarrow> string \<Rightarrow> string list \<Rightarrow> world \<Rightarrow> (exn + unit) list" where
  "reset_answers L email pw [] w = []"
| "reset_answers L email pw (c # cs) w =
     (case run (pwreset_reset L email c pw) w of (r, w') \<Rightarrow> r # reset_answers L email pw cs w')"

lemma reset_answers_unknown:
  "pg w = Up \<Longrightarrow> rd w = Up \<Longrightarrow> find (active_email email) (users w) = None \<Longrightarrow>
   reset_answers L email pw cs w = replicate (length cs) (Inl reset_invalid)"
  by (induction cs) (simp_all add: run_pwreset_reset)

lemma reset_answers_known:
  assumes "pg w = Up" "rd w = Up" "find (active_email email) (users w) = Some u"
    "redis_look w (pwreset_codeKey (u_id u)) = Some h" "h \<noteq> []"
    "redis_look w (pwreset_attemptsKey (u_id u)) = Some (show_int n)"
    "\<forall>c \<in> set (cs @ [c]). sha256Hex L c \<noteq> h" "n + int (length cs) = 5"
  shows "reset_answers L email pw (cs @ [c]) w = replicate (length cs) (Inl reset_invalid) @ [Inl too_many_attempts]"
  using assms
proof (induction cs arbitrary: w n)
  case Nil
  then show ?case by (simp add: run_pwreset_reset Let_def pwreset_consts)
next
  case (Cons b cs)
  let ?w = "redis_keep_ttl (pwreset_attemptsKey (u_id u)) (show_int (n + 1)) w"
  have "run (pwreset_reset L email b pw) w = (Inl reset_invalid, ?w)"
    using Cons.prems by (simp add: run_pwreset_reset Let_def pwreset_consts)
  moreover have "reset_answers L email pw (cs @ [c]) ?w =
      replicate (length cs) (Inl reset_invalid) @ [Inl too_many_attempts]"
    using Cons.prems by (intro Cons.IH [of ?w "n + 1"]) simp_all
  ultimately show ?case by simp
qed

text \<open>C40. The answers of the reset route tell a registered address from an unknown one: with a code
  pending, the sixth wrong code for the account is answered with "too many attempts", while for an
  unknown address every answer is the common one.\<close>

theorem reset_limit_reveals_account:
  assumes "pg w = Up" "rd w = Up" "find (active_email email) (users w) = Some u"
    "redis_look w (pwreset_codeKey (u_id u)) = Some h" "h \<noteq> []"
    "redis_look w (pwreset_attemptsKey (u_id u)) = Some (show_int 0)"
    "\<forall>c \<in> set cs. sha256Hex L c \<noteq> h" "length cs = 6" "find (active_email unknown) (users w) = None"
  shows "last (reset_answers L email pw cs w) = Inl too_many_attempts \<and>
    too_many_attempts \<noteq> reset_invalid \<and>
    reset_answers L unknown pw cs w = replicate 6 (Inl reset_invalid)"
proof -
  obtain ds c where cs: "cs = ds @ [c]" "length ds = 5"
    using assms(8) by (cases cs rule: rev_cases) auto
  have "reset_answers L email pw (ds @ [c]) w = replicate (length ds) (Inl reset_invalid) @ [Inl too_many_attempts]"
    using assms cs by (intro reset_answers_known [OF assms(1-6)]) simp_all
  moreover have "too_many_attempts \<noteq> reset_invalid"
    by (simp add: too_many_attempts_def reset_invalid_def bad_request_def app_error_defs)
  ultimately show ?thesis using assms cs by (simp add: reset_answers_unknown)
qed

theorem reset_limit_reveals_account_witness:
  "last (reset_answers demo_lib ''alice@example.com'' ''x'' (replicate 6 ''999999'')
      (demo_world\<lparr>redis := [pwreset_codeKey ''alice'' \<mapsto> (''h000000'', None), pwreset_attemptsKey ''alice'' \<mapsto> (show_int 0, None)]\<rparr>)) =
    Inl too_many_attempts"
  using reset_limit_reveals_account [of "demo_world\<lparr>redis := [pwreset_codeKey ''alice'' \<mapsto> (''h000000'', None), pwreset_attemptsKey ''alice'' \<mapsto> (show_int 0, None)]\<rparr>"
      "''alice@example.com''" demo_user "''h000000''" "replicate 6 ''999999''" demo_lib "''bob@example.com''" "''x''"]
  by (simp add: active_email_def redis_look_def)

end
