(* ===== verification/Totp.thy ===== *)
theory Totp
  imports Otp
begin

text \<open>
  Two-factor authentication, \<open>TotpService\<close> (\<open>src/modules/auth/totp.service.ts\<close>): enrolment, the
  login challenge with its bounded guesses, and the memory of the last accepted counter.
\<close>

definition PERIOD_SECONDS :: int where "PERIOD_SECONDS = 30"
definition CHALLENGE_TTL_SECONDS :: int where "CHALLENGE_TTL_SECONDS = 5 * 60"
definition MFA_MAX_ATTEMPTS :: nat where "MFA_MAX_ATTEMPTS = 5"

definition challengeKey :: "string \<Rightarrow> string" where
  "challengeKey tokenHash = ''mfa:login:'' @ tokenHash"

definition mfa_attemptsKey :: "string \<Rightarrow> string" where
  "mfa_attemptsKey tokenHash = ''mfa:login:attempts:'' @ tokenHash"

definition lastCounterKey :: "string \<Rightarrow> string" where
  "lastCounterKey userId = ''totp:last:'' @ userId"

lemmas totp_consts = PERIOD_SECONDS_def CHALLENGE_TTL_SECONDS_def MFA_MAX_ATTEMPTS_def

subsection \<open>Codes\<close>

definition buildTotp :: "env \<Rightarrow> string \<Rightarrow> string \<Rightarrow> totp" where
  "buildTotp E secretBase32 label =
     \<lparr>tt_issuer = APP_NAME E, tt_label = label, tt_algorithm = ''SHA1'', tt_digits = 6,
      tt_period = PERIOD_SECONDS, tt_secret = secretBase32\<rparr>"

text \<open>The library reads the clock for its window, the caller once more for the counter.\<close>

definition validateCode :: "lib \<Rightarrow> env \<Rightarrow> string \<Rightarrow> string \<Rightarrow> (world, int option) prog" where
  "validateCode L E secretBase32 code =
     bnd now (\<lambda>t.
     case totp_validate L (buildTotp E secretBase32 ''account'') code 1 t of
       None \<Rightarrow> Ret None
     | Some delta \<Rightarrow> bnd now (\<lambda>t'. Ret (Some (t' div (1000 * PERIOD_SECONDS) + delta))))"

text \<open>The outcome at one instant.\<close>

definition counter_at :: "lib \<Rightarrow> env \<Rightarrow> string \<Rightarrow> string \<Rightarrow> int \<Rightarrow> int option" where
  "counter_at L E secretBase32 code t =
     map_option (\<lambda>delta. t div (1000 * PERIOD_SECONDS) + delta)
       (totp_validate L (buildTotp E secretBase32 ''account'') code 1 t)"

lemma run_validateCode [run_simps]:
  "run (validateCode L E s c) w = (Inr (counter_at L E s c (clock w)), w)"
  by (simp add: validateCode_def counter_at_def run_simps split: option.splits)

definition findActiveUser :: "string \<Rightarrow> (world, user option) prog" where
  "findActiveUser userId = select_user (\<lambda>u. u_id u = userId \<and> notDeleted u)"

subsection \<open>Enrolment\<close>

definition unauthorized :: exn where
  "unauthorized = App (UnauthorizedError None)"

definition setup_totp :: "lib \<Rightarrow> env \<Rightarrow> string \<Rightarrow> (world, string \<times> string) prog" where
  "setup_totp L E userId =
     bnd (findActiveUser userId) (\<lambda>found.
     case found of
       None \<Rightarrow> Throw unauthorized
     | Some u \<Rightarrow>
         if u_totpEnabledAt u \<noteq> None then Throw (bad_request ''Two-factor auth is already enabled'')
         else
           bnd (draw (\<lambda>i. base32 L (rand_bytes L i 20))) (\<lambda>secret.
           sequ (update_users (\<lambda>v. u_id v = userId) (\<lambda>v. v\<lparr>u_totpSecret := Some secret\<rparr>))
           (Ret (secret, totp_uri L (buildTotp E secret (u_email u))))))"

definition enable_totp :: "lib \<Rightarrow> env \<Rightarrow> string \<Rightarrow> string \<Rightarrow> (world, unit) prog" where
  "enable_totp L E userId code =
     bnd (findActiveUser userId) (\<lambda>found.
     case found of
       None \<Rightarrow> Throw unauthorized
     | Some u \<Rightarrow>
         if u_totpEnabledAt u \<noteq> None then Throw (bad_request ''Two-factor auth is already enabled'')
         else if \<not> truthy_str (u_totpSecret u) then Throw (bad_request ''Run 2FA setup before enabling'')
         else
           bnd (validateCode L E (the (u_totpSecret u)) code) (\<lambda>c.
           if c = None then Throw (bad_request ''Invalid code'')
           else
             bnd now (\<lambda>t.
             sequ (update_users (\<lambda>v. u_id v = userId) (\<lambda>v. v\<lparr>u_totpEnabledAt := Some t\<rparr>))
             (recordAudit L (audit_plain ''auth.2fa_enabled'' (Some userId) ''user'' userId)))))"

definition disable_totp :: "lib \<Rightarrow> env \<Rightarrow> string \<Rightarrow> string \<Rightarrow> (world, unit) prog" where
  "disable_totp L E userId code =
     bnd (findActiveUser userId) (\<lambda>found.
     case found of
       None \<Rightarrow> Throw unauthorized
     | Some u \<Rightarrow>
         if u_totpEnabledAt u = None \<or> \<not> truthy_str (u_totpSecret u)
         then Throw (bad_request ''Two-factor auth is not enabled'')
         else
           bnd (validateCode L E (the (u_totpSecret u)) code) (\<lambda>c.
           if c = None then Throw (bad_request ''Invalid code'')
           else
             sequ (update_users (\<lambda>v. u_id v = userId)
               (\<lambda>v. v\<lparr>u_totpSecret := None, u_totpEnabledAt := None\<rparr>))
             (recordAudit L (audit_plain ''auth.2fa_disabled'' (Some userId) ''user'' userId))))"

subsection \<open>The login challenge\<close>

definition createLoginChallenge :: "lib \<Rightarrow> string \<Rightarrow> (world, string) prog" where
  "createLoginChallenge L userId =
     bnd (randomToken L 32) (\<lambda>mfaToken.
     let hash = sha256Hex L mfaToken in
     sequ (cache_set (challengeKey hash) userId (Some CHALLENGE_TTL_SECONDS))
    (sequ (cache_set (mfa_attemptsKey hash) ''0'' (Some CHALLENGE_TTL_SECONDS))
     (Ret mfaToken)))"

definition mfa_error :: "string \<Rightarrow> exn" where
  "mfa_error m = App (UnauthorizedError (Some m))"

definition mfa_invalid :: exn where
  "mfa_invalid = mfa_error ''Invalid or expired MFA challenge''"

definition mfa_too_many :: exn where
  "mfa_too_many = mfa_error (''Too many attempts '' @ em_dash @ '' log in again to get a new challenge'')"

text \<open>\<open>last !== null && Number(last) >= counter\<close>; the key only ever holds a decimal integer.\<close>

definition already_used :: "string option \<Rightarrow> int \<Rightarrow> bool" where
  "already_used seen counter \<longleftrightarrow> (case Option.bind seen parse_int of
      None \<Rightarrow> False
    | Some n \<Rightarrow> n \<ge> counter)"

definition consumeLoginChallenge :: "lib \<Rightarrow> env \<Rightarrow> string \<Rightarrow> string \<Rightarrow> (world, user) prog" where
  "consumeLoginChallenge L E mfaToken code =
     (let hash = sha256Hex L mfaToken in
     bnd (cache_get (challengeKey hash)) (\<lambda>stored.
     if \<not> truthy_str stored then Throw mfa_invalid
     else let userId = the stored in
       bnd (cache_incr (mfa_attemptsKey hash)) (\<lambda>attempts.
       if attempts > int MFA_MAX_ATTEMPTS then
         sequ (cache_del (challengeKey hash)) (Throw mfa_too_many)
       else
         bnd (findActiveUser userId) (\<lambda>found.
         case found of
           None \<Rightarrow> Throw mfa_invalid
         | Some u \<Rightarrow>
             if \<not> truthy_str (u_totpSecret u) \<or> u_totpEnabledAt u = None then Throw mfa_invalid
             else
               bnd (validateCode L E (the (u_totpSecret u)) code) (\<lambda>c.
               case c of
                 None \<Rightarrow> Throw (mfa_error ''Invalid code'')
               | Some counter \<Rightarrow>
                   bnd (cache_get (lastCounterKey userId)) (\<lambda>seen.
                   if already_used seen counter then Throw (mfa_error ''Code already used'')
                   else
                     sequ (cache_set (lastCounterKey userId) (show_int counter) (Some (PERIOD_SECONDS * 3)))
                    (sequ (cache_del (challengeKey hash))
                    (sequ (cache_del (mfa_attemptsKey hash))
                     (Ret u)))))))))"

lemma mfa_keys [simp, key_simps]:
  "challengeKey h \<noteq> mfa_attemptsKey h" "mfa_attemptsKey h \<noteq> challengeKey h"
  "challengeKey h \<noteq> lastCounterKey u" "lastCounterKey u \<noteq> challengeKey h"
  "mfa_attemptsKey h \<noteq> lastCounterKey u" "lastCounterKey u \<noteq> mfa_attemptsKey h"
  unfolding challengeKey_def mfa_attemptsKey_def lastCounterKey_def
  by (auto dest: arg_cong [where f = length])

subsection \<open>Execution\<close>

definition challenge_stored :: "lib \<Rightarrow> string \<Rightarrow> string \<Rightarrow> world \<Rightarrow> world" where
  "challenge_stored L userId tok w =
     redis_put (mfa_attemptsKey (sha256Hex L tok)) (show_int 0) (Some CHALLENGE_TTL_SECONDS)
       (redis_put (challengeKey (sha256Hex L tok)) userId (Some CHALLENGE_TTL_SECONDS) (w\<lparr>rng := Suc (rng w)\<rparr>))"

lemma run_createLoginChallenge [run_simps]:
  "rd w = Up \<Longrightarrow> run (createLoginChallenge L userId) w =
     (Inr (base64url (rand_bytes L (rng w) 32)),
      challenge_stored L userId (base64url (rand_bytes L (rng w) 32)) w)"
  by (simp add: createLoginChallenge_def randomToken_def Let_def run_simps totp_consts
      challenge_stored_def zero_text)

text \<open>The checks on the account, the code and its counter, at one instant.\<close>

definition mfa_check :: "lib \<Rightarrow> env \<Rightarrow> string \<Rightarrow> string \<Rightarrow> world \<Rightarrow> exn + user \<times> int" where
  "mfa_check L E userId code w =
     (case find (\<lambda>u. u_id u = userId \<and> notDeleted u) (users w) of
       None \<Rightarrow> Inl mfa_invalid
     | Some u \<Rightarrow>
         if \<not> truthy_str (u_totpSecret u) \<or> u_totpEnabledAt u = None then Inl mfa_invalid
         else (case counter_at L E (the (u_totpSecret u)) code (clock w) of
             None \<Rightarrow> Inl (mfa_error ''Invalid code'')
           | Some c \<Rightarrow>
               if already_used (redis_look w (lastCounterKey userId)) c
               then Inl (mfa_error ''Code already used'')
               else Inr (u, c)))"

definition mfa_done :: "lib \<Rightarrow> string \<Rightarrow> string \<Rightarrow> int \<Rightarrow> world \<Rightarrow> world" where
  "mfa_done L tok userId c w =
     redis_drop (mfa_attemptsKey (sha256Hex L tok)) (redis_drop (challengeKey (sha256Hex L tok))
       (redis_put (lastCounterKey userId) (show_int c) (Some (PERIOD_SECONDS * 3)) w))"

lemma run_consumeLoginChallenge:
  assumes "pg w = Up" "rd w = Up"
  shows "run (consumeLoginChallenge L E tok code) w =
    (let h = sha256Hex L tok; ck = challengeKey h; ak = mfa_attemptsKey h in
     if \<not> armed ck w then (Inl mfa_invalid, w)
     else (case redis_INCR ak w of (r, w1) \<Rightarrow> (case r of
        Inl e \<Rightarrow> (Inl e, w1)
      | Inr n \<Rightarrow>
          if n > int MFA_MAX_ATTEMPTS then (Inl mfa_too_many, redis_drop ck w1)
          else (case mfa_check L E (the (redis_look w ck)) code w1 of
              Inl e \<Rightarrow> (Inl e, w1)
            | Inr (u, c) \<Rightarrow> (Inr u, mfa_done L tok (the (redis_look w ck)) c w1)))))"
proof -
  let ?h = "sha256Hex L tok"
  obtain r w1 where incr: "redis_INCR (mfa_attemptsKey ?h) w = (r, w1)" by fastforce
  then have up: "rd w1 = Up" "pg w1 = Up" using assms redis_INCR_frames(4,5) by (metis snd_conv)+
  show ?thesis
  proof (cases r)
    case (Inl e)
    with incr assms show ?thesis by (simp add: consumeLoginChallenge_def Let_def run_simps)
  next
    case (Inr n)
    with incr assms up show ?thesis
      by (simp add: consumeLoginChallenge_def Let_def run_simps mfa_check_def findActiveUser_def
          mfa_done_def totp_consts split: option.splits)
  qed
qed

subsection \<open>Bounded guessing\<close>

definition mfa_guess :: "lib \<Rightarrow> env \<Rightarrow> string \<Rightarrow> int \<times> string \<Rightarrow> world \<Rightarrow> (exn + user) \<times> world" where
  "mfa_guess L E tok x w = run (consumeLoginChallenge L E tok (snd x)) (advance (fst x) w)"

lemma mfa_guess_cases:
  fixes w :: world and L :: lib and tok :: string and x :: "int \<times> string"
  defines "ck \<equiv> challengeKey (sha256Hex L tok)" and "ak \<equiv> mfa_attemptsKey (sha256Hex L tok)"
    and "w' \<equiv> advance (fst x) w"
  assumes "pg w = Up" "rd w = Up" "counter_covers ck ak w" "0 \<le> fst x"
  shows "mfa_guess L E tok x w =
    (if \<not> armed ck w' then (Inl mfa_invalid, w')
     else if MFA_MAX_ATTEMPTS \<le> counter_value ak w then (Inl mfa_too_many, redis_drop ck (bumped ak w'))
     else (case mfa_check L E (the (redis_look w' ck)) (snd x) (bumped ak w') of
         Inl e \<Rightarrow> (Inl e, bumped ak w')
       | Inr (u, c) \<Rightarrow> (Inr u, mfa_done L tok (the (redis_look w' ck)) c (bumped ak w'))))"
proof -
  have up: "pg w' = Up" "rd w' = Up" and cov: "counter_covers ck ak w'"
    using assms by (simp_all add: counter_covers_advance)
  have "redis_INCR ak w' = (Inr (int (counter_value ak w) + 1), bumped ak w')" if "armed ck w'"
    using incr_covered [OF cov that] by (simp add: w'_def)
  then show ?thesis
    unfolding mfa_guess_def w'_def [symmetric] run_consumeLoginChallenge [OF up]
    by (simp add: ck_def ak_def Let_def split: sum.split)
qed

lemma mfa_done_frames [simp]:
  "users (mfa_done L t i c w) = users w" "pg (mfa_done L t i c w) = pg w"
  "rd (mfa_done L t i c w) = rd w" "clock (mfa_done L t i c w) = clock w"
  by (simp_all add: mfa_done_def)

interpretation mfa: counted_code "mfa_guess L E tok" fst "\<lambda>r. \<not> isl r"
  "challengeKey (sha256Hex L tok)" "mfa_attemptsKey (sha256Hex L tok)" MFA_MAX_ATTEMPTS
  "\<lambda>w. pg w = Up \<and> rd w = Up"
  for L E tok
proof
  let ?ck = "challengeKey (sha256Hex L tok)" and ?ak = "mfa_attemptsKey (sha256Hex L tok)"
  let ?g = "mfa_guess L E tok"
  show "?ck \<noteq> ?ak" by simp
  fix w and x :: "int \<times> string"
  assume up: "pg w = Up \<and> rd w = Up" and cov: "counter_covers ?ck ?ak w" and d: "0 \<le> fst x"
  note guess = mfa_guess_cases [OF conjunct1 [OF up] conjunct2 [OF up] cov d, of E]
  show "pg (snd (?g x w)) = Up \<and> rd (snd (?g x w)) = Up"
    unfolding guess using up by (simp split: sum.splits)
  show "\<not> \<not> isl (fst (?g x w)) \<and> snd (?g x w) = advance (fst x) w"
    if "\<not> armed ?ck (advance (fst x) w)" unfolding guess using that by simp
  show "\<not> \<not> isl (fst (?g x w)) \<and> redis (snd (?g x w)) ?ck = None"
    if "armed ?ck (advance (fst x) w)" "MFA_MAX_ATTEMPTS \<le> counter_value ?ak w"
    unfolding guess using that by (simp add: redis_drop_def)
  show "if \<not> isl (fst (?g x w)) then redis (snd (?g x w)) ?ck = None
      else snd (?g x w) = bumped ?ak (advance (fst x) w)"
    if "armed ?ck (advance (fst x) w)" "counter_value ?ak w < MFA_MAX_ATTEMPTS"
    unfolding guess using that by (simp add: mfa_done_def redis_drop_def split: sum.splits)
qed

lemma challenge_covers_stored:
  "counter_covers (challengeKey (sha256Hex L tok)) (mfa_attemptsKey (sha256Hex L tok)) (challenge_stored L i tok w)"
  unfolding challenge_stored_def by (rule counter_covers_issue) (simp_all add: totp_consts)

lemma challenge_counter_stored: "counter_value (mfa_attemptsKey (sha256Hex L tok)) (challenge_stored L i tok w) = 0"
  by (simp add: counter_value_def challenge_stored_def redis_put_def)

subsection \<open>The last accepted counter\<close>

text \<open>
  \<open>remembers userId c w\<close>: for as long as the code of counter \<open>c\<close> is inside the window of the
  library, the marker refuses every counter up to \<open>c\<close>.
\<close>

definition remembers :: "string \<Rightarrow> int \<Rightarrow> world \<Rightarrow> bool" where
  "remembers userId c w \<longleftrightarrow> (\<forall>t \<ge> clock w. t < (c + 2) * (1000 * PERIOD_SECONDS) \<longrightarrow>
     (\<exists>m \<ge> c. live_at t (redis w (lastCounterKey userId)) = Some (show_int m)))"

lemma remembers_frame:
  "remembers userId c w \<Longrightarrow> clock w \<le> clock w' \<Longrightarrow>
   redis w' (lastCounterKey userId) = redis w (lastCounterKey userId) \<Longrightarrow> remembers userId c w'"
  by (simp add: remembers_def)

lemma counter_at_window:
  assumes "totp_ok L" "counter_at L E s code t = Some c"
  shows "t div (1000 * PERIOD_SECONDS) - 1 \<le> c" "c \<le> t div (1000 * PERIOD_SECONDS) + 1"
proof -
  obtain d where d: "totp_validate L (buildTotp E s ''account'') code 1 t = Some d"
    "c = t div (1000 * PERIOD_SECONDS) + d"
    using assms(2) by (auto simp: counter_at_def)
  with assms(1) have "- 1 \<le> d \<and> d \<le> 1" unfolding totp_ok_def by blast
  with d show "t div (1000 * PERIOD_SECONDS) - 1 \<le> c" "c \<le> t div (1000 * PERIOD_SECONDS) + 1" by simp_all
qed

text \<open>Marking an accepted counter: the marker outlives every moment its code could be accepted again.\<close>

lemma marker_remembers:
  assumes "totp_ok L" "counter_at L E s code (clock w) = Some c" "d \<le> c"
  shows "remembers userId d (redis_put (lastCounterKey userId) (show_int c) (Some (PERIOD_SECONDS * 3)) w)"
proof -
  let ?p = "1000 * PERIOD_SECONDS"
  have "c \<le> clock w div ?p + 1" using counter_at_window(2) [OF assms(1,2)] .
  then have "(d + 2) * ?p \<le> (clock w div ?p + 3) * ?p" using assms(3) by (simp add: totp_consts)
  also have "\<dots> \<le> clock w + 3 * ?p" by (simp add: totp_consts)
  finally show ?thesis
    using assms(3) by (auto simp: remembers_def redis_put_def totp_consts)
qed

lemma remembered_refused:
  assumes "totp_ok L" "remembers userId c w" "counter_at L E s code (clock w) = Some c'"
    "\<not> already_used (redis_look w (lastCounterKey userId)) c'"
  shows "c < c'"
proof (cases "clock w < (c + 2) * (1000 * PERIOD_SECONDS)")
  case True
  with assms(2) obtain m where "c \<le> m" "redis_look w (lastCounterKey userId) = Some (show_int m)"
    by (auto simp: remembers_def redis_look_def)
  with assms(4) show ?thesis by (simp add: already_used_def)
next
  case False
  then have "c + 2 \<le> clock w div (1000 * PERIOD_SECONDS)" by (simp add: totp_consts zdiv_mono1)
  with counter_at_window(1) [OF assms(1,3)] show ?thesis by simp
qed

text \<open>
  The world with the list of accepted logins (account and counter): a challenge is presented with a
  code and refused or accepted, or anything else happens that leaves the markers alone.
\<close>

inductive mfa_step :: "lib \<Rightarrow> env \<Rightarrow> world \<times> (string \<times> int) list \<Rightarrow> world \<times> (string \<times> int) list \<Rightarrow> bool"
  for L E where
  refused: "pg w = Up \<Longrightarrow> rd w = Up \<Longrightarrow> run (consumeLoginChallenge L E tok code) w = (Inl e, w') \<Longrightarrow>
    mfa_step L E (w, h) (w', h)"
| accepted: "pg w = Up \<Longrightarrow> rd w = Up \<Longrightarrow> run (consumeLoginChallenge L E tok code) w = (Inr u, w') \<Longrightarrow>
    counter_at L E (the (u_totpSecret u)) code (clock w) = Some c \<Longrightarrow>
    mfa_step L E (w, h) (w', h @ [(u_id u, c)])"
| other: "clock w \<le> clock w' \<Longrightarrow> \<forall>i. redis w' (lastCounterKey i) = redis w (lastCounterKey i) \<Longrightarrow>
    mfa_step L E (w, h) (w', h)"

lemma redis_INCR_other: "k' \<noteq> k \<Longrightarrow> redis (snd (redis_INCR k w)) k' = redis w k'"
  by (auto simp: redis_INCR_def redis_keep_ttl_def split: option.splits)

lemma consume_refused_frame:
  assumes up: "pg w = Up" "rd w = Up" and r: "run (consumeLoginChallenge L E tok code) w = (Inl e, w')"
  shows "clock w' = clock w \<and> redis w' (lastCounterKey i) = redis w (lastCounterKey i)"
proof (cases "redis_INCR (mfa_attemptsKey (sha256Hex L tok)) w")
  case (Pair a w1)
  then have "w1 = snd (redis_INCR (mfa_attemptsKey (sha256Hex L tok)) w)" by simp
  then have "clock w1 = clock w" "redis w1 (lastCounterKey i) = redis w (lastCounterKey i)"
    by (simp_all add: redis_INCR_other)
  with r Pair show ?thesis
    unfolding run_consumeLoginChallenge [OF up]
    by (auto simp: Let_def redis_drop_def split: if_splits sum.splits prod.splits)
qed

text \<open>What an accepted login went through.\<close>

lemma consume_acceptedD:
  assumes up: "pg w = Up" "rd w = Up" and r: "run (consumeLoginChallenge L E tok code) w = (Inr u, w')"
  obtains c w1 where "counter_at L E (the (u_totpSecret u)) code (clock w) = Some c"
    "\<not> already_used (redis_look w1 (lastCounterKey (u_id u))) c"
    "clock w1 = clock w" "\<And>i. redis w1 (lastCounterKey i) = redis w (lastCounterKey i)"
    "w' = mfa_done L tok (u_id u) c w1" "find (\<lambda>v. u_id v = u_id u \<and> notDeleted v) (users w) = Some u"
    "u_totpEnabledAt u \<noteq> None" "truthy_str (u_totpSecret u)"
    "redis_look w (challengeKey (sha256Hex L tok)) = Some (u_id u)" "users w1 = users w"
proof -
  let ?ck = "challengeKey (sha256Hex L tok)" and ?ak = "mfa_attemptsKey (sha256Hex L tok)"
  obtain a w1 where incr: "redis_INCR ?ak w = (a, w1)" by fastforce
  then have w1: "w1 = snd (redis_INCR ?ak w)" by simp
  let ?i = "the (redis_look w ?ck)"
  from r incr obtain c where *: "armed ?ck w" "mfa_check L E ?i code w1 = Inr (u, c)"
    "w' = mfa_done L tok ?i c w1"
    unfolding run_consumeLoginChallenge [OF up]
    by (auto simp: Let_def split: if_splits sum.splits)
  then have found: "find (\<lambda>v. u_id v = ?i \<and> notDeleted v) (users w1) = Some u"
    and rest: "truthy_str (u_totpSecret u)" "u_totpEnabledAt u \<noteq> None"
      "counter_at L E (the (u_totpSecret u)) code (clock w1) = Some c"
      "\<not> already_used (redis_look w1 (lastCounterKey ?i)) c"
    by (auto simp: mfa_check_def split: option.splits if_splits)
  have i: "u_id u = ?i" using find_Some_set [OF found] by simp
  have frames: "clock w1 = clock w" "users w1 = users w" by (simp_all add: w1 redis_INCR_def split: option.splits)
  show thesis
  proof (rule that [of c w1])
    show "redis_look w ?ck = Some (u_id u)" using *(1) i by (auto simp: truthy_str_iff)
    show "find (\<lambda>v. u_id v = u_id u \<and> notDeleted v) (users w) = Some u"
      using found unfolding frames i [symmetric] .
    show "redis w1 (lastCounterKey j) = redis w (lastCounterKey j)" for j
      by (simp add: w1 redis_INCR_other)
  qed (use *(3) rest frames i in simp_all)
qed

definition mfa_inv :: "world \<times> (string \<times> int) list \<Rightarrow> bool" where
  "mfa_inv s \<longleftrightarrow> (\<forall>x \<in> set (snd s). remembers (fst x) (snd x) (fst s)) \<and>
     sorted_wrt (\<lambda>x y. fst x = fst y \<longrightarrow> snd x < snd y) (snd s)"

lemma remembers_done:
  assumes "totp_ok L" "counter_at L E s code (clock w1) = Some c" "remembers i d w1" "i = j \<longrightarrow> d < c"
  shows "remembers i d (mfa_done L tok j c w1)"
proof -
  let ?put = "redis_put (lastCounterKey j) (show_int c) (Some (PERIOD_SECONDS * 3)) w1"
  have "remembers i d ?put"
  proof (cases "i = j")
    case True
    with assms marker_remembers show ?thesis by simp
  next
    case False
    then have "lastCounterKey i \<noteq> lastCounterKey j" by (simp add: lastCounterKey_def)
    with assms(3) show ?thesis by (auto intro: remembers_frame simp: redis_put_def)
  qed
  then show ?thesis by (rule remembers_frame) (simp_all add: mfa_done_def redis_drop_def)
qed

lemma marker_self:
  assumes "totp_ok L" "counter_at L E s code (clock w1) = Some c"
  shows "remembers j c (mfa_done L tok j c w1)"
proof -
  have "remembers j c (redis_put (lastCounterKey j) (show_int c) (Some (PERIOD_SECONDS * 3)) w1)"
    using marker_remembers [OF assms order_refl] .
  then show ?thesis by (rule remembers_frame) (simp_all add: mfa_done_def redis_drop_def)
qed

lemma mfa_inv_step:
  assumes L: "totp_ok L" and st: "mfa_step L E (w, h) (w', h')" and I: "mfa_inv (w, h)"
  shows "mfa_inv (w', h')"
  using st
proof (cases rule: mfa_step.cases)
  case (refused tok code e)
  with I consume_refused_frame show ?thesis by (fastforce simp: mfa_inv_def intro: remembers_frame)
next
  case other
  with I show ?thesis by (auto simp: mfa_inv_def intro: remembers_frame)
next
  case (accepted tok code u c)
  from accepted consume_acceptedD [of w L E tok code u w'] obtain w1 where
    w1: "\<not> already_used (redis_look w1 (lastCounterKey (u_id u))) c" "clock w1 = clock w"
      "\<And>i. redis w1 (lastCounterKey i) = redis w (lastCounterKey i)"
      "w' = mfa_done L tok (u_id u) c w1"
    by (metis option.inject)
  then have ca: "counter_at L E (the (u_totpSecret u)) code (clock w1) = Some c" using accepted by simp
  have old: "remembers (fst x) (snd x) w1" if "x \<in> set h" for x
    using I that w1(2,3) by (auto simp: mfa_inv_def intro: remembers_frame)
  have less: "snd x < c" if "x \<in> set h" "fst x = u_id u" for x
    using remembered_refused [OF L old [OF that(1), unfolded that(2)] ca w1(1)] .
  have "remembers (fst x) (snd x) w'" if "x \<in> set h" for x
    unfolding w1(4) using old [OF that] less [OF that] by (intro remembers_done [OF L ca]) auto
  moreover have "remembers (u_id u) c w'"
    unfolding w1(4) by (rule marker_self [OF L ca])
  ultimately show ?thesis
    using I less accepted by (auto simp: mfa_inv_def sorted_wrt_append)
qed

lemma mfa_inv_reach:
  assumes "totp_ok L" "(mfa_step L E)\<^sup>*\<^sup>* (w, []) s"
  shows "mfa_inv s"
  using assms(2)
proof (induction rule: rtranclp_induct)
  case base
  then show ?case by (simp add: mfa_inv_def)
next
  case (step y z)
  with mfa_inv_step [OF assms(1)] show ?case by (metis surj_pair)
qed

lemma keeps_db_totp [keeps]:
  "all_steps keeps_db (setup_totp L E u)" "all_steps keeps_db (enable_totp L E u c)"
  "all_steps keeps_db (disable_totp L E u c)" "all_steps keeps_db (createLoginChallenge L u)"
  "all_steps keeps_db (consumeLoginChallenge L E tok c)"
  unfolding setup_totp_def enable_totp_def disable_totp_def createLoginChallenge_def Let_def
    consumeLoginChallenge_def validateCode_def findActiveUser_def randomToken_def
  by (auto intro!: all_steps_intros all_steps_now all_steps_draw keeps
      simp: safe_user_update_def db_ok_cong [where w' = "_\<lparr>rng := _\<rparr>"] Let_def split: option.splits)

subsection \<open>Properties\<close>

text \<open>C15. A code is never accepted twice: whatever challenges are presented in whatever order, and
  whatever happens in between, the counters accepted for an account strictly increase. (The marker
  is kept for ninety seconds only, which is exactly as long as the code could come back.)\<close>

theorem accepted_counters_increase:
  assumes "totp_ok L" "(mfa_step L E)\<^sup>*\<^sup>* (w, []) (w', h)"
    "i < j" "j < length h" "fst (h ! i) = fst (h ! j)"
  shows "snd (h ! i) < snd (h ! j)"
proof -
  have "sorted_wrt (\<lambda>x y. fst x = fst y \<longrightarrow> snd x < snd y) h"
    using mfa_inv_reach [OF assms(1,2)] by (simp add: mfa_inv_def)
  from sorted_wrt_nth_less [OF this assms(3,4)] assms(5) show ?thesis by simp
qed

text \<open>Against one login challenge, of any number of codes presented at any times at most the
  first five can succeed, and at most one does.\<close>

theorem challenge_bounded:
  fixes L :: lib and w :: world
  assumes "pg w = Up" "rd w = Up" "run (createLoginChallenge L userId) w = (Inr tok, w')"
    "list_all (\<lambda>x. 0 \<le> fst x) xs" "i < length xs" "\<not> isl (guesses (mfa_guess L E tok) xs w' ! i)"
  shows "i < 5 \<and> (\<forall>j < length xs. \<not> isl (guesses (mfa_guess L E tok) xs w' ! j) \<longrightarrow> j = i)"
proof -
  have w': "w' = challenge_stored L userId tok w"
    using assms(3) by (auto simp: run_createLoginChallenge [OF assms(2)])
  have fine: "(pg w' = Up \<and> rd w' = Up) \<and>
      counter_covers (challengeKey (sha256Hex L tok)) (mfa_attemptsKey (sha256Hex L tok)) w'"
    and zero: "counter_value (mfa_attemptsKey (sha256Hex L tok)) w' = 0"
    using assms(1,2) by (simp_all add: w' challenge_covers_stored challenge_counter_stored)
       (simp_all add: challenge_stored_def)
  have "i < MFA_MAX_ATTEMPTS" using mfa.within_limit [OF fine assms(4-6)] zero by simp
  moreover have "j = i" if "j < length xs" "\<not> isl (guesses (mfa_guess L E tok) xs w' ! j)" for j
    using mfa.single_use [OF fine assms(4), of i j] mfa.single_use [OF fine assms(4), of j i] that assms(5,6)
    by (cases i j rule: linorder_cases) auto
  ultimately show ?thesis by (simp add: totp_consts)
qed

text \<open>C17. The second step of a login succeeds only for an active account with 2FA enabled, a live
  challenge of that account and a code inside the window whose counter is past the last one accepted;
  it returns that account, records the counter as used and spends the challenge.\<close>

theorem second_factor_sound:
  assumes "pg w = Up" "rd w = Up" "run (consumeLoginChallenge L E tok code) w = (Inr u, w')"
  shows "u \<in> set (users w) \<and> u_deletedAt u = None \<and> u_totpEnabledAt u \<noteq> None \<and>
    redis_look w (challengeKey (sha256Hex L tok)) = Some (u_id u) \<and>
    (\<exists>c. counter_at L E (the (u_totpSecret u)) code (clock w) = Some c \<and>
       \<not> already_used (redis_look w (lastCounterKey (u_id u))) c \<and>
       already_used (redis_look w' (lastCounterKey (u_id u))) c) \<and>
    redis_look w' (challengeKey (sha256Hex L tok)) = None \<and> users w' = users w"
proof -
  from consume_acceptedD [OF assms] obtain c w1 where
    *: "counter_at L E (the (u_totpSecret u)) code (clock w) = Some c"
    "w' = mfa_done L tok (u_id u) c w1" "find (\<lambda>v. u_id v = u_id u \<and> notDeleted v) (users w) = Some u"
    "u_totpEnabledAt u \<noteq> None" "redis_look w (challengeKey (sha256Hex L tok)) = Some (u_id u)"
    "users w1 = users w" "\<not> already_used (redis_look w1 (lastCounterKey (u_id u))) c"
    "clock w1 = clock w" "\<And>i. redis w1 (lastCounterKey i) = redis w (lastCounterKey i)" by blast
  have "u \<in> set (users w)" "u_deletedAt u = None"
    using find_Some_set [OF *(3)] by (simp_all add: notDeleted_def)
  moreover have "redis_look w' (challengeKey (sha256Hex L tok)) = None" by (simp add: *(2) mfa_done_def)
  moreover have "redis_look w1 (lastCounterKey (u_id u)) = redis_look w (lastCounterKey (u_id u))"
    by (simp add: redis_look_def *(8,9))
  moreover have "already_used (redis_look w' (lastCounterKey (u_id u))) c"
    by (simp add: *(2) mfa_done_def already_used_def totp_consts)
  ultimately show ?thesis using *(1,2,4-7) by simp
qed

definition mfa_user :: user where
  "mfa_user = demo_user\<lparr>u_totpSecret := Some ''SECRET'', u_totpEnabledAt := Some 1\<rparr>"

text \<open>Two challenges for one account, and a code for each of two periods.\<close>

definition mfa_world :: world where
  "mfa_world = demo_world\<lparr>users := [mfa_user],
     redis := (\<lambda>_. None)(challengeKey ''hA'' \<mapsto> (''alice'', Some 300000),
                         challengeKey ''hB'' \<mapsto> (''alice'', Some 300000))\<rparr>"

lemma demo_counter: "counter_at demo_lib E s code t = (case parse_nat code of None \<Rightarrow> None | Some c \<Rightarrow>
   if - 1 \<le> int c - t div 30000 \<and> int c - t div 30000 \<le> 1 then Some (int c) else None)"
  by (simp add: counter_at_def demo_lib_def buildTotp_def totp_consts Let_def split: option.split)

lemma demo_codes: "parse_nat ''0'' = Some 0" "parse_nat ''2'' = Some 2"
  by code_simp+

lemma demo_keys: "challengeKey ''hA'' \<noteq> challengeKey ''hB''" "mfa_attemptsKey ''hA'' \<noteq> challengeKey ''hB''"
  "mfa_attemptsKey ''hB'' \<noteq> challengeKey ''hA''" "mfa_attemptsKey ''hB'' \<noteq> mfa_attemptsKey ''hA''"
  by (simp_all add: challengeKey_def mfa_attemptsKey_def)

lemmas mfa_eval =
  run_consumeLoginChallenge mfa_world_def redis_look_def Let_def mfa_user_def mfa_check_def demo_counter
  demo_codes notDeleted_def truthy_str_iff totp_consts already_used_def redis_INCR_def redis_keep_ttl_def
  demo_keys demo_keys [symmetric]

definition mfa_world_A :: world where
  "mfa_world_A = mfa_done demo_lib ''A'' ''alice'' 0 (redis_keep_ttl (mfa_attemptsKey ''hA'') (show_int 1) mfa_world)"

lemma mfa_login_A:
  "run (consumeLoginChallenge demo_lib demo_env ''A'' ''0'') mfa_world = (Inr mfa_user, mfa_world_A)"
  by (simp add: mfa_eval mfa_world_A_def)

lemma mfa_login_B:
  "\<exists>w. run (consumeLoginChallenge demo_lib demo_env ''B'' ''2'') (advance 60000 mfa_world_A) = (Inr mfa_user, w)"
  by (simp add: mfa_eval mfa_world_A_def mfa_done_def redis_drop_def redis_put_def)

lemma mfa_world_links [simp]: "pg mfa_world = Up" "rd mfa_world = Up" "pg mfa_world_A = Up" "rd mfa_world_A = Up"
  "clock mfa_world = 1000" "clock mfa_world_A = 1000"
  by (simp_all add: mfa_world_A_def) (simp_all add: mfa_world_def)

theorem accepted_counters_increase_witness:
  "\<exists>w' h. (mfa_step demo_lib demo_env)\<^sup>*\<^sup>* (mfa_world, []) (w', h) \<and> length h = 2 \<and>
     fst (h ! 0) = fst (h ! 1) \<and> snd (h ! 0) < snd (h ! 1)"
proof -
  obtain w where B: "run (consumeLoginChallenge demo_lib demo_env ''B'' ''2'') (advance 60000 mfa_world_A) = (Inr mfa_user, w)"
    using mfa_login_B by blast
  have "(mfa_step demo_lib demo_env)\<^sup>*\<^sup>* (mfa_world, []) (mfa_world_A, [] @ [(u_id mfa_user, 0)])"
    by (rule r_into_rtranclp, rule mfa_step.accepted [OF _ _ mfa_login_A]) (simp_all add: demo_counter demo_codes)
  also have "(mfa_step demo_lib demo_env)\<^sup>*\<^sup>* (mfa_world_A, [] @ [(u_id mfa_user, 0)])
      (advance 60000 mfa_world_A, [] @ [(u_id mfa_user, 0)])"
    by (rule r_into_rtranclp, rule mfa_step.other) simp_all
  also have "(mfa_step demo_lib demo_env)\<^sup>*\<^sup>* (advance 60000 mfa_world_A, [] @ [(u_id mfa_user, 0)])
      (w, ([] @ [(u_id mfa_user, 0)]) @ [(u_id mfa_user, 2)])"
    by (rule r_into_rtranclp, rule mfa_step.accepted [OF _ _ B]) (simp_all add: demo_counter demo_codes)
  finally have run: "(mfa_step demo_lib demo_env)\<^sup>*\<^sup>* (mfa_world, []) (w, [(u_id mfa_user, 0), (u_id mfa_user, 2)])"
    by simp
  from accepted_counters_increase [OF _ this, of 0 1] run show ?thesis
    by (intro exI [of _ w] exI [of _ "[(u_id mfa_user, 0), (u_id mfa_user, 2)]"]) simp
qed

theorem second_factor_sound_witness:
  "redis_look mfa_world_A (challengeKey (sha256Hex demo_lib ''A'')) = None \<and> u_totpEnabledAt mfa_user \<noteq> None"
  using second_factor_sound [OF _ _ mfa_login_A] by simp

definition mfa_token :: string where
  "mfa_token = base64url (rand_bytes demo_lib 0 32)"

lemma mfa_challenge:
  "run (createLoginChallenge demo_lib ''alice'') mfa_world = (Inr mfa_token, challenge_stored demo_lib ''alice'' mfa_token mfa_world)"
  by (simp add: run_createLoginChallenge mfa_token_def) (simp add: mfa_world_def)

theorem challenge_bounded_witness:
  "let gs = guesses (mfa_guess demo_lib demo_env mfa_token) [(1000, ''0''), (60000, ''2'')]
     (snd (run (createLoginChallenge demo_lib ''alice'') mfa_world)) in
   gs ! 0 = Inr mfa_user \<and> isl (gs ! 1)"
proof -
  let ?w = "challenge_stored demo_lib ''alice'' mfa_token mfa_world"
  let ?xs = "[(1000, ''0''), (60000, ''2'')] :: (int \<times> string) list"
  let ?gs = "guesses (mfa_guess demo_lib demo_env mfa_token) ?xs ?w"
  have "pg ?w = Up" "rd ?w = Up" "counter_value (mfa_attemptsKey (sha256Hex demo_lib mfa_token)) ?w = 0"
    "counter_covers (challengeKey (sha256Hex demo_lib mfa_token)) (mfa_attemptsKey (sha256Hex demo_lib mfa_token)) ?w"
    by (simp_all only: challenge_covers_stored challenge_counter_stored)
       (simp_all add: challenge_stored_def)
  then have "fst (mfa_guess demo_lib demo_env mfa_token (1000, ''0'') ?w) = Inr mfa_user"
    by (simp add: mfa_guess_cases challenge_stored_def redis_look_def redis_put_def totp_consts truthy_str_iff
        mfa_check_def mfa_world_def mfa_user_def notDeleted_def demo_counter demo_codes already_used_def bumped_def
        redis_keep_ttl_def)
  then have first: "?gs ! 0 = Inr mfa_user" by simp
  from challenge_bounded [OF _ _ mfa_challenge, of ?xs 0 demo_env] first
  have "\<forall>j < 2. \<not> isl (?gs ! j) \<longrightarrow> j = 0" by simp
  then have "isl (?gs ! 1)" by (auto dest: spec [of _ 1])
  with first show ?thesis by (simp add: mfa_challenge Let_def)
qed

end
