(* ===== verification/LibTime.thy ===== *)
theory LibTime
  imports JsErrors
begin

text \<open>
  \<open>src/lib/time.ts\<close>: the duration parser, and \<open>withDeadline\<close> as the machine of the promise it
  returns.
\<close>

subsection \<open>Durations\<close>

fun unit_ms :: "char \<Rightarrow> nat option" where
  "unit_ms c =
     (if c = CHR ''s'' then Some 1000
      else if c = CHR ''m'' then Some 60000
      else if c = CHR ''h'' then Some 3600000
      else if c = CHR ''d'' then Some 86400000
      else None)"

text \<open>
  \<open>/^(\d+)([smhd])$/\<close> on the trimmed text: a last character that is a unit, before it one or more
  digits and nothing else. Values stay below \<open>2^53\<close> for any realistic text, so \<open>nat\<close> is what
  JavaScript's number computes.
\<close>

definition durationToMs :: "string \<Rightarrow> nat" where
  "durationToMs duration =
     (let s = trim duration in
      if s = [] then 0
      else (case (parse_nat (butlast s), unit_ms (last s)) of
              (Some v, Some u) \<Rightarrow> v * u
            | _ \<Rightarrow> 0))"

lemma is_space_not_digit: "is_digit c \<Longrightarrow> \<not> is_space c"
  by (auto simp: is_digit_def is_space_def)

lemma trim_number_unit:
  "unit_ms u \<noteq> None \<Longrightarrow> trim (show_nat n @ [u]) = show_nat n @ [u]"
proof (rule trim_no_space)
  assume "unit_ms u \<noteq> None"
  then have "\<not> is_space u" by (auto simp: is_space_def split: if_splits)
  then show "\<forall>c \<in> set (show_nat n @ [u]). \<not> is_space c"
    using show_nat_digits [of n] by (auto simp: list_all_iff dest: is_space_not_digit)
qed

lemma durationToMs_unit: "unit_ms u = Some k \<Longrightarrow> durationToMs (show_nat n @ [u]) = n * k"
  by (simp add: durationToMs_def trim_number_unit del: unit_ms.simps)

lemma durationToMs_positive_iff:
  "0 < durationToMs s \<longleftrightarrow>
     (\<exists>ds u v k. trim s = ds @ [u] \<and> parse_nat ds = Some v \<and> 0 < v \<and> unit_ms u = Some k)"
proof (cases "trim s" rule: rev_cases)
  case Nil
  then show ?thesis by (simp add: durationToMs_def)
next
  case (snoc ds u)
  have "unit_ms u = Some k \<Longrightarrow> 0 < k" for k by (auto split: if_splits)
  with snoc show ?thesis
    by (auto simp: durationToMs_def Let_def split: option.splits simp del: unit_ms.simps)
qed

subsection \<open>withDeadline\<close>

text \<open>
  The promise \<open>withDeadline(work, ms)\<close> sees two kinds of events: its timer, and \<open>work\<close> settling.
  Settling clears the timer; a promise keeps the first outcome it is given.
\<close>

datatype 'a deadline_event = TimerFires | WorkSettles "exn + 'a"

record 'a deadline =
  d_outcome :: "(exn + 'a) option"
  d_timer :: bool

definition deadline_start :: "'a deadline" where
  "deadline_start = \<lparr>d_outcome = None, d_timer = True\<rparr>"

definition settle :: "exn + 'a \<Rightarrow> 'a deadline \<Rightarrow> 'a deadline" where
  "settle r d = (case d_outcome d of None \<Rightarrow> d\<lparr>d_outcome := Some r\<rparr> | Some _ \<Rightarrow> d)"

fun deadline_step :: "int \<Rightarrow> 'a deadline \<Rightarrow> 'a deadline_event \<Rightarrow> 'a deadline" where
  "deadline_step ms d TimerFires =
     (if d_timer d
      then settle (Inl (Thrown (js_Error (''timed out after '' @ show_int ms @ ''ms'')))) (d\<lparr>d_timer := False\<rparr>)
      else d)"
| "deadline_step ms d (WorkSettles r) = settle r (d\<lparr>d_timer := False\<rparr>)"

definition withDeadline :: "int \<Rightarrow> 'a deadline_event list \<Rightarrow> 'a deadline" where
  "withDeadline ms evs = foldl (deadline_step ms) deadline_start evs"

lemma deadline_settled:
  "d_outcome d = Some r \<Longrightarrow> d_outcome (foldl (deadline_step ms) d evs) = Some r"
proof (induction evs arbitrary: d)
  case (Cons e evs)
  then have "d_outcome (deadline_step ms d e) = Some r"
    by (cases e) (auto simp: settle_def)
  with Cons.IH show ?case by simp
qed simp

lemma deadline_first:
  "d_outcome (withDeadline ms (e # evs)) =
     Some (case e of TimerFires \<Rightarrow> Inl (Thrown (js_Error (''timed out after '' @ show_int ms @ ''ms'')))
                   | WorkSettles r \<Rightarrow> r)"
proof -
  have "d_outcome (deadline_step ms deadline_start e) =
      Some (case e of TimerFires \<Rightarrow> Inl (Thrown (js_Error (''timed out after '' @ show_int ms @ ''ms'')))
                    | WorkSettles r \<Rightarrow> r)"
    by (cases e) (auto simp: deadline_start_def settle_def)
  from deadline_settled [OF this] show ?thesis by (simp add: withDeadline_def)
qed

lemma deadline_pending: "d_outcome (withDeadline ms []) = None"
  by (simp add: withDeadline_def deadline_start_def)

end
