(* ===== verification/AuthModule.thy ===== *)
theory AuthModule
  imports UserModule PasswordReset Totp LibTime
begin

text \<open>
  The \<open>/auth\<close> routes (\<open>src/modules/auth/index.ts\<close>): register, login, the MFA step, password
  reset, refresh, logout, email verification and 2FA enrolment, over the services of the other theories.
\<close>

subsection \<open>Issuing tokens\<close>

definition REFRESH_MS :: "env \<Rightarrow> int" where
  "REFRESH_MS E =
     (let ms = durationToMs (JWT_REFRESH_EXP E) in int (if ms \<noteq> 0 then ms else durationToMs ''7d''))"

lemma seven_days [simp]: "durationToMs ''7d'' = 604800000"
proof -
  have "show_nat 7 = ''7''" by code_simp
  then show ?thesis using durationToMs_unit [of "CHR ''d''" 86400000 7] by simp
qed

lemma REFRESH_MS_pos: "0 < REFRESH_MS E"
  by (simp add: REFRESH_MS_def Let_def)

definition REFRESH_MAX_AGE_S :: "env \<Rightarrow> int" where
  "REFRESH_MAX_AGE_S E = REFRESH_MS E div 1000"

record set_cookie =
  sc_value :: string
  sc_maxAge :: int
  sc_httpOnly :: bool
  sc_secure :: bool
  sc_sameSite :: string
  sc_path :: string

text \<open>A value and a lifetime with \<open>REFRESH_COOKIE_ATTRS\<close> spread in.\<close>

definition refresh_cookie :: "env \<Rightarrow> string \<Rightarrow> int \<Rightarrow> set_cookie" where
  "refresh_cookie E v maxAge = \<lparr>sc_value = v, sc_maxAge = maxAge, sc_httpOnly = True,
     sc_secure = isProduction E, sc_sameSite = ''strict'', sc_path = ''/auth''\<rparr>"

text \<open>The tokens in the body, and the cookie of the response.\<close>

record tokens =
  tk_access :: string
  tk_refresh :: "string option"
  tk_cookie :: "set_cookie option"

definition requireTrustedOrigin :: "env \<Rightarrow> request \<Rightarrow> (world, unit) prog" where
  "requireTrustedOrigin E req =
     (if AUTH_TRANSPORT E = CookieTransport
      then (case assertTrustedOrigin E req of Inl e \<Rightarrow> Throw e | Inr _ \<Rightarrow> Ret ())
      else Ret ())"

definition issueTokens :: "lib \<Rightarrow> env \<Rightarrow> string \<Rightarrow> role \<Rightarrow> string \<Rightarrow> (world, tokens) prog" where
  "issueTokens L E userId role familyId =
     bnd (signAccessToken L E \<lparr>ap_sub = userId, ap_role = role\<rparr>) (\<lambda>accessToken.
     bnd (randomToken L 32) (\<lambda>refreshToken.
     bnd now (\<lambda>t.
     sequ (storeRefreshToken L userId refreshToken (t + REFRESH_MS E) familyId)
     (Ret (if AUTH_TRANSPORT E = CookieTransport
           then \<lparr>tk_access = accessToken, tk_refresh = None,
                 tk_cookie = Some (refresh_cookie E refreshToken (REFRESH_MAX_AGE_S E))\<rparr>
           else \<lparr>tk_access = accessToken, tk_refresh = Some refreshToken, tk_cookie = None\<rparr>)))))"

record session =
  ss_tokens :: tokens
  ss_user :: public_user

text \<open>\<open>issueTokens(user, familyId, cookie)\<close> and the answer of every route that logs someone in.\<close>

definition log_in :: "lib \<Rightarrow> env \<Rightarrow> user \<Rightarrow> string \<Rightarrow> (world, session) prog" where
  "log_in L E u familyId =
     bnd (issueTokens L E (u_id u) (u_role u) familyId) (\<lambda>t.
     Ret \<lparr>ss_tokens = t, ss_user = toPublicUser u\<rparr>)"

subsection \<open>Credential routes\<close>

definition register :: "lib \<Rightarrow> env \<Rightarrow> request \<Rightarrow> string \<Rightarrow> string \<Rightarrow> string option \<Rightarrow> (world, session) prog" where
  "register L E req email password name =
     bnd (createUser L email password name) (\<lambda>u.
     sequ (recordAudit L \<lparr>ae_action = ''user.created'', ae_actorId = Some (u_id u), ae_targetType = Some ''user'',
        ae_targetId = Some (u_id u), ae_metadata = None, ae_ip = Some (clientIp E req)\<rparr>)
    (sequ (if REQUIRE_VERIFIED_EMAIL E
           then try_catch (otp_issue L E (u_id u) (u_email u)) (\<lambda>err. Ret ())
           else Ret ())
    (bnd (randomUUID L) (\<lambda>familyId. log_in L E u familyId))))"

datatype login_reply = LoggedIn session | MfaRequired string

definition login :: "lib \<Rightarrow> env \<Rightarrow> string \<Rightarrow> string \<Rightarrow> (world, login_reply) prog" where
  "login L E email password =
     bnd (verifyCredentials L email password) (\<lambda>u.
     if u_totpEnabledAt u \<noteq> None then
       bnd (createLoginChallenge L (u_id u)) (\<lambda>mfaToken. Ret (MfaRequired mfaToken))
     else
       bnd (randomUUID L) (\<lambda>familyId.
       bnd (log_in L E u familyId) (\<lambda>s. Ret (LoggedIn s))))"

definition twofa_verify :: "lib \<Rightarrow> env \<Rightarrow> string \<Rightarrow> string \<Rightarrow> (world, session) prog" where
  "twofa_verify L E mfaToken code =
     bnd (consumeLoginChallenge L E mfaToken code) (\<lambda>u.
     bnd (randomUUID L) (\<lambda>familyId. log_in L E u familyId))"

definition request_reset :: "lib \<Rightarrow> env \<Rightarrow> string \<Rightarrow> (world, unit) prog" where
  "request_reset L E email = pwreset_request L E email"

definition reset_password :: "lib \<Rightarrow> string \<Rightarrow> string \<Rightarrow> string \<Rightarrow> (world, unit) prog" where
  "reset_password L email code password = pwreset_reset L email code password"

subsection \<open>Refresh and logout\<close>

text \<open>\<open>(cookie mode ? refresh_token.value : undefined) ?? body?.refreshToken\<close>\<close>

definition presented :: "env \<Rightarrow> string option \<Rightarrow> string option \<Rightarrow> string option" where
  "presented E cookie body =
     (case (if AUTH_TRANSPORT E = CookieTransport then cookie else None) of
        None \<Rightarrow> body | Some t \<Rightarrow> Some t)"

definition refresh :: "lib \<Rightarrow> env \<Rightarrow> request \<Rightarrow> string option \<Rightarrow> string option \<Rightarrow> (world, session) prog" where
  "refresh L E req cookie body =
     sequ (requireTrustedOrigin E req)
     (if \<not> truthy_str (presented E cookie body)
      then Throw (App (UnauthorizedError (Some ''Missing refresh token'')))
      else
        bnd (useRefreshToken L (the (presented E cookie body))) (\<lambda>used.
        bnd (findById (rt_userId used)) (\<lambda>found.
        case found of
          None \<Rightarrow> Throw unauthorized
        | Some u \<Rightarrow> log_in L E u (rt_familyId used))))"

definition me :: "lib \<Rightarrow> env \<Rightarrow> string option \<Rightarrow> (world, public_user verdict) prog" where
  "me L E bearer =
     guarded (isAuthed L E AllowUnverified bearer) (\<lambda>user.
       bnd (findById (ap_sub user)) (\<lambda>found.
       case found of None \<Rightarrow> Throw unauthorized | Some u \<Rightarrow> Ret (toPublicUser u)))"

text \<open>The answer is the cookie the response clears, if any.\<close>

definition logout :: "lib \<Rightarrow> env \<Rightarrow> request \<Rightarrow> string option \<Rightarrow> string option \<Rightarrow> string option \<Rightarrow>
    (world, set_cookie option verdict) prog" where
  "logout L E req bearer cookie body =
     guarded (isAuthed L E AllowUnverified bearer) (\<lambda>user.
       sequ (requireTrustedOrigin E req)
       (if \<not> truthy_str (presented E cookie body) then Throw (bad_request ''refreshToken required'')
        else
          sequ (revokeRefreshToken L (the (presented E cookie body)))
          (Ret (if AUTH_TRANSPORT E = CookieTransport \<and> truthy_str cookie
                then Some (refresh_cookie E '''' 0) else None))))"

subsection \<open>Email verification and 2FA\<close>

definition request_otp :: "lib \<Rightarrow> env \<Rightarrow> string option \<Rightarrow> (world, unit verdict) prog" where
  "request_otp L E bearer =
     guarded (isAuthed L E AllowUnverified bearer) (\<lambda>user.
       bnd (findById (ap_sub user)) (\<lambda>found.
       case found of
         None \<Rightarrow> Throw unauthorized
       | Some u \<Rightarrow>
           if u_emailVerifiedAt u \<noteq> None then Throw (bad_request ''Email already verified'')
           else otp_issue L E (u_id u) (u_email u)))"

definition verify_email :: "lib \<Rightarrow> env \<Rightarrow> string option \<Rightarrow> string \<Rightarrow> (world, unit verdict) prog" where
  "verify_email L E bearer code =
     guarded (isAuthed L E AllowUnverified bearer) (\<lambda>user.
       bnd (otp_verify L (ap_sub user) code) (\<lambda>ok.
       if \<not> ok then Throw (bad_request ''Invalid or expired code'')
       else markEmailVerified (ap_sub user)))"

definition twofa_setup :: "lib \<Rightarrow> env \<Rightarrow> string option \<Rightarrow> (world, (string \<times> string) verdict) prog" where
  "twofa_setup L E bearer =
     guarded (isAuthed L E AuthedTrue bearer) (\<lambda>user. setup_totp L E (ap_sub user))"

definition twofa_enable :: "lib \<Rightarrow> env \<Rightarrow> string option \<Rightarrow> string \<Rightarrow> (world, unit verdict) prog" where
  "twofa_enable L E bearer code =
     guarded (isAuthed L E AuthedTrue bearer) (\<lambda>user. enable_totp L E (ap_sub user) code)"

definition twofa_disable :: "lib \<Rightarrow> env \<Rightarrow> string option \<Rightarrow> string \<Rightarrow> (world, unit verdict) prog" where
  "twofa_disable L E bearer code =
     guarded (isAuthed L E AuthedTrue bearer) (\<lambda>user. disable_totp L E (ap_sub user) code)"

subsection \<open>Every route keeps the constraints of the tables\<close>

lemma keeps_db_randomUUID [keeps]: "all_steps keeps_db (randomUUID L)" "all_steps keeps_db (randomToken L n)"
  unfolding randomUUID_def randomToken_def
  by (auto intro!: all_steps_draw simp: db_ok_cong [where w' = "_\<lparr>rng := _\<rparr>"])

lemma keeps_db_issueTokens [keeps]:
  "all_steps keeps_db (issueTokens L E i r f)" "all_steps keeps_db (log_in L E u f)"
  unfolding log_in_def issueTokens_def by (auto intro!: all_steps_intros all_steps_now keeps)

lemma keeps_db_requireTrustedOrigin [keeps]: "all_steps keeps_db (requireTrustedOrigin E req)"
  by (simp add: requireTrustedOrigin_def split: sum.split)

lemma keeps_db_auth_routes [keeps]:
  "all_steps keeps_db (register L E req e p n)" "all_steps keeps_db (login L E e p)"
  "all_steps keeps_db (twofa_verify L E tok c)" "all_steps keeps_db (request_reset L E e)"
  "all_steps keeps_db (reset_password L e c p)" "all_steps keeps_db (refresh L E req ck bd)"
  "all_steps keeps_db (me L E b)" "all_steps keeps_db (logout L E req b ck bd)"
  "all_steps keeps_db (request_otp L E b)" "all_steps keeps_db (verify_email L E b c)"
  "all_steps keeps_db (twofa_setup L E b)" "all_steps keeps_db (twofa_enable L E b c)"
  "all_steps keeps_db (twofa_disable L E b c)"
  unfolding register_def login_def twofa_verify_def request_reset_def reset_password_def refresh_def me_def
    logout_def request_otp_def verify_email_def twofa_setup_def twofa_enable_def twofa_disable_def
  by (auto intro!: all_steps_intros keeps split: option.split)

subsection \<open>Execution\<close>

text \<open>The refresh token the draw \<open>i\<close> mints, and the reply that hands it out.\<close>

definition minted :: "lib \<Rightarrow> nat \<Rightarrow> string" where
  "minted L i = base64url (rand_bytes L i 32)"

definition tokens_reply :: "lib \<Rightarrow> env \<Rightarrow> string \<Rightarrow> role \<Rightarrow> string \<Rightarrow> int \<Rightarrow> tokens" where
  "tokens_reply L E userId role refreshToken t =
     (let access = jwt_sign L (JWT_SECRET E) (access_claims userId (role_name role)) (t div 1000) (JWT_ACCESS_EXP E) in
      if AUTH_TRANSPORT E = CookieTransport
      then \<lparr>tk_access = access, tk_refresh = None,
            tk_cookie = Some (refresh_cookie E refreshToken (REFRESH_MAX_AGE_S E))\<rparr>
      else \<lparr>tk_access = access, tk_refresh = Some refreshToken, tk_cookie = None\<rparr>)"

text \<open>The row can be stored: the account exists, the hash fits, and hash and id are new.\<close>

definition mintable :: "lib \<Rightarrow> string \<Rightarrow> world \<Rightarrow> bool" where
  "mintable L userId w \<longleftrightarrow> userId \<in> u_id ` set (users w) \<and> length (sha256Hex L (minted L (rng w))) \<le> 512 \<and>
     sha256Hex L (minted L (rng w)) \<notin> rt_token ` set (refreshTokens w) \<and>
     uuid L (Suc (rng w)) \<notin> rt_id ` set (refreshTokens w)"

definition minted_row :: "lib \<Rightarrow> env \<Rightarrow> string \<Rightarrow> string \<Rightarrow> world \<Rightarrow> refresh_token" where
  "minted_row L E userId familyId w =
     \<lparr>rt_id = uuid L (Suc (rng w)), rt_token = sha256Hex L (minted L (rng w)), rt_userId = userId,
      rt_familyId = familyId, rt_usedAt = None, rt_expiresAt = clock w + REFRESH_MS E, rt_createdAt = clock w\<rparr>"

lemma run_issueTokens:
  assumes "pg w = Up" "mintable L userId w"
  shows "run (issueTokens L E userId role familyId) w =
    (Inr (tokens_reply L E userId role (minted L (rng w)) (clock w)),
     w\<lparr>refreshTokens := refreshTokens w @ [minted_row L E userId familyId w], rng := rng w + 2\<rparr>)"
proof -
  have "list_ex (\<lambda>u. u_id u = userId) (users w)"
    and "\<not> list_ex (\<lambda>s. rt_id s = uuid L (Suc (rng w)) \<or> rt_token s = sha256Hex L (minted L (rng w))) (refreshTokens w)"
    using assms(2) by (force simp: mintable_def list_ex_iff image_iff)+
  with assms show ?thesis
    by (simp add: issueTokens_def run_simps storeRefreshToken_def insert_token_row_def new_token_def
        mintable_def minted_def tokens_reply_def minted_row_def Let_def)
qed

lemma run_log_in:
  assumes "pg w = Up" "mintable L (u_id u) w"
  shows "run (log_in L E u familyId) w =
    (Inr \<lparr>ss_tokens = tokens_reply L E (u_id u) (u_role u) (minted L (rng w)) (clock w), ss_user = toPublicUser u\<rparr>,
     w\<lparr>refreshTokens := refreshTokens w @ [minted_row L E (u_id u) familyId w], rng := rng w + 2\<rparr>)"
  by (simp add: log_in_def run_simps run_issueTokens [OF assms])

definition origin_ok :: "env \<Rightarrow> request \<Rightarrow> bool" where
  "origin_ok E req \<longleftrightarrow> AUTH_TRANSPORT E = Bearer \<or> assertTrustedOrigin E req = Inr ()"

lemma run_requireTrustedOrigin [run_simps]:
  "origin_ok E req \<Longrightarrow> run (requireTrustedOrigin E req) w = (Inr (), w)"
  by (auto simp: origin_ok_def requireTrustedOrigin_def)

lemma run_refresh_ok:
  fixes L :: lib and E :: env and req :: request and w :: world and u :: user
  assumes "pg w = Up" "db_ok w" "origin_ok E req" "presented E cookie body = Some token" "token \<noteq> []"
    "find (\<lambda>r. rt_token r = sha256Hex L token) (refreshTokens w) = Some row" "rt_usedAt row = None"
    "clock w < rt_expiresAt row" "find (\<lambda>u. u_id u = rt_userId row \<and> notDeleted u) (users w) = Some u"
    "mintable L (u_id u) w"
  shows "run (refresh L E req cookie body) w =
    (Inr \<lparr>ss_tokens = tokens_reply L E (u_id u) (u_role u) (minted L (rng w)) (clock w), ss_user = toPublicUser u\<rparr>,
     w\<lparr>refreshTokens := map (\<lambda>r. if rt_token r = sha256Hex L token then r\<lparr>rt_usedAt := Some (clock w)\<rparr> else r)
          (refreshTokens w) @ [minted_row L E (u_id u) (rt_familyId row) w],
        rng := rng w + 2\<rparr>)"
proof -
  have u: "tokens_unique (refreshTokens w)" using assms(2) by (simp add: db_ok_def)
  let ?w = "claim (sha256Hex L token) w"
  have use: "run (useRefreshToken L token) w = (Inr (claimed_row w row), ?w)"
    using assms(6-8) by (simp add: run_useRefreshToken [OF assms(1) u])
  have up: "pg ?w = Up" "users ?w = users w" "rng ?w = rng w" "clock ?w = clock w"
    using assms(1) by (simp_all add: claim_def)
  have "map rt_token (refreshTokens ?w) = map rt_token (refreshTokens w)"
    "map rt_id (refreshTokens ?w) = map rt_id (refreshTokens w)"
    by (auto simp: claim_def claimed_row_def)
  then have "rt_token ` set (refreshTokens ?w) = rt_token ` set (refreshTokens w)"
    "rt_id ` set (refreshTokens ?w) = rt_id ` set (refreshTokens w)"
    by (metis list.set_map)+
  with assms(10) up have "mintable L (u_id u) ?w" by (simp add: mintable_def)
  from run_log_in [OF up(1) this, of E "rt_familyId row"]
  have log: "run (log_in L E u (rt_familyId row)) ?w =
      (Inr \<lparr>ss_tokens = tokens_reply L E (u_id u) (u_role u) (minted L (rng w)) (clock w), ss_user = toPublicUser u\<rparr>,
       ?w\<lparr>refreshTokens := refreshTokens ?w @ [minted_row L E (u_id u) (rt_familyId row) w], rng := rng w + 2\<rparr>)"
    using up by (simp add: minted_row_def)
  have find: "run (findById (rt_userId row)) ?w = (Inr (Some u), ?w)"
    using assms(9) up by (simp add: run_find)
  show ?thesis
    using assms(3-5) use log find
    by (simp add: refresh_def run_simps truthy_str_iff claimed_row_def) (simp add: claim_def claimed_row_def)
qed

subsection \<open>Properties\<close>

text \<open>C9. A refresh with a stored, unused, unexpired token of an active account answers with an
  access token for it and a new refresh token (in cookie mode in an httpOnly cookie only): the
  presented row is marked used, one unused row of the same family with the configured lifetime is
  added, and nothing else changes. Presenting the old token once more is refused as reuse and leaves
  no token of the family.\<close>

theorem refresh_rotates:
  fixes L :: lib and E :: env and req :: request and w :: world and u :: user
  assumes "pg w = Up" "db_ok w" "origin_ok E req" "presented E cookie body = Some token" "token \<noteq> []"
    "find (\<lambda>r. rt_token r = sha256Hex L token) (refreshTokens w) = Some row" "rt_usedAt row = None"
    "clock w < rt_expiresAt row" "find (\<lambda>u. u_id u = rt_userId row \<and> notDeleted u) (users w) = Some u"
    "mintable L (u_id u) w"
  defines "w' \<equiv> snd (run (refresh L E req cookie body) w)"
  shows "fst (run (refresh L E req cookie body) w) =
      Inr \<lparr>ss_tokens = tokens_reply L E (u_id u) (u_role u) (minted L (rng w)) (clock w), ss_user = toPublicUser u\<rparr> \<and>
    users w' = users w \<and>
    refreshTokens w' = map (\<lambda>r. if r = row then r\<lparr>rt_usedAt := Some (clock w)\<rparr> else r) (refreshTokens w) @
      [\<lparr>rt_id = uuid L (Suc (rng w)), rt_token = sha256Hex L (minted L (rng w)), rt_userId = u_id u,
        rt_familyId = rt_familyId row, rt_usedAt = None, rt_expiresAt = clock w + REFRESH_MS E,
        rt_createdAt = clock w\<rparr>] \<and>
    fst (run (refresh L E req cookie body) w') = Inl token_reuse \<and>
    (\<forall>r \<in> set (refreshTokens (snd (run (refresh L E req cookie body) w'))). rt_familyId r \<noteq> rt_familyId row)"
proof -
  have u: "tokens_unique (refreshTokens w)" using assms(2) by (simp add: db_ok_def)
  have row: "row \<in> set (refreshTokens w)" "rt_token row = sha256Hex L token" using find_Some_set [OF assms(6)] by simp_all
  have same: "map (\<lambda>r. if rt_token r = sha256Hex L token then f r else r) (refreshTokens w) =
      map (\<lambda>r. if r = row then f r else r) (refreshTokens w)" for f
  proof (rule map_cong [OF refl])
    fix r assume r: "r \<in> set (refreshTokens w)"
    have "(rt_token r = sha256Hex L token) = (r = row)" using tokens_unique_token [OF u r row(1)] row(2) by metis
    then show "(if rt_token r = sha256Hex L token then f r else r) = (if r = row then f r else r)" by simp
  qed
  note res = run_refresh_ok [OF assms(1-10)]
  have rts: "refreshTokens w' = map (\<lambda>r. if rt_token r = sha256Hex L token then r\<lparr>rt_usedAt := Some (clock w)\<rparr> else r)
      (refreshTokens w) @ [minted_row L E (u_id u) (rt_familyId row) w]"
    and up: "pg w' = Up" and us: "users w' = users w" using assms(1) res by (simp_all add: w'_def)
  have ok: "db_ok w'"
    unfolding w'_def by (rule run_all_steps_inv [OF keeps_db_auth_routes(6) assms(2)])
  let ?used = "row\<lparr>rt_usedAt := Some (clock w)\<rparr>"
  have "?used \<in> set (refreshTokens w')" using row by (auto simp: rts)
  from find_token [OF _ this] ok row(2)
  have "find (\<lambda>r. rt_token r = sha256Hex L token) (refreshTokens w') = Some ?used" by (simp add: db_ok_def)
  then have "run (useRefreshToken L token) w' = (Inl token_reuse, after_audit L (reuse_entry ?used) (burn_family (rt_familyId row) w'))"
    using ok by (simp add: run_useRefreshToken [OF up] db_ok_def)
  then have "run (refresh L E req cookie body) w' = (Inl token_reuse, after_audit L (reuse_entry ?used) (burn_family (rt_familyId row) w'))"
    using assms(3-5) by (simp add: refresh_def run_simps truthy_str_iff)
  then show ?thesis using res rts us by (simp add: same minted_row_def burn_family_def)
qed

text \<open>C12. Login alone never lets an account with 2FA in: a session, or any change to the refresh
  tokens, comes only out of the right password of an active account that has no second factor.\<close>

theorem login_respects_second_factor:
  assumes "pg w = Up" "run (login L E email password) w = (r, w')"
    "refreshTokens w' \<noteq> refreshTokens w \<or> (\<exists>s. r = Inr (LoggedIn s))"
  shows "\<exists>u \<in> set (users w). active_email email u \<and> argon2_verify L password (u_passwordHash u) \<and>
     u_totpEnabledAt u = None"
proof (rule ccontr)
  assume no: "\<not> ?thesis"
  obtain rv v where v: "run (verifyCredentials L email password) w = (rv, v)" by fastforce
  have res: "rv = (case find (active_email email) (users w) of None \<Rightarrow> Inl invalid_credentials
      | Some u \<Rightarrow> if argon2_verify L password (u_passwordHash u) then Inr u else Inl invalid_credentials)"
    and rts: "refreshTokens v = refreshTokens w"
    using run_verifyCredentials(1,3) [OF assms(1), of L email password] v by simp_all
  show False
  proof (cases rv)
    case (Inl e)
    with v rts assms(2,3) show False by (auto simp: login_def run_simps)
  next
    case (Inr u)
    with res have u: "find (active_email email) (users w) = Some u" "argon2_verify L password (u_passwordHash u)"
      by (auto split: option.splits if_splits)
    with no find_Some_set [OF u(1)] have "u_totpEnabledAt u \<noteq> None" by auto
    moreover have "refreshTokens (snd (run (createLoginChallenge L i) v)) = refreshTokens v" for i
      by (simp add: createLoginChallenge_def Let_def run_simps cache_defs run_over_link redis_put_def totp_consts
          split: link.split)
    ultimately show False
      using v rts assms(2,3) Inr
      by (auto simp: login_def run_simps split: prod.splits sum.splits)
         (metis snd_conv)+
  qed
qed

text \<open>A registration goes through while Redis is down, verification mail or not.\<close>

theorem registration_survives_redis_outage:
  fixes L :: lib and E :: env and w :: world
  assumes "pg w = Up" "rd w = Down" "\<not> list_ex (active_email email) (users w)"
    "user_fits (registered L email password name w)"
    "\<forall>n. uuid L n \<notin> u_id ` set (users w) \<union> rt_id ` set (refreshTokens w)"
    "\<forall>n. length (sha256Hex L (minted L n)) \<le> 512 \<and> sha256Hex L (minted L n) \<notin> rt_token ` set (refreshTokens w)"
  shows "\<exists>s. fst (run (register L E req email password name) w) = Inr s \<and>
    ss_user s = toPublicUser (registered L email password name w)"
proof -
  let ?u = "registered L email password name w"
  let ?w1 = "w\<lparr>users := users w @ [?u], rng := rng w + 2\<rparr>"
  have create: "run (createUser L email password name) w = (Inr ?u, ?w1)"
    using assms(1,3,4,5) by (auto simp: run_createUser)
  let ?e = "\<lparr>ae_action = ''user.created'', ae_actorId = Some (u_id ?u), ae_targetType = Some ''user'',
        ae_targetId = Some (u_id ?u), ae_metadata = None, ae_ip = Some (clientIp E req)\<rparr>"
  let ?w2 = "after_audit L ?e ?w1"
  have otp: "run (if REQUIRE_VERIFIED_EMAIL E then try_catch (otp_issue L E (u_id ?u) (u_email ?u)) (\<lambda>err. Ret ())
      else Ret ()) ?w2 = (Inr (), ?w2)"
    using assms(2) by (simp add: otp_issue_def run_simps cache_defs run_over_link)
  let ?w3 = "?w2\<lparr>rng := Suc (rng ?w2)\<rparr>"
  have "mintable L (u_id ?u) ?w3" using assms(5,6) by (simp add: mintable_def)
  with assms(1) have "run (log_in L E ?u (uuid L (rng ?w2))) ?w3 =
    (Inr \<lparr>ss_tokens = tokens_reply L E (u_id ?u) (u_role ?u) (minted L (rng ?w3)) (clock ?w3), ss_user = toPublicUser ?u\<rparr>,
     ?w3\<lparr>refreshTokens := refreshTokens ?w3 @ [minted_row L E (u_id ?u) (uuid L (rng ?w2)) ?w3], rng := rng ?w3 + 2\<rparr>)"
    by (intro run_log_in) simp_all
  with create otp show ?thesis
    by (simp add: register_def run_simps)
qed

lemma demo_minted: "length (minted demo_lib i) = 43"
  by (simp add: minted_def randomToken_length)

lemma demo_minted_new: "CHR ''h'' # minted demo_lib i \<notin> {''hnew'', ''hold''}"
  using demo_minted [of i] by (auto dest: arg_cong [where f = length])

lemma demo_uuid [simp]: "uuid demo_lib i = CHR ''u'' # show_nat i"
  by (simp add: demo_lib_def)

lemma demo_mintable: "mintable demo_lib ''alice'' (demo_world\<lparr>rng := i\<rparr>)"
  using demo_minted_new [of i] demo_minted [of i] by (simp add: mintable_def)

lemma demo_world_rng [simp]: "demo_world\<lparr>rng := 0\<rparr> = demo_world"
  by (simp add: demo_world_def empty_world_def)

abbreviation demo_request :: request where
  "demo_request \<equiv> \<lparr>rq_header = Map.empty, rq_address = None\<rparr>"

lemma demo_refresh:
  "run (refresh demo_lib demo_env demo_request None (Some ''new'')) demo_world =
     (Inr \<lparr>ss_tokens = tokens_reply demo_lib demo_env ''alice'' User (minted demo_lib 0) 1000, ss_user = toPublicUser demo_user\<rparr>,
      demo_world\<lparr>refreshTokens := [demo_token ''new'' None\<lparr>rt_usedAt := Some 1000\<rparr>, demo_token ''old'' (Some 10),
        minted_row demo_lib demo_env ''alice'' ''family'' demo_world], rng := 2\<rparr>)"
  using run_refresh_ok [of demo_world demo_env demo_request None "Some ''new''" "''new''"
      demo_lib "demo_token ''new'' None" demo_user] demo_mintable [of 0]
  by (simp add: origin_ok_def presented_def notDeleted_def numeral_2_eq_2)

theorem refresh_rotates_witness:
  "fst (run (refresh demo_lib demo_env demo_request None (Some ''new''))
     (snd (run (refresh demo_lib demo_env demo_request None (Some ''new'')) demo_world))) = Inl token_reuse"
  using refresh_rotates [of demo_world demo_env "\<lparr>rq_header = Map.empty, rq_address = None\<rparr>" None "Some ''new''" "''new''"
      demo_lib "demo_token ''new'' None" demo_user] demo_mintable [of 0]
  by (simp add: origin_ok_def presented_def notDeleted_def tokens_reply_def Let_def)

lemma demo_login:
  "\<exists>s w'. run (login demo_lib demo_env ''alice@example.com'' ''password'') demo_world = (Inr (LoggedIn s), w')"
proof -
  have creds: "run (verifyCredentials demo_lib ''alice@example.com'' ''password'') demo_world = (Inr demo_user, demo_world)"
    by (simp add: verifyCredentials_def active_email_find active_email_def run_simps) (simp add: demo_lib_def)
  have "run (log_in demo_lib demo_env demo_user f) (demo_world\<lparr>rng := Suc 0\<rparr>) =
      (Inr \<lparr>ss_tokens = tokens_reply demo_lib demo_env ''alice'' User (minted demo_lib (Suc 0)) 1000, ss_user = toPublicUser demo_user\<rparr>,
       demo_world\<lparr>refreshTokens := refreshTokens demo_world @ [minted_row demo_lib demo_env ''alice'' f (demo_world\<lparr>rng := Suc 0\<rparr>)], rng := 3\<rparr>)" for f
    using run_log_in [of "demo_world\<lparr>rng := Suc 0\<rparr>" demo_lib demo_user demo_env f] demo_mintable [of "Suc 0"] by simp
  with creds show ?thesis by (simp add: login_def run_simps)
qed

theorem login_respects_second_factor_witness:
  "\<exists>s. fst (run (login demo_lib demo_env ''alice@example.com'' ''password'') demo_world) = Inr (LoggedIn s) \<and>
     (\<exists>u \<in> set (users demo_world). active_email ''alice@example.com'' u \<and> u_totpEnabledAt u = None)"
proof -
  obtain s w' where s: "run (login demo_lib demo_env ''alice@example.com'' ''password'') demo_world = (Inr (LoggedIn s), w')"
    using demo_login by blast
  from login_respects_second_factor [OF _ s] s show ?thesis by auto
qed

theorem registration_survives_redis_outage_witness:
  "\<exists>s. fst (run (register demo_lib (demo_env\<lparr>REQUIRE_VERIFIED_EMAIL := True\<rparr>) \<lparr>rq_header = Map.empty, rq_address = None\<rparr>
      ''bob@example.com'' ''secret-pw'' None) (demo_world\<lparr>rd := Down\<rparr>)) = Inr s"
proof -
  let ?w = "demo_world\<lparr>rd := Down\<rparr>"
  have fits: "user_fits (registered demo_lib ''bob@example.com'' ''secret-pw'' None ?w)"
    by (simp add: user_fits_def registered_def new_user_def) (simp add: demo_lib_def)
  have "\<forall>n. length (sha256Hex demo_lib (minted demo_lib n)) \<le> 512 \<and> sha256Hex demo_lib (minted demo_lib n) \<notin> rt_token ` set (refreshTokens ?w)"
    using demo_minted demo_minted_new by simp
  with registration_survives_redis_outage [of ?w "''bob@example.com''" demo_lib "''secret-pw''" None
      "demo_env\<lparr>REQUIRE_VERIFIED_EMAIL := True\<rparr>" "\<lparr>rq_header = Map.empty, rq_address = None\<rparr>"] fits
  show ?thesis by (auto simp: active_email_def)
qed

text \<open>In cookie mode with a list of origins configured, a refresh or a logout sent from a page of
  another origin is refused and changes nothing, whatever cookie or token it carries.\<close>

theorem foreign_origin_refused:
  fixes L :: lib and E :: env and w :: world
  assumes "AUTH_TRANSPORT E = CookieTransport" "CORS_ORIGIN E \<noteq> ''*''"
    "rq_header req ''origin'' = Some from_origin" "from_origin \<noteq> []" "from_origin \<notin> set (map trim (split_on (CHR '','') (CORS_ORIGIN E)))"
  shows "run (refresh L E req cookie body) w = (Inl (App (ForbiddenError (Some ''Origin not allowed''))), w) \<and>
    snd (run (logout L E req bearer cookie body) w) = w \<and>
    fst (run (logout L E req bearer cookie body) w) \<in>
      {Inl (App (ForbiddenError (Some ''Origin not allowed''))), Inr (Status 401 UNAUTHORIZED)}"
proof -
  have "requireTrustedOrigin E req = Throw (App (ForbiddenError (Some ''Origin not allowed'')))"
    using assms by (simp add: requireTrustedOrigin_def assertTrustedOrigin_def)
  then show ?thesis
    by (simp add: refresh_def logout_def guarded_def isAuthed_def run_simps split: option.split)
qed

theorem foreign_origin_refused_witness:
  "run (refresh demo_lib (demo_env\<lparr>AUTH_TRANSPORT := CookieTransport, CORS_ORIGIN := ''https://a.example, https://b.example''\<rparr>)
      \<lparr>rq_header = (\<lambda>h. if h = ''origin'' then Some ''https://evil.example'' else None), rq_address = None\<rparr>
      (Some ''new'') None) demo_world = (Inl (App (ForbiddenError (Some ''Origin not allowed''))), demo_world)"
proof -
  have "map trim (split_on (CHR '','') ''https://a.example, https://b.example'') = [''https://a.example'', ''https://b.example'']"
    by code_simp
  then show ?thesis
    using foreign_origin_refused [of "demo_env\<lparr>AUTH_TRANSPORT := CookieTransport, CORS_ORIGIN := ''https://a.example, https://b.example''\<rparr>"
        "\<lparr>rq_header = (\<lambda>h. if h = ''origin'' then Some ''https://evil.example'' else None), rq_address = None\<rparr>"
        "''https://evil.example''" demo_lib "Some ''new''" None demo_world None]
    by simp
qed

end
