(* ===== verification/Readiness.thy ===== *)
theory Readiness
  imports Cache
begin

text \<open>
  Dependency checks (\<open>src/lib/readiness.ts\<close>), the readiness endpoint (\<open>src/plugins/health.ts\<close>) and
  the boot of both processes (\<open>src/index.ts\<close>, \<open>src/worker.ts\<close>) up to the point where they serve.
\<close>

definition PING_TIMEOUT_MS :: int where "PING_TIMEOUT_MS = 2000"

definition pingPostgres :: "(world, bool) prog" where
  "pingPostgres = try_catch (sequ (over_link pg (timeout_error PING_TIMEOUT_MS) (\<lambda>w. (Inr (), w))) (Ret True))
     (\<lambda>err. Ret False)"

definition pingRedis :: "(world, bool) prog" where
  "pingRedis = try_catch (sequ (over_link rd (timeout_error PING_TIMEOUT_MS) (\<lambda>w. (Inr (), w))) (Ret True))
     (\<lambda>err. Ret False)"

record dependency_check =
  dc_name :: string
  dc_ping :: "(world, bool) prog"

definition dependencyChecks :: "dependency_check list" where
  "dependencyChecks =
     [\<lparr>dc_name = ''postgres'', dc_ping = pingPostgres\<rparr>, \<lparr>dc_name = ''redis'', dc_ping = pingRedis\<rparr>]"

text \<open>\<open>Promise.all\<close> over the checks, in the order of the array; the pings change nothing they share.\<close>

fun ping_all :: "dependency_check list \<Rightarrow> (world, (string \<times> bool) list) prog" where
  "ping_all [] = Ret []"
| "ping_all (c # cs) = bnd (dc_ping c) (\<lambda>ok. bnd (ping_all cs) (\<lambda>rest. Ret ((dc_name c, ok) # rest)))"

fun join_comma :: "string list \<Rightarrow> string" where
  "join_comma [] = []"
| "join_comma [x] = x"
| "join_comma (x # y # ys) = x @ '', '' @ join_comma (y # ys)"

definition failed_names :: "(string \<times> bool) list \<Rightarrow> string list" where
  "failed_names results = map fst (filter (\<lambda>r. \<not> snd r) results)"

definition unavailable :: "int \<Rightarrow> string list \<Rightarrow> exn" where
  "unavailable attempts failed = Thrown (js_Error
     (''dependencies unavailable after '' @ show_int attempts @ '' attempts: '' @ join_comma failed))"

text \<open>\<open>await Bun.sleep(ms)\<close>\<close>

definition sleep :: "int \<Rightarrow> (world, unit) prog" where
  "sleep ms = atom (\<lambda>w. (Inr (), advance ms w))"

text \<open>The loop from round \<open>attempt\<close> on.\<close>

function wait_round :: "dependency_check list \<Rightarrow> int \<Rightarrow> int \<Rightarrow> int \<Rightarrow> (world, unit) prog" where
  "wait_round checks attempts delayMs attempt =
     (if attempt > attempts then Ret ()
      else
        bnd (ping_all checks) (\<lambda>results.
        let failed = failed_names results in
        if failed = [] then Ret ()
        else if attempt = attempts then Throw (unavailable attempts failed)
        else sequ (sleep delayMs) (wait_round checks attempts delayMs (attempt + 1))))"
  by pat_completeness auto
termination
  by (relation "measure (\<lambda>(checks, attempts, delayMs, attempt). nat (attempts + 1 - attempt))") auto

declare wait_round.simps [simp del]

definition waitForDependencies :: "dependency_check list option \<Rightarrow> int option \<Rightarrow> int option \<Rightarrow> (world, unit) prog" where
  "waitForDependencies checks attempts delayMs =
     wait_round (default_arg dependencyChecks checks) (default_arg 10 attempts) (default_arg 1000 delayMs) 1"

subsection \<open>Readiness endpoint\<close>

record ready_reply =
  rr_httpStatus :: nat
  rr_status :: string
  rr_db :: string
  rr_redis :: string

definition ready_endpoint :: "(world, ready_reply) prog" where
  "ready_endpoint =
     bnd pingPostgres (\<lambda>db.
     bnd pingRedis (\<lambda>redisOk.
     let ready = db \<and> redisOk in
     Ret \<lparr>rr_httpStatus = (if ready then 200 else 503),
          rr_status = (if ready then ''ready'' else ''unavailable''),
          rr_db = (if db then ''ok'' else ''down''),
          rr_redis = (if redisOk then ''ok'' else ''down'')\<rparr>))"

subsection \<open>Boot\<close>

text \<open>A process either exits with a code or goes on to serve.\<close>

datatype boot_result = ExitCode nat | Serving

definition boot :: "(world, boot_result) prog" where
  "boot = try_catch (sequ (waitForDependencies None None None) (Ret Serving)) (\<lambda>err. Ret (ExitCode 1))"

subsection \<open>Execution\<close>

lemma run_pings [run_simps]:
  "run pingPostgres w = (Inr (pg w = Up), w)" "run pingRedis w = (Inr (rd w = Up), w)"
  by (cases "pg w"; simp add: pingPostgres_def run_simps run_over_link)
     (cases "rd w"; simp add: pingRedis_def run_simps run_over_link)

lemma run_sleep [run_simps]: "run (sleep ms) w = (Inr (), advance ms w)"
  by (simp add: sleep_def run_simps)

text \<open>
  Checks whose answers depend on the time only: \<open>up name t\<close>. The outcome of the loop is decided by
  the first round that finds everything up.
\<close>

definition timed_check :: "(string \<Rightarrow> int \<Rightarrow> bool) \<Rightarrow> string \<Rightarrow> dependency_check" where
  "timed_check up name = \<lparr>dc_name = name, dc_ping = bnd now (\<lambda>t. Ret (up name t))\<rparr>"

lemma run_ping_all_timed:
  "run (ping_all (map (timed_check up) names)) w = (Inr (map (\<lambda>n. (n, up n (clock w))) names), w)"
  by (induction names) (simp_all add: timed_check_def run_simps)

definition all_up :: "(string \<Rightarrow> int \<Rightarrow> bool) \<Rightarrow> string list \<Rightarrow> int \<Rightarrow> bool" where
  "all_up up names t \<longleftrightarrow> (\<forall>n \<in> set names. up n t)"

lemma failed_names_timed:
  "failed_names (map (\<lambda>n. (n, up n t)) names) = filter (\<lambda>n. \<not> up n t) names"
  by (induction names) (simp_all add: failed_names_def)

lemma no_failed_iff: "filter (\<lambda>n. \<not> up n t) names = [] \<longleftrightarrow> all_up up names t"
  by (auto simp: all_up_def filter_empty_conv)

lemma run_wait_round:
  "attempt \<le> attempts \<Longrightarrow>
   run (wait_round (map (timed_check up) names) attempts delay attempt) w =
     (if all_up up names (clock w) then (Inr (), w)
      else if attempt = attempts
        then (Inl (unavailable attempts (filter (\<lambda>n. \<not> up n (clock w)) names)), w)
      else run (wait_round (map (timed_check up) names) attempts delay (attempt + 1)) (advance delay w))"
  by (subst wait_round.simps)
     (simp add: run_simps run_ping_all_timed Let_def failed_names_timed no_failed_iff)

lemma advance_add: "advance a (advance b w) = advance (b + a) w"
  by (simp add: advance_def)

lemma advance_0 [simp]: "advance 0 w = w"
  by (simp add: advance_def)

lemma wait_round_ok:
  assumes "int k \<le> attempts - attempt" "all_up up names (clock w + int k * delay)"
    "\<And>j. j < k \<Longrightarrow> \<not> all_up up names (clock w + int j * delay)"
  shows "run (wait_round (map (timed_check up) names) attempts delay attempt) w = (Inr (), advance (int k * delay) w)"
  using assms
proof (induction k arbitrary: attempt w)
  case 0
  then show ?case by (simp add: run_wait_round)
next
  case (Suc k)
  have "\<not> all_up up names (clock w)" using Suc.prems(3) [of 0] by simp
  moreover have "attempt \<le> attempts" "attempt \<noteq> attempts" using Suc.prems(1) by auto
  moreover have "run (wait_round (map (timed_check up) names) attempts delay (attempt + 1)) (advance delay w) =
      (Inr (), advance (int k * delay) (advance delay w))"
  proof (rule Suc.IH)
    show "int k \<le> attempts - (attempt + 1)" using Suc.prems(1) by simp
    show "all_up up names (clock (advance delay w) + int k * delay)"
      using Suc.prems(2) by (simp add: algebra_simps)
    show "\<not> all_up up names (clock (advance delay w) + int j * delay)" if "j < k" for j
      using Suc.prems(3) [of "Suc j"] that by (simp add: algebra_simps)
  qed
  ultimately show ?case by (simp add: run_wait_round advance_add algebra_simps)
qed

lemma wait_round_fails:
  assumes "attempts - attempt = int k"
    "\<And>j. j \<le> k \<Longrightarrow> \<not> all_up up names (clock w + int j * delay)"
  shows "run (wait_round (map (timed_check up) names) attempts delay attempt) w =
    (Inl (unavailable attempts (filter (\<lambda>n. \<not> up n (clock w + int k * delay)) names)), advance (int k * delay) w)"
  using assms
proof (induction k arbitrary: attempt w)
  case 0
  then show ?case using 0(2) [of 0] by (simp add: run_wait_round)
next
  case (Suc k)
  have "\<not> all_up up names (clock w)" using Suc.prems(2) [of 0] by simp
  moreover have "attempt \<le> attempts" "attempt \<noteq> attempts" using Suc.prems(1) by auto
  moreover have "run (wait_round (map (timed_check up) names) attempts delay (attempt + 1)) (advance delay w) =
      (Inl (unavailable attempts (filter (\<lambda>n. \<not> up n (clock (advance delay w) + int k * delay)) names)),
       advance (int k * delay) (advance delay w))"
  proof (rule Suc.IH)
    show "attempts - (attempt + 1) = int k" using Suc.prems(1) by simp
    show "\<not> all_up up names (clock (advance delay w) + int j * delay)" if "j \<le> k" for j
      using Suc.prems(2) [of "Suc j"] that by (simp add: algebra_simps)
  qed
  ultimately show ?case by (simp add: run_wait_round advance_add algebra_simps)
qed

subsection \<open>Properties\<close>

text \<open>C38. Waiting for the dependencies always ends: it returns after the first round in which every
  check answers, and when there is none among the allowed rounds it throws, naming the checks that
  were down in the last; between two rounds it waits the configured delay.\<close>

theorem waiting_ends:
  assumes "0 < attempts"
  shows "run (waitForDependencies (Some (map (timed_check up) names)) (Some (int attempts)) (Some delay)) w =
    (case find (\<lambda>j. \<forall>n \<in> set names. up n (clock w + int j * delay)) [0..<attempts] of
       Some k \<Rightarrow> (Inr (), advance (int k * delay) w)
     | None \<Rightarrow>
         (Inl (unavailable (int attempts) (filter (\<lambda>n. \<not> up n (clock w + int (attempts - 1) * delay)) names)),
          advance (int (attempts - 1) * delay) w))"
proof (cases "find (\<lambda>j. all_up up names (clock w + int j * delay)) [0..<attempts]")
  case None
  then have "\<not> all_up up names (clock w + int j * delay)" if "j \<le> attempts - 1" for j
    using that assms by (auto simp: find_None_iff)
  then show ?thesis
    using wait_round_fails [of "int attempts" 1 "attempts - 1" up names w delay] assms None
    by (simp add: waitForDependencies_def all_up_def [symmetric] of_nat_diff)
next
  case (Some k)
  then have k: "k < attempts" "all_up up names (clock w + int k * delay)"
    "\<And>j. j < k \<Longrightarrow> \<not> all_up up names (clock w + int j * delay)"
    by (auto simp: find_Some_iff)
  then have "run (wait_round (map (timed_check up) names) (int attempts) delay 1) w = (Inr (), advance (int k * delay) w)"
    by (intro wait_round_ok) auto
  with Some show ?thesis by (simp add: waitForDependencies_def all_up_def [symmetric])
qed

theorem waiting_ends_witness:
  "run (waitForDependencies (Some (map (timed_check (\<lambda>n t. n = ''postgres'' \<or> 3000 \<le> t)) [''postgres'', ''redis'']))
     (Some (int 10)) (Some 1000)) demo_world = (Inr (), advance 2000 demo_world)"
  by (subst waiting_ends) (simp_all add: upt_rec)

end
