(* ===== verification/Maintenance.thy ===== *)
theory Maintenance
  imports AuthService Queue Readiness
begin

text \<open>
  Housekeeping: the queue processors of \<open>src/queue/maintenance.queue.ts\<close>, the wiring of workers and
  repeatable jobs (\<open>src/queue/runtime.ts\<close>, \<open>src/worker.ts\<close>) and the admin seed
  (\<open>src/db/seed.ts\<close>).
\<close>

subsection \<open>Sweeps\<close>

definition token_cleanup :: "(world, unit) prog" where
  "token_cleanup = bnd deleteExpiredRefreshTokens (\<lambda>removed. Ret ())"

definition audit_retention :: "env \<Rightarrow> (world, unit) prog" where
  "audit_retention E = bnd (deleteOldAuditLogs E None) (\<lambda>removed. Ret ())"

definition TOKEN_CLEANUP_INTERVAL_MS :: nat where "TOKEN_CLEANUP_INTERVAL_MS = 60 * 60 * 1000"
definition AUDIT_RETENTION_INTERVAL_MS :: nat where "AUDIT_RETENTION_INTERVAL_MS = 24 * 60 * 60 * 1000"

subsection \<open>Workers\<close>

text \<open>The worker is started on the connection, which only the redis driver has.\<close>

record worker =
  wk_queue :: string
  wk_concurrency :: nat

definition startWorker :: "env \<Rightarrow> string \<Rightarrow> exn + worker" where
  "startWorker E queueName =
     (if driver E \<noteq> DriverRedis
      then Inl (Thrown (js_Error ''Cannot start a worker without a Redis connection (set QUEUE_DRIVER=redis)''))
      else Inr \<lparr>wk_queue = queueName, wk_concurrency = 5\<rparr>)"

text \<open>What \<open>scheduleRepeatable\<close> hands to the queue, if there is one.\<close>

record repeat_job =
  rj_queue :: string
  rj_every :: nat
  rj_removeOnComplete :: bool
  rj_removeOnFail :: nat

definition scheduleRepeatable :: "env \<Rightarrow> string \<Rightarrow> nat \<Rightarrow> repeat_job option" where
  "scheduleRepeatable E queueName every =
     (if driver E \<noteq> DriverRedis then None
      else Some \<lparr>rj_queue = queueName, rj_every = every, rj_removeOnComplete = True, rj_removeOnFail = 100\<rparr>)"

record worker_process =
  wp_workers :: "worker list"
  wp_repeat :: "repeat_job list"

definition option_list :: "'a option \<Rightarrow> 'a list" where
  "option_list x = (case x of None \<Rightarrow> [] | Some y \<Rightarrow> [y])"

text \<open>The worker entrypoint, after the boot check: an exception while starting ends the process.\<close>

definition worker_main :: "env \<Rightarrow> exn + worker_process" where
  "worker_main E =
     (case startWorker E ''email'' of Inl e \<Rightarrow> Inl e | Inr w1 \<Rightarrow>
      (case startWorker E ''token-cleanup'' of Inl e \<Rightarrow> Inl e | Inr w2 \<Rightarrow>
      (case startWorker E ''audit-retention'' of Inl e \<Rightarrow> Inl e | Inr w3 \<Rightarrow>
       Inr \<lparr>wp_workers = [w1, w2, w3],
            wp_repeat = option_list (scheduleRepeatable E ''token-cleanup'' TOKEN_CLEANUP_INTERVAL_MS) @
                        option_list (scheduleRepeatable E ''audit-retention'' AUDIT_RETENTION_INTERVAL_MS)\<rparr>)))"

subsection \<open>Seed\<close>

text \<open>The exit code; a failing statement is an unhandled rejection.\<close>

definition seed :: "lib \<Rightarrow> env \<Rightarrow> (world, nat) prog" where
  "seed L E =
     (if SEED_ADMIN_PASSWORD E = [] then Ret 1
      else
        bnd (select_user (\<lambda>u. u_email u = SEED_ADMIN_EMAIL E)) (\<lambda>existing.
        case existing of
          Some e \<Rightarrow>
            if u_role e = Admin then Ret 0
            else sequ (update_users (\<lambda>u. u_id u = u_id e) (\<lambda>u. u\<lparr>u_role := Admin\<rparr>)) (Ret 0)
        | None \<Rightarrow>
            bnd (password_hash L (SEED_ADMIN_PASSWORD E)) (\<lambda>passwordHash.
            bnd now (\<lambda>t.
            sequ (insert_user L (SEED_ADMIN_EMAIL E) passwordHash (Some ''Admin'') Admin (Some t)) (Ret 0)))))"

lemma keeps_db_maintenance [keeps]:
  "all_steps keeps_db token_cleanup" "all_steps keeps_db (audit_retention E)" "all_steps keeps_db (seed L E)"
  unfolding token_cleanup_def audit_retention_def seed_def password_hash_def
  by (auto intro!: all_steps_intros all_steps_now all_steps_draw keeps
      simp: safe_user_update_def db_ok_cong [where w' = "_\<lparr>rng := _\<rparr>"] split: option.split)

lemma run_deleteExpired [run_simps]:
  "pg w = Up \<Longrightarrow> run deleteExpiredRefreshTokens w =
     (Inr (length (filter (\<lambda>r. rt_expiresAt r < clock w) (refreshTokens w))),
      w\<lparr>refreshTokens := filter (\<lambda>r. \<not> rt_expiresAt r < clock w) (refreshTokens w)\<rparr>)"
  by (simp add: deleteExpiredRefreshTokens_def run_simps)

lemma run_deleteOldAuditLogs:
  "pg w = Up \<Longrightarrow> run (deleteOldAuditLogs E d) w =
     (let days = default_arg (AUDIT_RETENTION_DAYS E) d; old = (\<lambda>a. al_createdAt a < clock w - days * 86400000) in
      if days \<le> 0 then (Inr 0, w)
      else (Inr (length (filter old (auditLogs w))), w\<lparr>auditLogs := filter (\<lambda>a. \<not> old a) (auditLogs w)\<rparr>))"
  by (simp add: deleteOldAuditLogs_def Let_def run_simps)

lemma find_filter_token:
  assumes "tokens_unique rs"
  shows "find (\<lambda>r. rt_token r = h) (filter Q rs) =
    (case find (\<lambda>r. rt_token r = h) rs of None \<Rightarrow> None | Some r \<Rightarrow> if Q r then Some r else None)"
proof -
  have "find (\<lambda>r. rt_token r = h) (filter Q rs) = find (\<lambda>r. rt_token r = h \<and> Q r) rs"
    by (induction rs) simp_all
  also have "\<dots> = (case filter (\<lambda>r. rt_token r = h \<and> Q r) rs of [] \<Rightarrow> None | r # _ \<Rightarrow> Some r)"
    by (induction rs) simp_all
  finally show ?thesis by (simp add: filter_token [OF assms] split: option.split)
qed

lemma run_token_cleanup:
  "pg w = Up \<Longrightarrow> run token_cleanup w =
     (Inr (), w\<lparr>refreshTokens := filter (\<lambda>r. clock w \<le> rt_expiresAt r) (refreshTokens w)\<rparr>)"
  by (simp add: token_cleanup_def run_simps not_less)

lemma run_audit_retention:
  "pg w = Up \<Longrightarrow> run (audit_retention E) w = (Inr (), snd (run (deleteOldAuditLogs E None) w))"
  by (simp add: audit_retention_def run_simps run_deleteOldAuditLogs Let_def)

subsection \<open>Properties\<close>

text \<open>The tokens the sweep keeps at time \<open>t\<close>.\<close>

definition swept :: "int \<Rightarrow> world \<Rightarrow> world" where
  "swept t w = w\<lparr>refreshTokens := filter (\<lambda>r. t \<le> rt_expiresAt r) (refreshTokens w)\<rparr>"

lemma swept_frames [simp]:
  "pg (swept t w) = pg w" "clock (swept t w) = clock w" "users (swept t w) = users w" "auditLogs (swept t w) = auditLogs w"
  "refreshTokens (swept t w) = filter (\<lambda>r. t \<le> rt_expiresAt r) (refreshTokens w)"
  by (simp_all add: swept_def)

lemma tokens_unique_swept: "tokens_unique (refreshTokens w) \<Longrightarrow> tokens_unique (refreshTokens (swept t w))"
  by (simp add: tokens_unique_def distinct_map_filter)

lemma after_audit_tokens: "after_audit L e (v\<lparr>refreshTokens := rs\<rparr>) = (after_audit L e v)\<lparr>refreshTokens := rs\<rparr>"
  by (cases "pg v") (simp_all add: after_audit_eq insert_audit_row_def)

lemma swept_steps:
  "claim h (swept t w) = swept t (claim h w)" "burn_family f (swept t w) = swept t (burn_family f w)"
  "after_audit L e (swept t w) = swept t (after_audit L e w)"
proof -
  have "filter (\<lambda>r. t \<le> rt_expiresAt r) (map (\<lambda>r. if rt_token r = h then claimed_row w r else r) rs) =
      map (\<lambda>r. if rt_token r = h then claimed_row w r else r) (filter (\<lambda>r. t \<le> rt_expiresAt r) rs)" for rs
    by (induction rs) (simp_all add: claimed_row_def)
  then show "claim h (swept t w) = swept t (claim h w)" by (simp add: claim_def swept_def claimed_row_def)
  show "burn_family f (swept t w) = swept t (burn_family f w)"
    by (simp add: burn_family_def swept_def conj_commute)
  show "after_audit L e (swept t w) = swept t (after_audit L e w)" by (simp add: swept_def after_audit_tokens)
qed

lemma swept_drop_row:
  "(swept t w)\<lparr>refreshTokens := filter (\<lambda>r. t \<le> rt_expiresAt r \<and> P r) (refreshTokens w)\<rparr> =
   swept t (w\<lparr>refreshTokens := filter P (refreshTokens w)\<rparr>)"
  by (simp add: swept_def conj_commute)

lemma burn_family_gone: "r \<in> set (refreshTokens (burn_family f w)) \<Longrightarrow> rt_familyId r \<noteq> f"
  by (simp add: burn_family_def)

text \<open>C39. The sweeps remove what is over and nothing else. The token sweep deletes exactly the tokens
  past their expiry. Presenting a token that is not past its expiry, or an unknown one, has after the
  sweep the same outcome and the same effects as without it. Presenting a swept one is refused as
  unknown and has no effect any more: without the sweep an unused one would be reported as expired, and
  a used one would end its family, so what the sweep gives up is the detection of a reuse after the
  expiry. The audit sweep keeps the entries of the retention period, and all of them when the period is
  not positive.\<close>

theorem sweeps_take_only_old_rows:
  fixes L :: lib
  assumes "pg w = Up" "db_ok w"
  defines "kept \<equiv> \<lambda>v. v\<lparr>refreshTokens := filter (\<lambda>r. clock w \<le> rt_expiresAt r) (refreshTokens v)\<rparr>"
  shows "run token_cleanup w = (Inr (), kept w) \<and>
    (case find (\<lambda>r. rt_token r = sha256Hex L token) (refreshTokens w) of
       None \<Rightarrow> run (useRefreshToken L token) (kept w) = (Inl invalid_token, kept w) \<and>
         run (useRefreshToken L token) w = (Inl invalid_token, w)
     | Some row \<Rightarrow>
         if clock w \<le> rt_expiresAt row
         then run (useRefreshToken L token) (kept w) =
           (fst (run (useRefreshToken L token) w), kept (snd (run (useRefreshToken L token) w)))
         else run (useRefreshToken L token) (kept w) = (Inl invalid_token, kept w) \<and>
           (if rt_usedAt row = None then fst (run (useRefreshToken L token) w) = Inl token_expired
            else fst (run (useRefreshToken L token) w) = Inl token_reuse \<and>
              (\<forall>r \<in> set (refreshTokens (snd (run (useRefreshToken L token) w))). rt_familyId r \<noteq> rt_familyId row))) \<and>
    run (audit_retention E) w = (Inr (), w\<lparr>auditLogs :=
      (if AUDIT_RETENTION_DAYS E \<le> 0 then auditLogs w
       else filter (\<lambda>a. clock w - AUDIT_RETENTION_DAYS E * 86400000 \<le> al_createdAt a) (auditLogs w))\<rparr>)"
proof -
  have kept: "kept = swept (clock w)" by (simp add: kept_def swept_def fun_eq_iff)
  have u: "tokens_unique (refreshTokens w)" using assms(2) by (simp add: db_ok_def)
  have u': "tokens_unique (refreshTokens (swept (clock w) w))" and up: "pg (swept (clock w) w) = Up"
    using tokens_unique_swept [OF u] assms(1) by simp_all
  note runs = run_useRefreshToken [OF assms(1) u] run_useRefreshToken [OF up u']
  have "run token_cleanup w = (Inr (), kept w)" using assms(1) by (simp add: run_token_cleanup kept_def)
  moreover have "case find (\<lambda>r. rt_token r = sha256Hex L token) (refreshTokens w) of
       None \<Rightarrow> run (useRefreshToken L token) (kept w) = (Inl invalid_token, kept w) \<and>
         run (useRefreshToken L token) w = (Inl invalid_token, w)
     | Some row \<Rightarrow>
         if clock w \<le> rt_expiresAt row
         then run (useRefreshToken L token) (kept w) =
           (fst (run (useRefreshToken L token) w), kept (snd (run (useRefreshToken L token) w)))
         else run (useRefreshToken L token) (kept w) = (Inl invalid_token, kept w) \<and>
           (if rt_usedAt row = None then fst (run (useRefreshToken L token) w) = Inl token_expired
            else fst (run (useRefreshToken L token) w) = Inl token_reuse \<and>
              (\<forall>r \<in> set (refreshTokens (snd (run (useRefreshToken L token) w))). rt_familyId r \<noteq> rt_familyId row))"
    unfolding kept runs
    by (auto simp: find_filter_token [OF u] claimed_row_def swept_steps swept_drop_row dest: burn_family_gone split: option.split)
  moreover have "run (audit_retention E) w = (Inr (), w\<lparr>auditLogs :=
      (if AUDIT_RETENTION_DAYS E \<le> 0 then auditLogs w
       else filter (\<lambda>a. clock w - AUDIT_RETENTION_DAYS E * 86400000 \<le> al_createdAt a) (auditLogs w))\<rparr>)"
    using assms(1) by (simp add: run_audit_retention run_deleteOldAuditLogs Let_def not_less)
  ultimately show ?thesis by blast
qed

text \<open>A used token past its expiry, and a live one of its family.\<close>

theorem sweeps_take_only_old_rows_witness:
  "let w = demo_world\<lparr>refreshTokens := [demo_token ''new'' None, (demo_token ''old'' (Some 10))\<lparr>rt_expiresAt := 500\<rparr>]\<rparr> in
   run (useRefreshToken demo_lib ''old'') (snd (run token_cleanup w)) = (Inl invalid_token, snd (run token_cleanup w)) \<and>
   fst (run (useRefreshToken demo_lib ''old'') w) = Inl token_reuse"
proof -
  let ?w = "demo_world\<lparr>refreshTokens := [demo_token ''new'' None, (demo_token ''old'' (Some 10))\<lparr>rt_expiresAt := 500\<rparr>]\<rparr>"
  have "db_ok ?w"
    by (simp add: db_ok_def users_pk_def users_email_active_unique_def tokens_unique_def tokens_fk_def active_email_def)
  from sweeps_take_only_old_rows [OF _ this, of demo_lib "''old''" demo_env]
  show ?thesis by (simp add: Let_def)
qed

definition promote :: "env \<Rightarrow> world \<Rightarrow> user \<Rightarrow> world" where
  "promote E w e = w\<lparr>users := map (\<lambda>u. if u_id u = u_id e then set_user (clock w) (\<lambda>u. u\<lparr>u_role := Admin\<rparr>) u else u) (users w)\<rparr>"

lemma run_seed_existing:
  assumes "pg w = Up" "SEED_ADMIN_PASSWORD E \<noteq> []" "find (\<lambda>u. u_email u = SEED_ADMIN_EMAIL E) (users w) = Some e"
  shows "run (seed L E) w = (Inr 0, if u_role e = Admin then w else promote E w e)"
  using assms by (simp add: seed_def run_simps promote_def)

lemma run_seed_new:
  assumes "pg w = Up" "SEED_ADMIN_PASSWORD E \<noteq> []" "find (\<lambda>u. u_email u = SEED_ADMIN_EMAIL E) (users w) = None"
    "length (SEED_ADMIN_EMAIL E) \<le> 255" "length (argon2_hash L (rng w) (SEED_ADMIN_PASSWORD E)) \<le> 255"
    "uuid L (Suc (rng w)) \<notin> u_id ` set (users w)"
  shows "run (seed L E) w = (Inr 0, w\<lparr>rng := rng w + 2, users := users w @
    [new_user L (SEED_ADMIN_EMAIL E) (argon2_hash L (rng w) (SEED_ADMIN_PASSWORD E)) (Some ''Admin'') Admin (Some (clock w))
       (w\<lparr>rng := Suc (rng w)\<rparr>)]\<rparr>)"
proof -
  have "\<not> list_ex (active_email (SEED_ADMIN_EMAIL E)) (users w)"
    using assms(3) by (auto simp: list_ex_iff find_None_iff active_email_def)
  moreover have "\<not> list_ex (\<lambda>v. u_id v = uuid L (Suc (rng w))) (users w)"
    using assms(6) unfolding list_ex_iff by (metis image_eqI)
  ultimately show ?thesis
    using assms by (simp add: seed_def run_simps insert_user_row_def user_fits_def new_user_def)
qed

text \<open>The seed ensures an admin and is idempotent: when no account of the configured address is
  deleted, it ends with code 0 and an active admin of that address, adds at most one row, changes no
  password and no session, and running it again changes nothing.\<close>

theorem seed_ensures_admin:
  fixes L :: lib and E :: env and w :: world
  assumes "pg w = Up" "users_pk (users w)" "SEED_ADMIN_PASSWORD E \<noteq> []"
    "\<forall>u \<in> set (users w). u_email u = SEED_ADMIN_EMAIL E \<longrightarrow> u_deletedAt u = None"
    "length (SEED_ADMIN_EMAIL E) \<le> 255" "length (argon2_hash L (rng w) (SEED_ADMIN_PASSWORD E)) \<le> 255"
    "uuid L (Suc (rng w)) \<notin> u_id ` set (users w)"
  defines "w' \<equiv> snd (run (seed L E) w)"
  shows "fst (run (seed L E) w) = Inr 0 \<and>
    (\<exists>u. find (active_email (SEED_ADMIN_EMAIL E)) (users w') = Some u \<and> u_role u = Admin) \<and>
    length (users w') \<le> length (users w) + 1 \<and>
    take (length (users w)) (map u_passwordHash (users w')) = map u_passwordHash (users w) \<and>
    refreshTokens w' = refreshTokens w \<and> run (seed L E) w' = (Inr 0, w')"
proof -
  let ?P = "\<lambda>u. u_email u = SEED_ADMIN_EMAIL E"
  have active: "find (active_email (SEED_ADMIN_EMAIL E)) us = find ?P us"
    if "\<forall>u \<in> set us. ?P u \<longrightarrow> u_deletedAt u = None" for us
    using that by (induction us) (auto simp: active_email_def)
  have again: "run (seed L E) v = (Inr 0, v)"
    if "pg v = Up" "find ?P (users v) = Some u" "u_role u = Admin" for u v
    using run_seed_existing [OF that(1) assms(3) that(2)] that(3) by simp
  show ?thesis
  proof (cases "find ?P (users w)")
    case None
    note r = run_seed_new [OF assms(1,3) None assms(5-7)]
    have "\<forall>u \<in> set (users w'). ?P u \<longrightarrow> u_deletedAt u = None"
      using assms(4) by (auto simp: w'_def r new_user_def)
    moreover have "\<exists>u. find ?P (users w') = Some u \<and> u_role u = Admin"
      using None by (simp add: w'_def r find_append new_user_def)
    ultimately show ?thesis
      using again [of w'] active [of "users w'"] assms(1) by (auto simp: w'_def r)
  next
    case (Some e)
    note r = run_seed_existing [OF assms(1,3) Some, of L]
    have kept: "?P (set_user t (\<lambda>u. u\<lparr>u_role := Admin\<rparr>) u) = ?P u" for t u by (simp add: set_user_def)
    have f: "find ?P (users (promote E w e)) = Some (set_user (clock w) (\<lambda>u. u\<lparr>u_role := Admin\<rparr>) e)"
      using Some by (simp add: promote_def find_map_same kept)
    have "\<exists>u. find ?P (users w') = Some u \<and> u_role u = Admin"
      using Some f by (auto simp: w'_def r set_user_def)
    moreover have "\<forall>u \<in> set (users w'). ?P u \<longrightarrow> u_deletedAt u = None"
      using assms(4) by (auto simp: w'_def r promote_def set_user_def)
    moreover have "map u_passwordHash (users w') = map u_passwordHash (users w)"
      by (simp add: w'_def r promote_def set_user_def)
    moreover have "length (users w') = length (users w)" "refreshTokens w' = refreshTokens w" "pg w' = Up"
      using assms(1) by (simp_all add: w'_def r promote_def)
    ultimately show ?thesis using again [of w'] active [of "users w'"] r by auto
  qed
qed

definition seed_env :: env where
  "seed_env = demo_env\<lparr>SEED_ADMIN_PASSWORD := ''correct-horse''\<rparr>"

lemma seed_env_simps [simp]:
  "SEED_ADMIN_PASSWORD seed_env = ''correct-horse''" "SEED_ADMIN_EMAIL seed_env = ''admin@example.com''"
  by (simp_all add: seed_env_def demo_env_def env_default_def)

theorem seed_ensures_admin_witness:
  "\<exists>u. find (active_email ''admin@example.com'') (users (snd (run (seed demo_lib seed_env) demo_world))) = Some u \<and> u_role u = Admin"
  using seed_ensures_admin [of demo_world seed_env demo_lib]
  by (simp add: users_pk_def) (simp add: demo_lib_def)

text \<open>The look-up of the seed does not skip deleted rows: when the account of the configured address
  was an admin and has been deleted, the seed reports success, changes nothing, and leaves the
  system without an account of that address that can log in.\<close>

theorem seed_overlooks_deletion:
  fixes L :: lib and E :: env and w :: world
  assumes "pg w = Up" "SEED_ADMIN_PASSWORD E \<noteq> []"
    "find (\<lambda>u. u_email u = SEED_ADMIN_EMAIL E) (users w) = Some u" "u_role u = Admin"
    "\<forall>v \<in> set (users w). u_email v = SEED_ADMIN_EMAIL E \<longrightarrow> u_deletedAt v \<noteq> None"
  shows "run (seed L E) w = (Inr 0, w) \<and>
    fst (run (verifyCredentials L (SEED_ADMIN_EMAIL E) password) w) = Inl invalid_credentials"
proof -
  have "find (active_email (SEED_ADMIN_EMAIL E)) (users w) = None"
    using assms(5) by (auto simp: find_None_iff active_email_def)
  then show ?thesis
    using run_seed_existing [OF assms(1-3)] assms(1,4) run_verifyCredentials(1) [OF assms(1)] by simp
qed

theorem seed_overlooks_deletion_witness:
  "run (seed demo_lib seed_env) (demo_world\<lparr>users :=
      [demo_user\<lparr>u_email := ''admin@example.com'', u_role := Admin, u_deletedAt := Some 500\<rparr>]\<rparr>) =
    (Inr 0, demo_world\<lparr>users := [demo_user\<lparr>u_email := ''admin@example.com'', u_role := Admin, u_deletedAt := Some 500\<rparr>]\<rparr>)"
  using seed_overlooks_deletion [of "demo_world\<lparr>users := [demo_user\<lparr>u_email := ''admin@example.com'', u_role := Admin, u_deletedAt := Some 500\<rparr>]\<rparr>"
      seed_env "demo_user\<lparr>u_email := ''admin@example.com'', u_role := Admin, u_deletedAt := Some 500\<rparr>" demo_lib]
  by simp

end
