(* ===== verification/App.thy ===== *)
theory App
  imports AuthModule Maintenance
begin

text \<open>
  The application (\<open>src/app.ts\<close>) as the set of programs it runs: every route of the two modules and
  of the health plugin, the two sweeps of the worker, and the seed. Any number of them may be in
  flight at once; the constraints of the tables hold throughout.
\<close>

datatype api_call =
    Register request string string "string option"
  | Login string string
  | TwofaVerify string string
  | RequestReset string
  | ResetPassword string string string
  | Refresh request "string option" "string option"
  | Me "string option"
  | Logout request "string option" "string option" "string option"
  | RequestOtp "string option"
  | VerifyEmail "string option" string
  | TwofaSetup "string option"
  | TwofaEnable "string option" string
  | TwofaDisable "string option" string
  | ListUsers "string option" "rat option" "rat option"
  | GetUser "string option" string
  | PatchUser "string option" request string update_body
  | DeleteUser "string option" request string
  | Ready
  | TokenCleanupJob
  | AuditRetentionJob
  | SeedAdmin

definition forget :: "(world, 'a) prog \<Rightarrow> (world, unit) prog" where
  "forget p = bnd p (\<lambda>_. Ret ())"

fun serve :: "lib \<Rightarrow> env \<Rightarrow> api_call \<Rightarrow> (world, unit) prog" where
  "serve L E (Register req e p n) = forget (register L E req e p n)"
| "serve L E (Login e p) = forget (login L E e p)"
| "serve L E (TwofaVerify t c) = forget (twofa_verify L E t c)"
| "serve L E (RequestReset e) = request_reset L E e"
| "serve L E (ResetPassword e c p) = reset_password L e c p"
| "serve L E (Refresh req ck b) = forget (refresh L E req ck b)"
| "serve L E (Me b) = forget (me L E b)"
| "serve L E (Logout req b ck bd) = forget (logout L E req b ck bd)"
| "serve L E (RequestOtp b) = forget (request_otp L E b)"
| "serve L E (VerifyEmail b c) = forget (verify_email L E b c)"
| "serve L E (TwofaSetup b) = forget (twofa_setup L E b)"
| "serve L E (TwofaEnable b c) = forget (twofa_enable L E b c)"
| "serve L E (TwofaDisable b c) = forget (twofa_disable L E b c)"
| "serve L E (ListUsers b l k) = forget (get_users L E b l k)"
| "serve L E (GetUser b i) = forget (get_user L E b i)"
| "serve L E (PatchUser b req i d) = forget (patch_user L E b req i d)"
| "serve L E (DeleteUser b req i) = forget (delete_user L E b req i)"
| "serve L E Ready = forget ready_endpoint"
| "serve L E TokenCleanupJob = token_cleanup"
| "serve L E AuditRetentionJob = audit_retention E"
| "serve L E SeedAdmin = forget (seed L E)"

lemma all_steps_forget: "all_steps G p \<Longrightarrow> all_steps G (forget p)"
  unfolding forget_def by (auto intro: all_steps_bnd)

lemma keeps_db_ready [keeps]: "all_steps keeps_db ready_endpoint"
  unfolding ready_endpoint_def pingPostgres_def pingRedis_def Let_def
  by (auto intro!: all_steps_intros all_steps_over_link)

lemma keeps_db_serve [keeps]: "all_steps keeps_db (serve L E c)"
  by (cases c) (auto intro!: all_steps_forget keeps)

lemma env_step_db_ok: "env_step w w' \<Longrightarrow> db_ok w \<Longrightarrow> db_ok w'"
  by (auto simp: env_step_def db_ok_def tokens_fk_def)

interpretation app: interleaving env_step db_ok "all_steps keeps_db :: (world, 'a) prog \<Rightarrow> bool"
  by unfold_locales (auto intro: env_step_db_ok)

lemma empty_db_ok: "db_ok empty_world"
  by (simp add: db_ok_def empty_world_def users_pk_def users_email_active_unique_def tokens_unique_def tokens_fk_def)

subsection \<open>Properties\<close>

text \<open>C5. The tables stay consistent under concurrency: in every interleaving of any requests, jobs
  and seeds, with any outages of the services and any passing of time, ids and token hashes stay
  unique, every refresh token belongs to a user, and no two active accounts share an address.\<close>

theorem tables_stay_consistent:
  assumes "db_ok w" "pool_run env_step (w, map (serve L E) calls) (w', ps)"
  shows "distinct (map u_id (users w')) \<and>
    distinct (map rt_id (refreshTokens w')) \<and> distinct (map rt_token (refreshTokens w')) \<and>
    (\<forall>r \<in> set (refreshTokens w'). \<exists>u \<in> set (users w'). u_id u = rt_userId r) \<and>
    (\<forall>u \<in> set (users w'). \<forall>v \<in> set (users w'). u_email u = u_email v \<and> u_deletedAt u = None \<and>
       u_deletedAt v = None \<longrightarrow> u = v)"
proof -
  have "\<forall>p \<in> set (map (serve L E) calls). all_steps keeps_db p" by (auto intro: keeps_db_serve)
  with app.run_keeps [OF assms(2,1)] have ok: "db_ok w'" by blast
  moreover have "u = v" if "u \<in> set (users w')" "v \<in> set (users w')"
    "u_email u = u_email v" "u_deletedAt u = None" "u_deletedAt v = None" for u v
    using active_email_unique [OF _ that(1,2), of "u_email v"] ok that by (simp add: db_ok_def active_email_def)
  moreover have "\<exists>u \<in> set (users w'). u_id u = rt_userId r" if "r \<in> set (refreshTokens w')" for r
    using ok that by (force simp: db_ok_def tokens_fk_def)
  ultimately show ?thesis
    by (auto simp: db_ok_def users_pk_def tokens_unique_def)
qed

theorem tables_stay_consistent_witness:
  "\<exists>w' ps. pool_run env_step (demo_world, map (serve demo_lib demo_env)
       [Refresh demo_request None (Some ''new''), Me None]) (w', ps) \<and>
     length (refreshTokens w') = 3 \<and> distinct (map rt_token (refreshTokens w'))"
proof -
  let ?ps = "map (serve demo_lib demo_env) [Refresh demo_request None (Some ''new''), Me None]"
  let ?r = "run (?ps ! 0) demo_world"
  have run: "pool_run env_step (demo_world, ?ps)
      (snd ?r, ?ps[0 := finished (fst ?r)])"
    by (rule pool_run_alone) simp
  have "length (refreshTokens (snd ?r)) = 3"
    by (simp add: forget_def run_simps demo_refresh)
  moreover from tables_stay_consistent [OF demo_db_ok run] have "distinct (map rt_token (refreshTokens (snd ?r)))" by blast
  ultimately show ?thesis using run by blast
qed

end
