(* ===== verification/Statements.thy ===== *)
theory Statements
  imports App
begin

text \<open>
  What holds of every step of a program because it holds of the statements: the locale
  \<open>calm_statements\<close> takes a relation between states that is kept by every statement but the insertion
  of tokens and the change of profiles, and derives that it is kept by every service, guard and route
  that does neither; its extension \<open>all_statements\<close> adds the routes that change profiles.
\<close>

named_theorems calm

text \<open>What only the routes under \<open>/users\<close> change of a stored account.\<close>

definition profile :: "user \<Rightarrow> string \<times> string \<times> string option \<times> role \<times> int option \<times> int" where
  "profile u = (u_id u, u_email u, u_name u, u_role u, u_deletedAt u, u_createdAt u)"

lemma profile_set_user [simp]: "profile (set_user t f u) = profile (f u)"
  by (simp add: profile_def set_user_def)

locale calm_statements =
  fixes G :: "world \<Rightarrow> world \<Rightarrow> bool"
  assumes same: "users w' = users w \<Longrightarrow> refreshTokens w' = refreshTokens w \<Longrightarrow> rng w \<le> rng w' \<Longrightarrow> G w w'"
    and purge: "G w (w\<lparr>refreshTokens := filter R (refreshTokens w)\<rparr>)"
    and mark: "G w (w\<lparr>refreshTokens := map (\<lambda>r. if R r then r\<lparr>rt_usedAt := Some t\<rparr> else r) (refreshTokens w)\<rparr>)"
    and join: "u_role u = User \<Longrightarrow> \<not> list_ex (\<lambda>v. u_id v = u_id u) (users w) \<Longrightarrow>
      G w (w\<lparr>rng := Suc (rng w), users := users w @ [u]\<rparr>)"
    and touch: "(\<And>u. profile (f u) = profile u) \<Longrightarrow>
      G w (w\<lparr>users := map (\<lambda>u. if P u then set_user t f u else u) (users w)\<rparr>)"
begin

lemma still: "G w w" and drawn: "G w (w\<lparr>rng := Suc (rng w)\<rparr>)" and memo: "G w (w\<lparr>dummyHash := h\<rparr>)"
  by (simp_all add: same)

lemma calm_sql [calm]:
  "all_steps G (select_users P)" "all_steps G (select_user P)" "all_steps G (select_token R)"
  "all_steps G (delete_tokens R)" "all_steps G (insert_audit L a b c d m i)" "all_steps G (delete_audit A)"
  "all_steps G now" "all_steps G (draw g)" "all_steps G (getDummyHash L)"
  unfolding sql_defs now_def draw_def getDummyHash_def password_hash_def Let_def
  by (auto intro!: all_steps_bnd all_steps_over_link all_steps_atom purge drawn memo intro: same simp: insert_audit_row_def split: option.split)

lemma calm_insert_user [calm]: "all_steps G (insert_user L em ph nm User v)"
  unfolding sql_defs insert_user_row_def
  by (auto intro!: all_steps_over_link join drawn still simp: new_user_def)

lemma calm_update_users [calm]: "(\<And>u. profile (f u) = profile u) \<Longrightarrow> all_steps G (update_users P f)"
  unfolding sql_defs by (auto intro!: all_steps_over_link touch intro: same)

lemma calm_claim [calm]: "all_steps G (update_tokens (claimable g t) (\<lambda>r. r\<lparr>rt_usedAt := Some t\<rparr>))"
  unfolding sql_defs by (auto intro!: all_steps_over_link mark intro: same)

lemma calm_redis [calm]:
  "all_steps G (cache_get k)" "all_steps G (cache_set k v t)"
  "all_steps G (cache_del k)" "all_steps G (cache_incr k)"
  "all_steps G (cache_exists k)"
  unfolding cache_defs
  by (auto intro!: all_steps_over_link same
      simp: redis_put_def redis_drop_def redis_keep_ttl_def redis_INCR_def split: option.splits)

lemma calm_mail [calm]: "all_steps G (emailQueue_add E m)"
  by (auto simp: emailQueue_add_def queue_add_def mailer_send_def transport_send_def
      intro!: all_steps_intros all_steps_over_link all_steps_atom same split: mail_mode.split)

text \<open>The services and the routes that store no refresh token.\<close>

lemma calm_services [calm]:
  "all_steps G (recordAudit L e)" "all_steps G (createUser L em p nm)"
  "all_steps G (findById i)" "all_steps G (findByEmail em)"
  "all_steps G (updatePassword L i p)" "all_steps G (markEmailVerified i)"
  "all_steps G (verifyCredentials L em p)" "all_steps G (revokeAllRefreshTokens i)"
  "all_steps G deleteExpiredRefreshTokens" "all_steps G (useRefreshToken L tok)"
  "all_steps G (revokeRefreshToken L tok)" "all_steps G (randomUUID L)"
  unfolding recordAudit_def createUser_def findById_def findByEmail_def updatePassword_def
    markEmailVerified_def verifyCredentials_def revokeAllRefreshTokens_def deleteExpiredRefreshTokens_def
    useRefreshToken_def revokeRefreshToken_def password_hash_def randomUUID_def Let_def
  by (auto intro!: all_steps_intros calm all_steps_atom simp: Let_def profile_def split: option.splits list.splits)

lemma calm_codes [calm]:
  "all_steps G (otp_issue L E u em)" "all_steps G (otp_verify L u c)"
  "all_steps G (pwreset_request L E em)" "all_steps G (pwreset_reset L em c p)"
  "all_steps G (setup_totp L E u)" "all_steps G (enable_totp L E u c)"
  "all_steps G (disable_totp L E u c)" "all_steps G (createLoginChallenge L u)"
  "all_steps G (consumeLoginChallenge L E tok c)"
  unfolding otp_issue_def otp_verify_def pwreset_request_def pwreset_reset_def setup_totp_def enable_totp_def
    disable_totp_def createLoginChallenge_def consumeLoginChallenge_def validateCode_def findActiveUser_def
    randomToken_def generateCode_def Let_def
  by (auto intro!: all_steps_intros calm simp: Let_def profile_def split: option.splits)

lemma calm_guards [calm]:
  "all_steps G (signAccessToken L E p)" "all_steps G (verifyAccessToken L E b)"
  "all_steps G (requireTrustedOrigin E req)"
proof -
  show "all_steps G (signAccessToken L E p)"
    unfolding signAccessToken_def by (auto intro!: all_steps_intros calm)
  have "all_steps G (try_secrets L b ss)" for ss
    by (induction ss) (auto intro!: all_steps_intros calm split: option.split)
  then show "all_steps G (verifyAccessToken L E b)" by (simp add: verifyAccessToken_def)
  show "all_steps G (requireTrustedOrigin E req)"
    by (simp add: requireTrustedOrigin_def split: sum.split)
qed

lemma calm_macros [calm]:
  "all_steps G (isAuthed L E m b)" "all_steps G (can L E a own b ps)"
  unfolding isAuthed_def can_def resolveUser_def isEmailVerified_def passesVerificationGate_def
  by (auto intro!: all_steps_intros calm split: option.split)

lemma calm_guarded [calm]:
  "all_steps G g \<Longrightarrow> (\<And>c. all_steps G (k c)) \<Longrightarrow> all_steps G (guarded g k)"
  unfolding guarded_def by (auto intro!: all_steps_bnd split: verdict.split)

lemma calm_routes [calm]:
  "all_steps G (me L E b)" "all_steps G (logout L E req b ck bd)"
  "all_steps G (request_otp L E b)" "all_steps G (verify_email L E b c)"
  "all_steps G (twofa_setup L E b)" "all_steps G (twofa_enable L E b c)"
  "all_steps G (twofa_disable L E b c)" "all_steps G (get_users L E b l o')"
  "all_steps G (get_user L E b i)"
  "all_steps G ready_endpoint"
  "all_steps G token_cleanup" "all_steps G (audit_retention E)"
  unfolding me_def logout_def request_otp_def verify_email_def twofa_setup_def twofa_enable_def
    twofa_disable_def get_users_def get_user_def ready_endpoint_def
    pingPostgres_def pingRedis_def token_cleanup_def audit_retention_def deleteOldAuditLogs_def
    user_list_def user_getById_def select_page_def pg_call_def Let_def
  by (auto intro!: all_steps_intros calm all_steps_over_link same split: option.split list.split)

end

text \<open>The relations that the insertion of a token keeps as well, and so every call but three.\<close>

locale table_statements = calm_statements +
  assumes mint: "G w (w\<lparr>rng := Suc (rng w), refreshTokens := refreshTokens w @ [r]\<rparr>)"
begin

lemma calm_insert_token [calm]: "all_steps G (insert_token L uid hash ex fam)"
  unfolding sql_defs insert_token_row_def by (auto intro!: all_steps_over_link mint drawn still)

lemma calm_log_in [calm]: "all_steps G (log_in L E u fam)"
  unfolding log_in_def issueTokens_def storeRefreshToken_def randomToken_def
  by (auto intro!: all_steps_intros calm)

lemma calm_sessions [calm]:
  "all_steps G (register L E req em p nm)" "all_steps G (login L E em p)"
  "all_steps G (twofa_verify L E t c)" "all_steps G (refresh L E req ck bd)"
  unfolding register_def login_def twofa_verify_def refresh_def
  by (auto intro!: all_steps_intros calm split: option.split)

lemma calm_serve:
  "(\<And>b req i d. c \<noteq> PatchUser b req i d) \<Longrightarrow> (\<And>b req i. c \<noteq> DeleteUser b req i) \<Longrightarrow> c \<noteq> SeedAdmin \<Longrightarrow>
   all_steps G (serve L E c)"
  by (cases c) (auto intro!: all_steps_forget calm simp: request_reset_def reset_password_def)

end

text \<open>The relations that a change of profiles keeps as well.\<close>

locale all_statements = calm_statements +
  assumes join_any: "G w (w\<lparr>rng := Suc (rng w), users := users w @ [u]\<rparr>)"
    and touch_any: "G w (w\<lparr>users := map (\<lambda>u. if P u then set_user t f u else u) (users w)\<rparr>)"
begin

lemma calm_profile_changes [calm]:
  "all_steps G (insert_user L em ph nm r v)" "all_steps G (update_users P f)"
  unfolding sql_defs insert_user_row_def
  by (auto intro!: all_steps_over_link join_any touch_any drawn still)

lemma calm_profile_routes [calm]: "all_steps G (patch_user L E b req i d)" "all_steps G (delete_user L E b req i)" "all_steps G (seed L E)"
  unfolding patch_user_def delete_user_def seed_def user_update_def user_remove_def password_hash_def
  by (auto intro!: all_steps_intros calm split: option.split list.split)

end

end
