(* ===== verification/Privilege.thy ===== *)
theory Privilege
  imports Statements
begin

text \<open>
  Privileges under concurrency: what requests that carry no administrator's token can do to accounts,
  in every interleaving.
\<close>

subsection \<open>What a bearer token may stand for\<close>

text \<open>Every caller a token may be taken for, under either secret and at any time.\<close>

definition payloads :: "lib \<Rightarrow> env \<Rightarrow> string option \<Rightarrow> access_payload set" where
  "payloads L E bearer = {p. \<exists>b s t x. bearer = Some b \<and> s \<in> {JWT_SECRET E, JWT_SECRET_PREVIOUS E} \<and>
     jwt_verify L s b t = Some x \<and> access_shape x = Some p}"

lemma leaves_try_secrets:
  "Some p \<in> leaves (try_secrets L b ss) \<Longrightarrow> \<exists>s \<in> set ss. \<exists>t x. jwt_verify L s b t = Some x \<and> access_shape x = Some p"
proof (induction ss)
  case (Cons a ss)
  then show ?case by (auto simp: leaves_bnd now_def atom_def split: option.splits) blast
qed simp

lemma leaves_resolveUser: "Some p \<in> leaves (resolveUser L E b) \<Longrightarrow> p \<in> payloads L E b"
  using leaves_try_secrets [of p L "the b" "filter (\<lambda>s. s \<noteq> []) [JWT_SECRET E, JWT_SECRET_PREVIOUS E]"]
  unfolding resolveUser_def verifyAccessToken_def payloads_def
  by (cases b) (auto split: if_splits simp del: filter.simps try_secrets.simps, (auto split: if_splits)?)

lemma leaves_can:
  assumes "Pass (p, scope) \<in> leaves (can L E action own b params)"
  shows "p \<in> payloads L E b \<and> resolveScope (ap_role p) (action_part 0 action) (action_part 1 action) = Some scope \<and>
    (scope = Own \<and> truthy_str own \<longrightarrow> Some (ap_sub p) = params (the own))"
  using assms unfolding can_def
  by (auto simp: leaves_bnd dest!: leaves_resolveUser split: option.splits if_splits)

lemma all_steps_guarded_leaves:
  "all_steps G g \<Longrightarrow> (\<And>c. Pass c \<in> leaves g \<Longrightarrow> all_steps G (k c)) \<Longrightarrow> all_steps G (guarded g k)"
  unfolding guarded_def
  by (rule all_steps_bnd_leaves, assumption) (auto intro!: all_steps_bnd split: verdict.split)

text \<open>The token of a request that may change a profile.\<close>

fun changing_token :: "api_call \<Rightarrow> string option" where
  "changing_token (PatchUser b req i d) = b"
| "changing_token (DeleteUser b req i) = b"
| "changing_token c = None"

lemma guard_of_user:
  assumes "Pass (p, scope) \<in> leaves (can L E action (Some ''id'') b (id_param i))" "\<forall>p \<in> payloads L E b. ap_role p = User"
  shows "scope = Own \<and> p \<in> payloads L E b \<and> i = ap_sub p"
  using leaves_can [OF assms(1)] assms(2)
  by (auto simp: resolveScope_User id_param_def truthy_str_iff split: if_splits)

subsection \<open>No new administrators\<close>

definition admins :: "world \<Rightarrow> string set" where
  "admins w = {u_id u |u. u \<in> set (users w) \<and> u_role u = Admin}"

abbreviation no_new_admin :: "world \<Rightarrow> world \<Rightarrow> bool" where
  "no_new_admin w w' \<equiv> admins w' \<subseteq> admins w"

lemma admins_map:
  "(\<And>u. u_id (f u) = u_id u \<and> u_role (f u) = u_role u) \<Longrightarrow>
   no_new_admin w (w\<lparr>users := map (\<lambda>u. if P u then set_user t f u else u) (users w)\<rparr>)"
  by (auto simp: admins_def set_user_def)

interpretation unprivileged: table_statements no_new_admin
proof
  show "no_new_admin w (w\<lparr>users := map (\<lambda>u. if P u then set_user t f u else u) (users w)\<rparr>)"
    if "\<And>u. profile (f u) = profile u" for w P t f
    by (rule admins_map) (use that in \<open>simp add: profile_def\<close>)
qed (auto simp: admins_def)

lemma no_new_admin_update:
  "(\<And>u. u_id (f u) = u_id u \<and> u_role (f u) = u_role u) \<Longrightarrow> all_steps no_new_admin (update_users P f)"
  unfolding update_users_def pg_call_def
  by (rule all_steps_over_link) (simp_all del: Un_iff add: admins_map)

lemma no_new_admin_patch:
  assumes "\<forall>p \<in> payloads L E b. ap_role p = User"
  shows "all_steps no_new_admin (patch_user L E b req i d)"
proof -
  have "all_steps no_new_admin (user_update i d)" if "ub_role d = None"
    using that unfolding user_update_def
    by (auto intro!: all_steps_intros no_new_admin_update simp: set_fields_def split: list.split)
  then show ?thesis
    unfolding patch_user_def
    by (intro all_steps_guarded_leaves unprivileged.calm_macros)
      (cases "ub_role d"; auto intro!: all_steps_intros calm dest!: guard_of_user [OF _ assms])
qed

lemma no_new_admin_delete: "all_steps no_new_admin (delete_user L E b req i)"
  unfolding delete_user_def user_remove_def
  by (auto intro!: all_steps_guarded_leaves all_steps_intros calm no_new_admin_update split: list.split)

subsection \<open>Accounts of others\<close>

text \<open>The rows with the identifier \<open>i\<close>, as far as the routes of \<open>/users\<close> change them.\<close>

definition account :: "string \<Rightarrow> world \<Rightarrow> (string \<times> string \<times> string option \<times> role \<times> int option \<times> int) list" where
  "account i w = map profile (filter (\<lambda>u. u_id u = i) (users w))"

abbreviation same_account :: "string \<Rightarrow> world \<Rightarrow> world \<Rightarrow> bool" where
  "same_account i w w' \<equiv> account i w \<noteq> [] \<longrightarrow> account i w' = account i w"

lemma account_map:
  assumes "\<And>u. P u \<Longrightarrow> u_id u = i \<Longrightarrow> profile (f u) = profile u" "\<And>u. u_id (f u) = u_id u"
  shows "same_account i w (w\<lparr>users := map (\<lambda>u. if P u then set_user t f u else u) (users w)\<rparr>)"
proof -
  have "map profile (filter (\<lambda>u. u_id u = i) (map (\<lambda>u. if P u then set_user t f u else u) us)) =
      map profile (filter (\<lambda>u. u_id u = i) us)" for us
    using assms by (induction us) (simp_all add: set_user_def profile_def)
  then show ?thesis by (simp add: account_def)
qed

interpretation unconcerned: table_statements "same_account i" for i
proof
  show "same_account i w (w\<lparr>users := map (\<lambda>u. if P u then set_user t f u else u) (users w)\<rparr>)"
    if "\<And>u. profile (f u) = profile u" for w P t f
    by (rule account_map) (use that in \<open>simp_all add: profile_def\<close>)
qed (auto simp: account_def list_ex_iff filter_empty_conv)

lemma same_account_update:
  "(\<And>u. P u \<Longrightarrow> u_id u \<noteq> i) \<Longrightarrow> (\<And>u. u_id (f u) = u_id u) \<Longrightarrow> all_steps (same_account i) (update_users P f)"
  unfolding update_users_def pg_call_def
  by (rule all_steps_over_link) (auto intro!: account_map [THEN mp])

lemma same_account_patch:
  assumes "\<forall>p \<in> payloads L E b. ap_role p = User \<and> ap_sub p \<noteq> j"
  shows "all_steps (same_account j) (patch_user L E b req i d)"
proof -
  have "all_steps (same_account j) (user_update i d)" if "i \<noteq> j"
    using that unfolding user_update_def
    by (auto intro!: all_steps_intros same_account_update simp: set_fields_def split: list.split)
  then show ?thesis
    unfolding patch_user_def using assms
    by (intro all_steps_guarded_leaves unconcerned.calm_macros)
      (auto intro!: all_steps_intros calm dest!: guard_of_user split: option.split)
qed

lemma same_account_delete:
  assumes "\<forall>p \<in> payloads L E b. ap_role p = User \<and> ap_sub p \<noteq> j"
  shows "all_steps (same_account j) (delete_user L E b req i)"
proof -
  have "all_steps (same_account j) (user_remove i)" if "i \<noteq> j"
    using that unfolding user_remove_def
    by (auto intro!: all_steps_intros unconcerned.calm_sql unconcerned.calm_services same_account_update split: list.split)
  then show ?thesis
    unfolding delete_user_def using assms
    by (intro all_steps_guarded_leaves unconcerned.calm_macros)
      (auto intro!: all_steps_intros calm dest!: guard_of_user)
qed

subsection \<open>Every request\<close>

lemma unprivileged_serve:
  assumes "\<forall>p \<in> payloads L E (changing_token c). ap_role p = User" "c \<noteq> SeedAdmin"
  shows "all_steps no_new_admin (serve L E c)"
proof (cases c)
  case PatchUser
  with assms show ?thesis by (auto intro!: all_steps_forget no_new_admin_patch)
next
  case DeleteUser
  then show ?thesis by (auto intro!: all_steps_forget no_new_admin_delete)
qed (use assms(2) in \<open>auto intro: unprivileged.calm_serve simp del: serve.simps\<close>)

lemma unconcerned_serve:
  assumes "\<forall>p \<in> payloads L E (changing_token c). ap_role p = User \<and> ap_sub p \<noteq> i" "c \<noteq> SeedAdmin"
  shows "all_steps (same_account i) (serve L E c)"
proof (cases c)
  case PatchUser
  with assms show ?thesis by (auto intro!: all_steps_forget same_account_patch)
next
  case DeleteUser
  with assms show ?thesis by (auto intro!: all_steps_forget same_account_delete)
qed (use assms(2) in \<open>auto intro: unconcerned.calm_serve simp del: serve.simps\<close>)

interpretation admins_within: interleaving env_step "\<lambda>w. admins w \<subseteq> A" "all_steps no_new_admin :: (world, 'a) prog \<Rightarrow> bool" for A
proof
  show "admins t \<subseteq> A" if "admins s \<subseteq> A" "env_step s t" for s t
    using that by (force simp: env_step_def admins_def)
qed (auto simp: subset_iff)

interpretation account_kept: interleaving env_step "\<lambda>w. account i w = a \<and> a \<noteq> []" "all_steps (same_account i) :: (world, 'a) prog \<Rightarrow> bool"
  for i a
  by unfold_locales (auto simp: env_step_def account_def)

subsection \<open>Properties\<close>

text \<open>C7. Without an administrator's token nobody becomes an administrator, and nobody touches the account
  of another: in every interleaving of any requests and jobs, with any outages, whose tokens for
  \<open>PATCH\<close> and \<open>DELETE /users/:id\<close> never stand for an administrator, every administrator was one before;
  and an account for which none of these tokens stands keeps its address, name, role and state of deletion.\<close>

theorem privileges_never_escalate:
  assumes "\<forall>c \<in> set calls. c \<noteq> SeedAdmin \<and> (\<forall>p \<in> payloads L E (changing_token c). ap_role p = User)"
    "pool_run env_step (w, map (serve L E) calls) (w', ps)"
  shows "(\<forall>v \<in> set (users w'). u_role v = Admin \<longrightarrow> (\<exists>u \<in> set (users w). u_id u = u_id v \<and> u_role u = Admin)) \<and>
    (\<forall>u \<in> set (users w). (\<forall>c \<in> set calls. \<forall>p \<in> payloads L E (changing_token c). ap_sub p \<noteq> u_id u) \<longrightarrow>
       (\<exists>v \<in> set (users w'). profile v = profile u))"
proof (intro conjI ballI impI)
  have "admins w' \<subseteq> admins w"
    using admins_within.run_keeps [OF assms(2)] assms(1) by (auto intro: unprivileged_serve)
  then show "\<exists>u \<in> set (users w). u_id u = u_id v \<and> u_role u = Admin" if "v \<in> set (users w')" "u_role v = Admin" for v
    using that by (force simp: admins_def)
next
  fix u assume u: "u \<in> set (users w)"
    and none: "\<forall>c \<in> set calls. \<forall>p \<in> payloads L E (changing_token c). ap_sub p \<noteq> u_id u"
  from u have mem: "profile u \<in> set (account (u_id u) w)" by (auto simp: account_def)
  then have "account (u_id u) w \<noteq> []" by auto
  moreover have "\<forall>p \<in> set (map (serve L E) calls). all_steps (same_account (u_id u)) p"
    using assms(1) none unconcerned_serve by fastforce
  ultimately have "account (u_id u) w' = account (u_id u) w"
    using account_kept.run_keeps [OF assms(2), of "u_id u" "account (u_id u) w"] by blast
  with mem have "profile u \<in> set (account (u_id u) w')" by simp
  then show "\<exists>v \<in> set (users w'). profile v = profile u" by (auto simp: account_def intro: sym)
qed

lemma demo_payloads: "p \<in> payloads demo_lib demo_env (Some demo_bearer) \<Longrightarrow> p = \<lparr>ap_sub = ''alice'', ap_role = User\<rparr>"
  using access_shape_claims [of "''alice''" User]
  by (auto simp: payloads_def demo_bearer_def demo_lib_def demo_jwt split: if_splits)

text \<open>Alice tries to promote herself and to rename Bob.\<close>

theorem privileges_never_escalate_witness:
  "\<exists>w' x y. pool_run env_step (demo_world\<lparr>users := [demo_user, demo_user\<lparr>u_id := ''bob'', u_email := ''bob@example.com''\<rparr>]\<rparr>,
       map (serve demo_lib demo_env)
         [PatchUser (Some demo_bearer) demo_request ''alice'' \<lparr>ub_name = None, ub_role = Some Admin\<rparr>,
          PatchUser (Some demo_bearer) demo_request ''bob'' \<lparr>ub_name = Some ''x'', ub_role = None\<rparr>]) (w', [finished x, finished y]) \<and>
     \<not> list_ex (\<lambda>v. u_role v = Admin) (users w') \<and>
     list_ex (\<lambda>v. u_id v = ''bob'' \<and> u_name v = u_name demo_user) (users w')"
proof -
  let ?bob = "demo_user\<lparr>u_id := ''bob'', u_email := ''bob@example.com''\<rparr>"
  let ?w = "demo_world\<lparr>users := [demo_user, ?bob]\<rparr>"
  let ?calls = "[PatchUser (Some demo_bearer) demo_request ''alice'' \<lparr>ub_name = None, ub_role = Some Admin\<rparr>,
    PatchUser (Some demo_bearer) demo_request ''bob'' \<lparr>ub_name = Some ''x'', ub_role = None\<rparr>]"
  obtain w' x y where run: "pool_run env_step (?w, map (serve demo_lib demo_env) ?calls) (w', [finished x, finished y])"
    using pool_run_both [of env_step ?w] by fastforce
  have "\<forall>c \<in> set ?calls. c \<noteq> SeedAdmin \<and> (\<forall>p \<in> payloads demo_lib demo_env (changing_token c). ap_role p = User)"
    by (auto dest!: demo_payloads)
  note safe = privileges_never_escalate [OF this run]
  have "\<exists>v \<in> set (users w'). profile v = profile ?bob"
    using safe [THEN conjunct2] by (auto dest!: demo_payloads)
  moreover have "\<forall>v \<in> set (users w'). u_role v \<noteq> Admin" using safe [THEN conjunct1] by auto
  ultimately show ?thesis using run by (fastforce simp: list_ex_iff profile_def)
qed

end
