(* ===== verification/Schemas.thy ===== *)
theory Schemas
  imports AuthModule
begin

text \<open>
  The request and response schemas of the two modules (\<open>src/modules/auth/model.ts\<close>,
  \<open>src/modules/user/model.ts\<close>, \<open>publicUser\<close> of \<open>src/lib/user-public.ts\<close>) as data, and what they
  mean for the handlers: which bodies reach them, and that their replies conform. Checking a value
  against a schema is the work of TypeBox: a parameter \<open>check\<close>, with its documented behaviour as the
  hypothesis \<open>typebox_ok\<close>.
\<close>

subsection \<open>Schemas\<close>

text \<open>
  The constructors of \<open>t\<close> the code uses: a string with minimal length, maximal length and format; a
  number with minimum, maximum and default; \<open>T_Sanitized\<close> is the transform \<open>sanitizedString\<close>.
\<close>

datatype schema =
    T_String "nat option" "nat option" "string option"
  | T_Number "rat option" "rat option" "rat option"
  | T_Boolean
  | T_Literal jsval
  | T_Optional schema
  | T_Object "(string \<times> schema) list"
  | T_Cookie "(string \<times> schema) list"
  | T_Array schema
  | T_Union "schema list"
  | T_Sanitized "nat option" "nat option"

abbreviation T_Text :: schema where
  "T_Text \<equiv> T_String None None None"

text \<open>The columns of \<open>dbSchema.select.users\<close> are derived by drizzle-typebox: a parameter \<open>cols\<close>.\<close>

definition publicUser :: "(string \<Rightarrow> schema) \<Rightarrow> schema" where
  "publicUser cols = T_Object
     [(''id'', cols ''id''), (''email'', cols ''email''), (''name'', cols ''name''), (''role'', cols ''role''),
      (''emailVerified'', T_Boolean), (''totpEnabled'', T_Boolean), (''createdAt'', cols ''createdAt'')]"

definition tokenResponse :: "(string \<Rightarrow> schema) \<Rightarrow> schema" where
  "tokenResponse cols = T_Object
     [(''accessToken'', T_Text), (''refreshToken'', T_Optional T_Text), (''user'', publicUser cols)]"

definition mfaChallengeResponse :: schema where
  "mfaChallengeResponse = T_Object [(''mfaRequired'', T_Literal (JBool True)), (''mfaToken'', T_Text)]"

definition T_Email :: schema where "T_Email = T_String None None (Some ''email'')"
definition T_Password :: schema where "T_Password = T_String (Some 8) (Some 128) None"
definition T_Code :: schema where "T_Code = T_String (Some 6) (Some 6) None"

definition registerBody :: schema where
  "registerBody = T_Object
     [(''email'', T_Email), (''password'', T_Password), (''name'', T_Optional (T_Sanitized None (Some 255)))]"

definition loginBody :: schema where
  "loginBody = T_Object [(''email'', T_Email), (''password'', T_Password)]"

definition refreshBody :: schema where
  "refreshBody = T_Optional (T_Object [(''refreshToken'', T_Optional (T_String (Some 1) None None))])"

definition refreshCookie :: schema where
  "refreshCookie = T_Cookie [(''refresh_token'', T_Optional T_Text)]"

definition verifyOtpBody :: schema where
  "verifyOtpBody = T_Object [(''code'', T_Code)]"

definition requestPasswordResetBody :: schema where
  "requestPasswordResetBody = T_Object [(''email'', T_Email)]"

definition resetPasswordBody :: schema where
  "resetPasswordBody = T_Object [(''email'', T_Email), (''code'', T_Code), (''password'', T_Password)]"

definition loginResponse :: "(string \<Rightarrow> schema) \<Rightarrow> schema" where
  "loginResponse cols = T_Union [tokenResponse cols, mfaChallengeResponse]"

definition twoFaVerifyBody :: schema where
  "twoFaVerifyBody = T_Object [(''mfaToken'', T_String (Some 1) None None), (''code'', T_Code)]"

definition twoFaCodeBody :: schema where
  "twoFaCodeBody = T_Object [(''code'', T_Code)]"

definition twoFaSetupResponse :: schema where
  "twoFaSetupResponse = T_Object [(''secret'', T_Text), (''otpauthUrl'', T_Text)]"

definition userList :: "(string \<Rightarrow> schema) \<Rightarrow> schema" where
  "userList cols = T_Array (publicUser cols)"

definition listQuery :: schema where
  "listQuery = T_Object
     [(''limit'', T_Optional (T_Number (Some 1) (Some 100) (Some 20))),
      (''offset'', T_Optional (T_Number (Some 0) None (Some 0)))]"

definition updateUserBody :: schema where
  "updateUserBody = T_Object
     [(''name'', T_Optional (T_Sanitized None (Some 255))),
      (''role'', T_Optional (T_Union [T_Literal (JStr ''user''), T_Literal (JStr ''admin'')]))]"

definition idParam :: schema where
  "idParam = T_Object [(''id'', T_String None None (Some ''uuid''))]"

lemmas schema_defs = publicUser_def tokenResponse_def mfaChallengeResponse_def T_Email_def T_Password_def T_Code_def
  registerBody_def loginBody_def refreshBody_def verifyOtpBody_def requestPasswordResetBody_def
  resetPasswordBody_def loginResponse_def twoFaVerifyBody_def twoFaCodeBody_def twoFaSetupResponse_def userList_def
  listQuery_def updateUserBody_def idParam_def

subsection \<open>Checking\<close>

fun is_optional :: "schema \<Rightarrow> bool" where
  "is_optional (T_Optional s) = True"
| "is_optional s = False"

definition in_range :: "'a::linorder option \<Rightarrow> 'a option \<Rightarrow> 'a \<Rightarrow> bool" where
  "in_range lo hi x \<longleftrightarrow> (case lo of None \<Rightarrow> True | Some a \<Rightarrow> a \<le> x) \<and> (case hi of None \<Rightarrow> True | Some b \<Rightarrow> x \<le> b)"

text \<open>
  What TypeBox documents of the checks used here; \<open>fmt\<close> decides a format. An optional property may be
  missing or \<open>undefined\<close>; of a transform the check sees the schema of the raw value.
\<close>

definition typebox_ok :: "(string \<Rightarrow> string \<Rightarrow> bool) \<Rightarrow> (schema \<Rightarrow> jsval \<Rightarrow> bool) \<Rightarrow> bool" where
  "typebox_ok fmt check \<longleftrightarrow>
     (\<forall>lo hi f v. check (T_String lo hi f) v \<longleftrightarrow>
        (\<exists>s. v = JStr s \<and> in_range lo hi (length s) \<and> (f = None \<or> fmt (the f) s))) \<and>
     (\<forall>lo hi d v. check (T_Number lo hi d) v \<longleftrightarrow> (\<exists>n. v = JNum n \<and> in_range lo hi n)) \<and>
     (\<forall>v. check T_Boolean v \<longleftrightarrow> (\<exists>b. v = JBool b)) \<and>
     (\<forall>l v. check (T_Literal l) v \<longleftrightarrow> v = l) \<and>
     (\<forall>s v. check (T_Optional s) v \<longleftrightarrow> check s v) \<and>
     (\<forall>fs v. check (T_Object fs) v \<longleftrightarrow> (\<exists>ps. v = JObj ps) \<and>
        (\<forall>(k, s) \<in> set fs. if get_prop k v = JUndefined then is_optional s else check s (get_prop k v))) \<and>
     (\<forall>s v. check (T_Array s) v \<longleftrightarrow> (\<exists>vs. v = JArr vs \<and> (\<forall>x \<in> set vs. check s x))) \<and>
     (\<forall>ss v. check (T_Union ss) v \<longleftrightarrow> (\<exists>s \<in> set ss. check s v)) \<and>
     (\<forall>lo hi v. check (T_Sanitized lo hi) v \<longleftrightarrow> (\<exists>s. v = JStr s \<and> length s \<le> RAW_MAX_LENGTH))"

lemma typebox_okD:
  assumes "typebox_ok fmt check"
  shows "check (T_String lo hi f) v \<longleftrightarrow> (\<exists>s. v = JStr s \<and> in_range lo hi (length s) \<and> (f = None \<or> fmt (the f) s))"
    "check (T_Number a b d) v \<longleftrightarrow> (\<exists>n. v = JNum n \<and> in_range a b n)" "check T_Boolean v \<longleftrightarrow> (\<exists>b. v = JBool b)"
    "check (T_Literal l) v \<longleftrightarrow> v = l" "check (T_Optional s) v \<longleftrightarrow> check s v"
    "check (T_Object fs) v \<longleftrightarrow> (\<exists>ps. v = JObj ps) \<and>
        (\<forall>(k, s) \<in> set fs. if get_prop k v = JUndefined then is_optional s else check s (get_prop k v))"
    "check (T_Array s) v \<longleftrightarrow> (\<exists>vs. v = JArr vs \<and> (\<forall>x \<in> set vs. check s x))"
    "check (T_Union ss) v \<longleftrightarrow> (\<exists>s \<in> set ss. check s v)"
    "check (T_Sanitized p q) v \<longleftrightarrow> (\<exists>s. v = JStr s \<and> length s \<le> RAW_MAX_LENGTH)"
  using assms unfolding typebox_ok_def by (elim conjE; simp only: simp_thms)+

text \<open>An instance, for witnesses.\<close>

fun demo_check :: "(string \<Rightarrow> string \<Rightarrow> bool) \<Rightarrow> schema \<Rightarrow> jsval \<Rightarrow> bool"
  and demo_fields :: "(string \<Rightarrow> string \<Rightarrow> bool) \<Rightarrow> (string \<times> schema) list \<Rightarrow> jsval \<Rightarrow> bool"
  and demo_any :: "(string \<Rightarrow> string \<Rightarrow> bool) \<Rightarrow> schema list \<Rightarrow> jsval \<Rightarrow> bool" where
  "demo_check fmt (T_String lo hi f) v =
     (case v of JStr s \<Rightarrow> in_range lo hi (length s) \<and> (f = None \<or> fmt (the f) s) | _ \<Rightarrow> False)"
| "demo_check fmt (T_Number lo hi d) v = (case v of JNum n \<Rightarrow> in_range lo hi n | _ \<Rightarrow> False)"
| "demo_check fmt T_Boolean v = (case v of JBool b \<Rightarrow> True | _ \<Rightarrow> False)"
| "demo_check fmt (T_Literal l) v = (v = l)"
| "demo_check fmt (T_Optional s) v = demo_check fmt s v"
| "demo_check fmt (T_Object fs) v = ((case v of JObj ps \<Rightarrow> True | _ \<Rightarrow> False) \<and> demo_fields fmt fs v)"
| "demo_check fmt (T_Cookie fs) v = ((case v of JObj ps \<Rightarrow> True | _ \<Rightarrow> False) \<and> demo_fields fmt fs v)"
| "demo_check fmt (T_Array s) v = (case v of JArr vs \<Rightarrow> list_all (demo_check fmt s) vs | _ \<Rightarrow> False)"
| "demo_check fmt (T_Union ss) v = demo_any fmt ss v"
| "demo_check fmt (T_Sanitized lo hi) v = (case v of JStr s \<Rightarrow> length s \<le> RAW_MAX_LENGTH | _ \<Rightarrow> False)"
| "demo_fields fmt [] v = True"
| "demo_fields fmt ((k, s) # fs) v =
     ((if get_prop k v = JUndefined then is_optional s else demo_check fmt s (get_prop k v)) \<and> demo_fields fmt fs v)"
| "demo_any fmt [] v = False"
| "demo_any fmt (s # ss) v = (demo_check fmt s v \<or> demo_any fmt ss v)"

lemma demo_fields_iff:
  "demo_fields fmt fs v \<longleftrightarrow>
     (\<forall>(k, s) \<in> set fs. if get_prop k v = JUndefined then is_optional s else demo_check fmt s (get_prop k v))"
proof (induction fs)
  case (Cons a fs)
  then show ?case by (cases a) (simp del: if_split)
qed simp

lemma demo_any_iff: "demo_any fmt ss v \<longleftrightarrow> (\<exists>s \<in> set ss. demo_check fmt s v)"
  by (induction ss) auto

lemma demo_check_ok: "typebox_ok fmt (demo_check fmt)"
  unfolding typebox_ok_def demo_check.simps demo_fields_iff demo_any_iff
  by (intro conjI allI) (simp_all add: list_all_iff split: jsval.split)

lemma required_field:
  assumes "typebox_ok fmt check" "check (T_Object fs) v" "(k, s) \<in> set fs" "\<not> is_optional s"
  shows "check s (get_prop k v)"
  using assms(2-4) unfolding typebox_okD(6) [OF assms(1)] by (fastforce split: if_splits)

lemma optional_field:
  assumes "typebox_ok fmt check" "check (T_Object fs) v" "(k, T_Optional s) \<in> set fs"
  shows "get_prop k v = JUndefined \<or> check s (get_prop k v)"
  using assms(2,3) unfolding typebox_okD(6) [OF assms(1)]
  by (fastforce simp: typebox_okD(5) [OF assms(1)] split: if_splits)

lemma accepted:
  assumes "typebox_ok fmt check"
  shows "check T_Code x \<longleftrightarrow> (\<exists>c. x = JStr c \<and> length c = 6)"
    "check T_Password x \<longleftrightarrow> (\<exists>p. x = JStr p \<and> 8 \<le> length p \<and> length p \<le> 128)"
    "check (T_String (Some 1) None None) x \<longleftrightarrow> (\<exists>t. x = JStr t \<and> t \<noteq> [])"
    "check (T_String (Some (Suc 0)) None None) x \<longleftrightarrow> (\<exists>t. x = JStr t \<and> t \<noteq> [])"
    "\<not> is_optional T_Code" "\<not> is_optional T_Password"
  by (auto simp: T_Code_def T_Password_def typebox_okD [OF assms] in_range_def Suc_le_eq)

subsection \<open>Bodies and replies as JSON\<close>

text \<open>
  The text a body carries in a field, as the handler sees it: decoded by the transform of the field's
  schema where it has one, with the bounds given there. \<open>None\<close> when the body has no text in the field.
\<close>

fun decode_with :: "lib \<Rightarrow> schema \<Rightarrow> string \<Rightarrow> decoded" where
  "decode_with L (T_Sanitized minLength maxLength) s = sanitizedString L minLength maxLength s"
| "decode_with L (T_Optional schema) s = decode_with L schema s"
| "decode_with L schema s = Clean s"

fun fields_of :: "schema \<Rightarrow> (string \<times> schema) list" where
  "fields_of (T_Object fs) = fs"
| "fields_of schema = []"

definition decoded_field :: "lib \<Rightarrow> schema \<Rightarrow> string \<Rightarrow> jsval \<Rightarrow> decoded option" where
  "decoded_field L body k v =
     (case get_prop k v of
        JStr s \<Rightarrow> Some (case map_of (fields_of body) k of None \<Rightarrow> Clean s | Some schema \<Rightarrow> decode_with L schema s)
      | _ \<Rightarrow> None)"

text \<open>The replies; a date is its time in milliseconds.\<close>

definition user_json :: "public_user \<Rightarrow> jsval" where
  "user_json p = JObj
     [(''id'', JStr (pu_id p)), (''email'', JStr (pu_email p)),
      (''name'', case pu_name p of None \<Rightarrow> JNull | Some n \<Rightarrow> JStr n), (''role'', JStr (role_name (pu_role p))),
      (''emailVerified'', JBool (pu_emailVerified p)), (''totpEnabled'', JBool (pu_totpEnabled p)),
      (''createdAt'', JNum (of_int (pu_createdAt p)))]"

definition session_json :: "session \<Rightarrow> jsval" where
  "session_json s = JObj
     ((''accessToken'', JStr (tk_access (ss_tokens s))) #
      (case tk_refresh (ss_tokens s) of None \<Rightarrow> [] | Some r \<Rightarrow> [(''refreshToken'', JStr r)]) @
      [(''user'', user_json (ss_user s))])"

definition login_json :: "login_reply \<Rightarrow> jsval" where
  "login_json r = (case r of LoggedIn s \<Rightarrow> session_json s
     | MfaRequired tok \<Rightarrow> JObj [(''mfaRequired'', JBool True), (''mfaToken'', JStr tok)])"

definition setup_json :: "string \<times> string \<Rightarrow> jsval" where
  "setup_json r = JObj [(''secret'', JStr (fst r)), (''otpauthUrl'', JStr (snd r))]"

text \<open>A row's columns pass the schemas derived from the table.\<close>

definition row_conforms :: "(schema \<Rightarrow> jsval \<Rightarrow> bool) \<Rightarrow> (string \<Rightarrow> schema) \<Rightarrow> user \<Rightarrow> bool" where
  "row_conforms check cols u \<longleftrightarrow>
     (\<forall>c \<in> {''id'', ''email'', ''name'', ''role'', ''createdAt''}. check (cols c) (get_prop c (user_json (toPublicUser u))))"

lemma user_props [simp]:
  "get_prop ''id'' (user_json p) \<noteq> JUndefined" "get_prop ''email'' (user_json p) \<noteq> JUndefined"
  "get_prop ''name'' (user_json p) \<noteq> JUndefined" "get_prop ''role'' (user_json p) \<noteq> JUndefined"
  "get_prop ''createdAt'' (user_json p) \<noteq> JUndefined"
  "get_prop ''emailVerified'' (user_json p) = JBool (pu_emailVerified p)"
  "get_prop ''totpEnabled'' (user_json p) = JBool (pu_totpEnabled p)"
  by (simp_all add: user_json_def split: option.split)

lemma user_conforms:
  assumes "typebox_ok fmt check" "row_conforms check cols u"
  shows "check (publicUser cols) (user_json (toPublicUser u))"
proof -
  let ?v = "user_json (toPublicUser u)"
  have "\<exists>ps. ?v = JObj ps" by (simp add: user_json_def)
  then show ?thesis
    using assms(2) by (simp add: publicUser_def typebox_okD [OF assms(1)] row_conforms_def)
qed

lemma session_conforms:
  assumes "typebox_ok fmt check" "row_conforms check cols u" "ss_user s = toPublicUser u"
  shows "check (tokenResponse cols) (session_json s)"
proof -
  have user: "get_prop ''user'' (session_json s) = user_json (toPublicUser u)"
    and access: "get_prop ''accessToken'' (session_json s) = JStr (tk_access (ss_tokens s))"
    and refr: "get_prop ''refreshToken'' (session_json s) =
      (case tk_refresh (ss_tokens s) of None \<Rightarrow> JUndefined | Some r \<Rightarrow> JStr r)"
    by (simp_all add: session_json_def assms(3) split: option.split)
  have "user_json (toPublicUser u) \<noteq> JUndefined" by (simp add: user_json_def)
  moreover have "\<exists>ps. session_json s = JObj ps" by (simp add: session_json_def)
  ultimately show ?thesis
    using user_conforms [OF assms(1,2)]
    by (simp add: tokenResponse_def typebox_okD [OF assms(1)] user access refr in_range_def split: option.split)
qed

lemma log_in_user: "run (log_in L E u f) w = (Inr s, w') \<Longrightarrow> ss_user s = toPublicUser u"
  by (auto simp: log_in_def run_simps split: prod.splits sum.splits)

subsection \<open>Properties\<close>


definition any_cols :: "string \<Rightarrow> schema" where
  "any_cols c = (if c = ''createdAt'' then T_Number None None None
     else if c = ''name'' then T_Union [T_Text, T_Literal JNull] else T_Text)"


text \<open>What the service hands out, seen in its results.\<close>

lemma issued_refresh_token:
  "run (issueTokens L E i r f) w = (Inr t, w') \<Longrightarrow> tk_refresh t = Some tok \<Longrightarrow> \<exists>n. tok = minted L n"
  by (auto simp: issueTokens_def run_simps minted_def split: prod.splits sum.splits if_splits)

lemma issued_challenge:
  "run (createLoginChallenge L i) w = (Inr tok, w') \<Longrightarrow> \<exists>n. tok = minted L n"
  by (auto simp: createLoginChallenge_def Let_def run_simps minted_def split: prod.splits sum.splits)

lemma name_bound:
  "decoded_field L registerBody ''name'' v = Some (Clean n) \<Longrightarrow> length n \<le> 255"
  "decoded_field L updateUserBody ''name'' v = Some (Clean n) \<Longrightarrow> length n \<le> 255"
  by (auto simp: decoded_field_def registerBody_def updateUserBody_def sanitizedString_def Let_def
      split: if_splits jsval.splits)

text \<open>C29. The request schemas bound what the handlers see and admit what the service hands out. An
  accepted password has 8 to 128 characters, an accepted code six, a refresh or MFA token at least one,
  and a name that comes out of the decoding of a registration or an update at most the 255 of its
  column. The code in a mail that an issue sends, for a verification or a reset, passes the schema of the
  route that takes it, and so do the refresh token of every session issued in bearer mode and the MFA
  token of every challenge.\<close>

theorem request_schemas_fit:
  fixes L :: lib and E :: env
  assumes "typebox_ok fmt check" "rand_bytes_ok L"
  shows "(check registerBody v \<longrightarrow> (\<exists>p. get_prop ''password'' v = JStr p \<and> 8 \<le> length p \<and> length p \<le> 128)) \<and>
    (\<forall>n. decoded_field L registerBody ''name'' v = Some (Clean n) \<or>
       decoded_field L updateUserBody ''name'' v = Some (Clean n) \<longrightarrow> length n \<le> 255) \<and>
    (check resetPasswordBody v \<longrightarrow> (\<exists>c p. get_prop ''code'' v = JStr c \<and> length c = 6 \<and>
      get_prop ''password'' v = JStr p \<and> 8 \<le> length p \<and> length p \<le> 128)) \<and>
    (check twoFaVerifyBody v \<longrightarrow> (\<exists>t c. get_prop ''mfaToken'' v = JStr t \<and> t \<noteq> [] \<and> get_prop ''code'' v = JStr c \<and> length c = 6)) \<and>
    (check refreshBody v \<longrightarrow> get_prop ''refreshToken'' v = JUndefined \<or>
      (\<exists>t. get_prop ''refreshToken'' v = JStr t \<and> truthy_str (Some t))) \<and>
    (\<forall>w w' i e. rd w = Up \<and> mail_ok E w \<and> run (otp_issue L E i e) w = (Inr (), w') \<longrightarrow>
      (\<exists>c m. newest_mail E w' = Some m \<and> m_text m = ''Your email verification code is '' @ c @ ''. It expires in 10 minutes.'' \<and>
        check verifyOtpBody (JObj [(''code'', JStr c)]))) \<and>
    (\<forall>w e u p. pg w = Up \<and> rd w = Up \<and> mail_ok E w \<and> find (active_email e) (users w) = Some u \<and>
       redis_look w (pwreset_cooldownKey (u_id u)) = None \<and> fmt ''email'' e \<and> 8 \<le> length p \<and> length p \<le> 128 \<longrightarrow>
      (\<exists>c m. newest_mail E (snd (run (pwreset_request L E e) w)) = Some m \<and>
        m_text m = ''Your password reset code is '' @ c @ ''. It expires in 15 minutes. If you didn't request this, ignore this email.'' \<and>
        check resetPasswordBody (JObj [(''email'', JStr e), (''code'', JStr c), (''password'', JStr p)]))) \<and>
    (\<forall>w w' i r f t tok. run (issueTokens L E i r f) w = (Inr t, w') \<and> tk_refresh t = Some tok \<longrightarrow>
      check refreshBody (JObj [(''refreshToken'', JStr tok)])) \<and>
    (\<forall>w w' i tok c. run (createLoginChallenge L i) w = (Inr tok, w') \<and> length c = 6 \<longrightarrow>
      check twoFaVerifyBody (JObj [(''mfaToken'', JStr tok), (''code'', JStr c)]))"
proof (intro conjI allI impI)
  note T = typebox_okD [OF assms(1)]
  have m: "length (minted L i) = 43" for i by (simp add: minted_def randomToken_length [OF assms(2)])
  show "\<exists>p. get_prop ''password'' v = JStr p \<and> 8 \<le> length p \<and> length p \<le> 128" if "check registerBody v"
    using that [unfolded registerBody_def, THEN required_field [OF assms(1), where k = "''password''" and s = T_Password]]
    by (simp add: accepted [OF assms(1)])
  show "length n \<le> 255" if "decoded_field L registerBody ''name'' v = Some (Clean n) \<or>
      decoded_field L updateUserBody ''name'' v = Some (Clean n)" for n
    using that name_bound by blast
  show "\<exists>c p. get_prop ''code'' v = JStr c \<and> length c = 6 \<and>
      get_prop ''password'' v = JStr p \<and> 8 \<le> length p \<and> length p \<le> 128" if "check resetPasswordBody v"
    using that [unfolded resetPasswordBody_def, THEN required_field [OF assms(1), where k = "''code''" and s = T_Code]]
      that [unfolded resetPasswordBody_def, THEN required_field [OF assms(1), where k = "''password''" and s = T_Password]]
    by (simp add: accepted [OF assms(1)])
  show "\<exists>t c. get_prop ''mfaToken'' v = JStr t \<and> t \<noteq> [] \<and> get_prop ''code'' v = JStr c \<and> length c = 6"
    if "check twoFaVerifyBody v"
    using that [unfolded twoFaVerifyBody_def, THEN required_field [OF assms(1), where k = "''code''" and s = T_Code]]
      that [unfolded twoFaVerifyBody_def, THEN required_field [OF assms(1), where k = "''mfaToken''" and s = "T_String (Some 1) None None"]]
    by (simp add: accepted [OF assms(1)])
  show "get_prop ''refreshToken'' v = JUndefined \<or> (\<exists>t. get_prop ''refreshToken'' v = JStr t \<and> truthy_str (Some t))"
    if "check refreshBody v"
    using that [unfolded refreshBody_def T(5), THEN optional_field [OF assms(1), where k = "''refreshToken''" and s = "T_String (Some 1) None None"]]
    by (simp add: accepted [OF assms(1)])
  show "\<exists>c m. newest_mail E w' = Some m \<and> m_text m = ''Your email verification code is '' @ c @ ''. It expires in 10 minutes.'' \<and>
      check verifyOtpBody (JObj [(''code'', JStr c)])"
    if "rd w = Up \<and> mail_ok E w \<and> run (otp_issue L E i e) w = (Inr (), w')" for w w' i e
  proof -
    have "check verifyOtpBody (JObj [(''code'', JStr (code_of_u32 x))])" for x
      by (simp add: schema_defs T in_range_def code_of_u32_length)
    with that show ?thesis by (blast intro: otp_mailed verification_mail(2))
  qed
  show "\<exists>c m. newest_mail E (snd (run (pwreset_request L E e) w)) = Some m \<and>
      m_text m = ''Your password reset code is '' @ c @ ''. It expires in 15 minutes. If you didn't request this, ignore this email.'' \<and>
      check resetPasswordBody (JObj [(''email'', JStr e), (''code'', JStr c), (''password'', JStr p)])"
    if "pg w = Up \<and> rd w = Up \<and> mail_ok E w \<and> find (active_email e) (users w) = Some u \<and>
       redis_look w (pwreset_cooldownKey (u_id u)) = None \<and> fmt ''email'' e \<and> 8 \<le> length p \<and> length p \<le> 128" for w e u p
  proof -
    have "check resetPasswordBody (JObj [(''email'', JStr e), (''code'', JStr (code_of_u32 x)), (''password'', JStr p)])" for x
      using that by (simp add: schema_defs T in_range_def code_of_u32_length)
    with that show ?thesis by (blast intro: pwreset_mailed reset_mail(2))
  qed
  show "check refreshBody (JObj [(''refreshToken'', JStr tok)])"
    if "run (issueTokens L E i r f) w = (Inr t, w') \<and> tk_refresh t = Some tok" for w w' i r f t tok
    using that issued_refresh_token [of L E i r f w t w' tok] m by (auto simp: schema_defs T in_range_def)
  show "check twoFaVerifyBody (JObj [(''mfaToken'', JStr tok), (''code'', JStr c)])"
    if "run (createLoginChallenge L i) w = (Inr tok, w') \<and> length c = 6" for w w' i tok c
    using that issued_challenge [of L i w tok w'] m by (auto simp: schema_defs T in_range_def)
qed

theorem request_schemas_fit_witness:
  "\<exists>c m. newest_mail demo_env otp_world = Some m \<and>
     m_text m = ''Your email verification code is '' @ c @ ''. It expires in 10 minutes.'' \<and>
     demo_check (\<lambda>f s. True) verifyOtpBody (JObj [(''code'', JStr c)])"
proof -
  have "rd demo_world = Up \<and> mail_ok demo_env demo_world \<and>
      run (otp_issue demo_lib demo_env ''alice'' ''alice@example.com'') demo_world = (Inr (), otp_world)"
    using otp_world_issued by simp
  from request_schemas_fit [OF demo_check_ok demo_lib_ok(4), where E = demo_env, THEN conjunct2, THEN conjunct2, THEN conjunct2,
        THEN conjunct2, THEN conjunct2, THEN conjunct1, rule_format, OF this] show ?thesis .
qed

text \<open>A page of half a user: the query schema accepts any number from one to a hundred as a limit, and
  the database no fraction; for a caller who may list users the request ends in an internal error.\<close>

theorem fractional_limit_fails:
  fixes L :: lib and E :: env and w :: world
  assumes "typebox_ok fmt check" "pg w = Up" "caller L E bearer (clock w) = Some p" "gate_open E (ap_sub p) w"
    "1 \<le> x" "x \<le> 100" "x \<noteq> of_int \<lfloor>x\<rfloor>"
  shows "check listQuery (JObj [(''limit'', JNum x)]) \<and>
    (\<exists>e. fst (run (get_users L E bearer (Some x) None) w) = Inl e \<and>
       er_status (errorPlugin_onError production ''UNKNOWN'' e) = 500)"
proof -
  have "resolveScope User (action_part 0 ''user:read'') (action_part 1 ''user:read'') \<noteq> None"
    "resolveScope Admin (action_part 0 ''user:read'') (action_part 1 ''user:read'') \<noteq> None" by code_simp+
  then have "resolveScope (ap_role p) (action_part 0 ''user:read'') (action_part 1 ''user:read'') \<noteq> None"
    by (cases "ap_role p") (simp_all only: not_False_eq_True)
  then obtain sc where sc: "resolveScope (ap_role p) (action_part 0 ''user:read'') (action_part 1 ''user:read'') = Some sc" by blast
  have "page_rows L x k own w = Inl (DrizzleQueryError ''22P02'')" for k own
    using assms(7) by (simp add: page_rows_def bigint_param_def)
  then have "fst (run (get_users L E bearer (Some x) None) w) = Inl (DrizzleQueryError ''22P02'')"
    using sc assms(2-4) by (simp add: get_users_def run_simps run_can)
  moreover have "check listQuery (JObj [(''limit'', JNum x)])"
    using assms(5,6) by (simp add: schema_defs typebox_okD [OF assms(1)] in_range_def)
  ultimately show ?thesis by (simp add: DrizzleQueryError_def errorPlugin_onError_def)
qed

text \<open>C30. A long address breaks the registration: the schema bounds the length of every text but the
  email, whose column holds 255 characters; a longer address that is well formed is accepted, and the
  registration ends in an internal error, status 500, without an account.\<close>

theorem long_address_fails:
  fixes L :: lib and E :: env and w :: world
  assumes "typebox_ok fmt check" "fmt ''email'' email" "length email > 255" "8 \<le> length password" "length password \<le> 128"
    "pg w = Up" "\<not> list_ex (active_email email) (users w)"
  shows "check registerBody (JObj [(''email'', JStr email), (''password'', JStr password)]) \<and>
    (\<exists>e. fst (run (register L E req email password None) w) = Inl e \<and>
       er_status (errorPlugin_onError production ''UNKNOWN'' e) = 500) \<and>
    users (snd (run (register L E req email password None) w)) = users w"
proof -
  have "\<not> user_fits (registered L email password None w)"
    using assms(3) by (simp add: user_fits_def registered_def new_user_def)
  then have "run (createUser L email password None) w = (Inl (DrizzleQueryError ''22001''), w\<lparr>rng := rng w + 2\<rparr>)"
    using assms(7) by (simp add: run_createUser [OF assms(6)])
  then have "run (register L E req email password None) w = (Inl (DrizzleQueryError ''22001''), w\<lparr>rng := rng w + 2\<rparr>)"
    by (simp add: register_def run_simps)
  then show ?thesis
    using assms(2,4,5)
    by (simp add: schema_defs typebox_okD [OF assms(1)] in_range_def DrizzleQueryError_def errorPlugin_onError_def)
qed

theorem long_address_fails_witness:
  "\<exists>e. fst (run (register demo_lib demo_env demo_request (replicate 300 (CHR ''a'')) ''password'' None) demo_world) = Inl e \<and>
     er_status (errorPlugin_onError True ''UNKNOWN'' e) = 500"
proof -
  have "''alice@example.com'' \<noteq> replicate 300 (CHR ''a'')"
    by (rule notI, drule arg_cong [where f = length]) simp
  then have "\<not> list_ex (active_email (replicate 300 (CHR ''a''))) (users demo_world)" by (simp add: active_email_def)
  then show ?thesis
    using long_address_fails [OF demo_check_ok [of "\<lambda>f s. True"], of "replicate 300 (CHR ''a'')" "''password''" demo_world]
    by simp
qed

end
