(* ===== verification/RateLimit.thy ===== *)
theory RateLimit
  imports Cache RequestInfo
begin

text \<open>
  Rate limiting: the Redis store (\<open>src/plugins/rate-limit-store.ts\<close>) with its fixed window and its
  behaviour when Redis fails, and the keys of the limiters (\<open>src/plugins/rate-limit.ts\<close>).
\<close>

record rate_store =
  rs_prefix :: string
  rs_timeoutMs :: int

definition RedisRateStore :: "string option \<Rightarrow> int option \<Rightarrow> rate_store" where
  "RedisRateStore prefix timeoutMs =
     \<lparr>rs_prefix = default_arg ''rl'' prefix, rs_timeoutMs = default_arg 2000 timeoutMs\<rparr>"

definition store_key :: "rate_store \<Rightarrow> string \<Rightarrow> string" where
  "store_key s key = rs_prefix s @ '':'' @ key"

record hit =
  h_count :: int
  h_nextReset :: int
  h_start :: int

text \<open>\<open>Math.ceil(duration / 1000)\<close>\<close>

definition ceil_seconds :: "int \<Rightarrow> int" where
  "ceil_seconds duration = (duration + 999) div 1000"

definition increment :: "rate_store \<Rightarrow> string \<Rightarrow> int option \<Rightarrow> int option \<Rightarrow> (world, hit) prog" where
  "increment s key duration_arg requestTime_arg =
     bnd now (\<lambda>t.
     let duration = default_arg 60000 duration_arg;
         requestTime = default_arg t requestTime_arg;
         k = store_key s key in
     try_catch
       (bnd (bounded (rs_timeoutMs s) (redis_INCR k)) (\<lambda>count.
        sequ (if count = 1
              then sequ (bounded (rs_timeoutMs s) (redis_EXPIRE k (ceil_seconds duration))) (Ret ())
              else Ret ())
        (bnd (bounded (rs_timeoutMs s) (\<lambda>w. (Inr (redis_TTL k w), w))) (\<lambda>ttl.
         Ret \<lparr>h_count = count,
              h_nextReset = requestTime + (if ttl > 0 then ttl * 1000 else duration),
              h_start = requestTime\<rparr>))))
       (\<lambda>err. Ret \<lparr>h_count = 1, h_nextReset = requestTime + duration, h_start = requestTime\<rparr>))"

definition decrement :: "rate_store \<Rightarrow> string \<Rightarrow> (world, unit) prog" where
  "decrement s key =
     try_catch (sequ (bounded (rs_timeoutMs s) (redis_DECR (store_key s key))) (Ret ())) (\<lambda>err. Ret ())"

definition reset :: "rate_store \<Rightarrow> string option \<Rightarrow> (world, unit) prog" where
  "reset s key =
     (if \<not> truthy_str key then Ret ()
      else try_catch
        (sequ (bounded (rs_timeoutMs s) (\<lambda>w. (Inr (), redis_drop (store_key s (the key)) w))) (Ret ()))
        (\<lambda>err. Ret ()))"

subsection \<open>The limiters\<close>

text \<open>\<open>store(keyspace)\<close>\<close>

definition limiter_store :: "string option \<Rightarrow> rate_store" where
  "limiter_store keyspace =
     RedisRateStore (Some (if truthy_str keyspace then ''rl:'' @ the keyspace else ''rl'')) None"

definition ip_key :: "env \<Rightarrow> request \<Rightarrow> string" where
  "ip_key E req = ''ip:'' @ clientIp E req"

text \<open>\<open>derived?.user?.sub\<close>, the bearer token's first 32 characters, or the address.\<close>

definition user_key :: "env \<Rightarrow> request \<Rightarrow> string option \<Rightarrow> string" where
  "user_key E req sub =
     (if truthy_str sub then ''user:'' @ the sub
      else (case rq_header req ''authorization'' of
              Some auth \<Rightarrow> if starts_with ''Bearer '' auth then ''token:'' @ slice 7 39 auth
                          else ''ip:'' @ clientIp E req
            | None \<Rightarrow> ''ip:'' @ clientIp E req))"

definition rate_limit_skip :: "env \<Rightarrow> bool" where
  "rate_limit_skip E = isTest E"

text \<open>The options of a limiter with their defaults; counting the hits against \<open>max\<close> is the work of
  elysia-rate-limit.\<close>

record limiter =
  lm_max :: int
  lm_duration :: int
  lm_store :: rate_store
  lm_key :: "env \<Rightarrow> request \<Rightarrow> string option \<Rightarrow> string"
  lm_skip :: "env \<Rightarrow> bool"
  lm_status :: nat
  lm_error :: "string \<times> string"

definition ipRateLimit :: "int option \<Rightarrow> int option \<Rightarrow> string option \<Rightarrow> limiter" where
  "ipRateLimit max_arg duration keyspace =
     \<lparr>lm_max = default_arg 20 max_arg, lm_duration = default_arg 60000 duration, lm_store = limiter_store keyspace,
      lm_key = (\<lambda>E req sub. ip_key E req), lm_skip = rate_limit_skip, lm_status = 429,
      lm_error = (''RATE_LIMITED'', ''Too many requests'')\<rparr>"

definition userRateLimit :: "int option \<Rightarrow> int option \<Rightarrow> string option \<Rightarrow> limiter" where
  "userRateLimit max_arg duration keyspace =
     \<lparr>lm_max = default_arg 60 max_arg, lm_duration = default_arg 60000 duration, lm_store = limiter_store keyspace,
      lm_key = user_key, lm_skip = rate_limit_skip, lm_status = 429,
      lm_error = (''RATE_LIMITED'', ''Too many requests'')\<rparr>"

text \<open>The limiters of the two modules.\<close>

definition credentialLimiter :: limiter where
  "credentialLimiter = ipRateLimit (Some 10) (Some 60000) (Some ''auth-cred'')"

definition sessionLimiter :: limiter where
  "sessionLimiter = ipRateLimit (Some 20) (Some 60000) (Some ''auth'')"

definition userLimiter :: limiter where
  "userLimiter = userRateLimit (Some 60) (Some 60000) (Some ''user'')"

subsection \<open>Execution\<close>

lemma run_bounded: "run (bounded ms f) w =
    (case rd w of Up \<Rightarrow> f w | Down \<Rightarrow> (Inl (timeout_error ms), w) | Lost \<Rightarrow> (Inl (timeout_error ms), snd (f w)))"
  by (simp add: bounded_def run_over_link)

lemma increment_never_throws: "\<exists>h. fst (run (increment s key d t) w) = Inr h"
  by (auto simp: increment_def Let_def run_simps split: prod.split sum.split)

definition open_hit :: "int \<Rightarrow> int \<Rightarrow> hit" where
  "open_hit requestTime duration = \<lparr>h_count = 1, h_nextReset = requestTime + duration, h_start = requestTime\<rparr>"

lemma increment_fails_open:
  "rd w \<noteq> Up \<Longrightarrow> fst (run (increment s key (Some d) (Some t)) w) = Inr (open_hit t d)"
  by (cases "rd w") (simp_all add: increment_def Let_def run_simps run_bounded open_hit_def)

text \<open>The first hit of a window, and a later one.\<close>

lemma run_increment_first:
  assumes "rd w = Up" "redis_look w (store_key s key) = None" "0 < d"
  shows "run (increment s key (Some d) (Some t)) w =
    (Inr \<lparr>h_count = 1, h_nextReset = t + ceil_seconds d * 1000, h_start = t\<rparr>,
     redis_put (store_key s key) ''1'' (Some (ceil_seconds d)) (redis_keep_ttl (store_key s key) (show_int 1) w))"
proof -
  let ?k = "store_key s key"
  have c: "0 < ceil_seconds d" using assms(3) by (simp add: ceil_seconds_def)
  have one: "show_int 1 = ''1''" by code_simp
  let ?w = "redis_keep_ttl ?k (show_int 1) w"
  have exp: "redis_EXPIRE ?k (ceil_seconds d) ?w = (Inr 1, redis_put ?k ''1'' (Some (ceil_seconds d)) ?w)"
    using c by (simp add: redis_EXPIRE_def one)
  have ttl: "redis_TTL ?k (redis_put ?k ''1'' (Some (ceil_seconds d)) ?w) = ceil_seconds d"
    using c by (simp add: redis_TTL_def) (simp add: redis_put_def)
  show ?thesis
    using assms c exp ttl by (simp add: increment_def Let_def run_simps run_bounded)
qed

lemma run_increment_next:
  assumes "rd w = Up" "redis_look w (store_key s key) = Some (show_int n)" "0 < n"
  shows "fst (run (increment s key (Some d) (Some t)) w) =
      Inr \<lparr>h_count = n + 1,
           h_nextReset = t + (let ttl = redis_TTL (store_key s key) (redis_keep_ttl (store_key s key) (show_int (n + 1)) w)
                              in if ttl > 0 then ttl * 1000 else d),
           h_start = t\<rparr>"
    and "snd (run (increment s key (Some d) (Some t)) w) = redis_keep_ttl (store_key s key) (show_int (n + 1)) w"
  using assms by (simp_all add: increment_def Let_def run_simps run_bounded)

subsection \<open>A window\<close>

text \<open>Hits on one key, each after a delay.\<close>

fun hits :: "rate_store \<Rightarrow> string \<Rightarrow> int \<Rightarrow> int list \<Rightarrow> world \<Rightarrow> int list" where
  "hits s key d [] w = []"
| "hits s key d (dt # dts) w =
     (case run (increment s key (Some d) None) (advance dt w) of
        (r, w') \<Rightarrow> (case r of Inl e \<Rightarrow> 0 | Inr h \<Rightarrow> h_count h) # hits s key d dts w')"

lemma increment_default_time:
  "run (increment s key (Some d) None) w = run (increment s key (Some d) (Some (clock w))) w"
  by (simp add: increment_def run_simps Let_def)

text \<open>The state after them.\<close>

fun after_hits :: "rate_store \<Rightarrow> string \<Rightarrow> int \<Rightarrow> int list \<Rightarrow> world \<Rightarrow> world" where
  "after_hits s key d [] w = w"
| "after_hits s key d (dt # dts) w = after_hits s key d dts (snd (run (increment s key (Some d) None) (advance dt w)))"

lemma hits_append: "hits s key d (xs @ ys) w = hits s key d xs w @ hits s key d ys (after_hits s key d xs w)"
  by (induction xs arbitrary: w) (simp_all split: prod.split)

text \<open>Hits on an entry with the count \<open>n\<close>, the last of them before its expiry.\<close>

lemma hits_running:
  assumes "rd w = Up" "redis w (store_key s key) = Some (show_int n, ex)" "0 < n"
    "list_all (\<lambda>x. 0 \<le> x) dts" "\<forall>e. ex = Some e \<longrightarrow> clock w + sum_list dts < e"
  shows "hits s key d dts w = map (\<lambda>i. n + 1 + int i) [0..<length dts]"
    and "rd (after_hits s key d dts w) = Up"
    and "clock (after_hits s key d dts w) = clock w + sum_list dts"
    and "redis (after_hits s key d dts w) (store_key s key) = Some (show_int (n + int (length dts)), ex)"
proof -
  have "hits s key d dts w = map (\<lambda>i. n + 1 + int i) [0..<length dts] \<and>
    rd (after_hits s key d dts w) = Up \<and> clock (after_hits s key d dts w) = clock w + sum_list dts \<and>
    redis (after_hits s key d dts w) (store_key s key) = Some (show_int (n + int (length dts)), ex)"
    using assms
  proof (induction dts arbitrary: w n)
    case (Cons dt dts)
    let ?k = "store_key s key" and ?w = "advance dt w"
    have "0 \<le> sum_list dts" using Cons.prems(4) by (auto simp: list_all_iff intro: sum_list_nonneg)
    then have live: "redis_look ?w ?k = Some (show_int n)"
      using Cons.prems by (cases ex) (simp_all add: redis_look_def)
    let ?v = "redis_keep_ttl ?k (show_int (n + 1)) ?w"
    have v: "rd ?v = Up" "redis ?v ?k = Some (show_int (n + 1), ex)" "clock ?v = clock w + dt"
      using Cons.prems live by (simp_all add: redis_keep_ttl_def)
    have rest: "hits s key d dts ?v = map (\<lambda>i. n + 2 + int i) [0..<length dts]"
      "rd (after_hits s key d dts ?v) = Up" "clock (after_hits s key d dts ?v) = clock w + dt + sum_list dts"
      "redis (after_hits s key d dts ?v) ?k = Some (show_int (n + 1 + int (length dts)), ex)"
      using Cons.IH [of ?v "n + 1"] v Cons.prems by (simp_all add: algebra_simps)
    have "run (increment s key (Some d) None) ?w = (fst (run (increment s key (Some d) None) ?w), ?v)"
      and "\<exists>h. fst (run (increment s key (Some d) None) ?w) = Inr h \<and> h_count h = n + 1"
      using run_increment_next [of ?w s key n d "clock ?w"] live Cons.prems
      by (simp_all add: increment_default_time prod_eq_iff)
    then obtain h where h: "run (increment s key (Some d) None) ?w = (Inr h, ?v)" "h_count h = n + 1" by auto
    with rest have "hits s key d (dt # dts) w = (n + 1) # map (\<lambda>i. n + 2 + int i) [0..<length dts]" by simp
    also have "\<dots> = map (\<lambda>i. n + 1 + int i) [0..<length (dt # dts)]"
      by (simp add: upt_conv_Cons map_Suc_upt [symmetric] del: upt_Suc)
    finally show ?case using h rest by (simp add: algebra_simps)
  qed simp
  then show "hits s key d dts w = map (\<lambda>i. n + 1 + int i) [0..<length dts]"
    and "rd (after_hits s key d dts w) = Up"
    and "clock (after_hits s key d dts w) = clock w + sum_list dts"
    and "redis (after_hits s key d dts w) (store_key s key) = Some (show_int (n + int (length dts)), ex)"
    by blast+
qed

text \<open>A hit that finds no live entry.\<close>

lemma hits_first:
  assumes "rd w = Up" "redis_look (advance dt w) (store_key s key) = None" "0 < d"
  shows "hits s key d (dt # dts) w =
    1 # hits s key d dts (snd (run (increment s key (Some d) None) (advance dt w)))"
  using run_increment_first [of "advance dt w" s key d "clock (advance dt w)"] assms
  by (simp add: increment_default_time)

subsection \<open>Properties\<close>

text \<open>C31. A fixed window: the hits of a client on a fresh counter are counted one by one until the
  duration (in whole seconds) has passed since the first, and the first hit after that opens a new
  window with count one.\<close>

theorem fixed_window:
  assumes "rd w = Up" "redis_look w (store_key s key) = None" "0 < d" "list_all (\<lambda>x. 0 \<le> x) (dts @ [late])"
    "sum_list dts < 1000 * ceil_seconds d" "1000 * ceil_seconds d \<le> sum_list dts + late"
  shows "hits s key d (0 # dts @ [late]) w = map int [1..<length dts + 2] @ [1]"
proof -
  let ?k = "store_key s key"
  let ?w = "redis_put ?k ''1'' (Some (ceil_seconds d)) (redis_keep_ttl ?k (show_int 1) w)"
  have one: "''1'' = show_int 1" by code_simp
  have first: "hits s key d (0 # dts @ [late]) w = 1 # hits s key d (dts @ [late]) ?w"
    using run_increment_first [of "advance 0 w" s key d "clock w"] assms
    by (simp add: hits_first increment_default_time advance_def)
  have r: "redis ?w ?k = Some (show_int 1, Some (clock w + 1000 * ceil_seconds d))"
    by (simp add: redis_put_def one)
  have ds: "list_all (\<lambda>x. 0 \<le> x) dts" "rd ?w = Up" "(0::int) < 1"
    "\<forall>e. Some (clock w + 1000 * ceil_seconds d) = Some e \<longrightarrow> clock ?w + sum_list dts < e"
    using assms by simp_all
  let ?v = "after_hits s key d dts ?w"
  note run = hits_running [OF ds(2) r ds(3,1,4), of d]
  have "redis_look (advance late ?v) ?k = None"
    using assms(6) by (simp add: redis_look_def run(3,4))
  then have final: "hits s key d [late] ?v = [1]"
    using hits_first [OF run(2) _ assms(3), where dt = late and key = key and dts = "[]"] by simp
  have "1 # map (\<lambda>i. 1 + 1 + int i) [0..<length dts] = map int [1..<length dts + 2]"
    by (induction dts) (simp_all add: upt_conv_Cons [of 1 2])
  then show ?thesis unfolding first hits_append run(1) final by (simp only: append_Cons [symmetric])
qed

theorem fixed_window_witness:
  "hits (lm_store sessionLimiter) ''ip:10.0.0.1'' 60000 (0 # [20000, 30000] @ [10000]) demo_world =
    map int [1..<length [20000, 30000 :: int] + 2] @ [1]"
  by (rule fixed_window) (simp_all add: redis_look_def ceil_seconds_def)

text \<open>Limiters do not share counters: the Redis keys of two limiters with different keyspaces are
  different whatever the clients' keys are, and so are the keys of two clients under one limiter.\<close>

theorem counters_separate:
  assumes "k1 \<noteq> []" "k2 \<noteq> []" "CHR '':'' \<notin> set k1" "CHR '':'' \<notin> set k2"
  shows "store_key (limiter_store (Some k1)) c1 = store_key (limiter_store (Some k2)) c2 \<longleftrightarrow> k1 = k2 \<and> c1 = c2"
proof -
  have "x = y \<and> a = b" if "x @ CHR '':'' # a = y @ CHR '':'' # b" "CHR '':'' \<notin> set x" "CHR '':'' \<notin> set y" for x y a b :: string
    using that by (induction x arbitrary: y) (auto simp: Cons_eq_append_conv append_eq_Cons_conv)
  from this [of k1 c1 k2 c2] assms show ?thesis
    by (auto simp: store_key_def limiter_store_def RedisRateStore_def)
qed

theorem counters_separate_witness:
  "store_key (lm_store sessionLimiter) ''ip:10.0.0.1'' \<noteq> store_key (lm_store credentialLimiter) ''ip:10.0.0.1''"
  using counters_separate [of "''auth''" "''auth-cred''" "''ip:10.0.0.1''" "''ip:10.0.0.1''"]
  by (simp add: sessionLimiter_def credentialLimiter_def ipRateLimit_def)

text \<open>C32. A window that never ends: when the connection drops between \<open>INCR\<close> and \<open>EXPIRE\<close>, the request is
  let through, but its counter stays without an expiry, so that from then on all hits of the client,
  however far apart, count up from it and no window is ever opened again.\<close>

theorem counter_without_expiry:
  assumes "rd w = Up" "redis_look w (store_key s key) = None" "list_all (\<lambda>x. 0 \<le> x) dts"
  shows "\<exists>w'. pool_run env_step (w, [increment s key (Some d) None]) (w', [Ret (open_hit (clock w) d)]) \<and>
    hits s key d dts (w'\<lparr>rd := Up\<rparr>) = map (\<lambda>i. 2 + int i) [0..<length dts]"
proof -
  let ?k = "store_key s key"
  let ?h = "\<lambda>err. Ret (open_hit (clock w) d)"
  let ?rest = "\<lambda>count. sequ (if count = 1
        then sequ (bounded (rs_timeoutMs s) (redis_EXPIRE ?k (ceil_seconds d))) (Ret ()) else Ret ())
      (bnd (bounded (rs_timeoutMs s) (\<lambda>w. (Inr (redis_TTL ?k w), w))) (\<lambda>ttl.
       Ret \<lparr>h_count = count, h_nextReset = clock w + (if ttl > 0 then ttl * 1000 else d), h_start = clock w\<rparr>))"
  let ?p = "increment s key (Some d) None" and ?q = "try_catch (?rest 1) ?h"
  let ?v = "redis_keep_ttl ?k (show_int 1) w" and ?w = "(redis_keep_ttl ?k (show_int 1) w)\<lparr>rd := Down\<rparr>"
  have q: "part (w, ?p) (?v, ?q)"
    unfolding increment_def Let_def default_arg_simps open_hit_def
    by (rule part_step [OF run_now], rule part_try, rule part_bnd) (simp add: run_bounded assms)
  then have 1: "pool_run env_step (w, [?p]) (?v, [?q])"
    using pool_run_part [OF q, of 0 "[?p]" env_step] by simp
  have "env_step ?v ?w" by (rule env_step_rd)
  then have 2: "pool_run env_step (?v, [?q]) (?w, [?q])" by (auto intro: pool_step.environment)
  have "run ?q ?w = (Inr (open_hit (clock w) d), ?w)" by (simp add: run_simps run_bounded)
  then have 3: "pool_run env_step (?w, [?q]) (?w, [Ret (open_hit (clock w) d)])"
    using pool_run_alone [of 0 "[?q]" env_step ?w] by (simp add: finished_def)
  have "redis ?w ?k = Some (show_int 1, None)" using assms by (simp add: redis_keep_ttl_def)
  then have "hits s key d dts (?w\<lparr>rd := Up\<rparr>) = map (\<lambda>i. 2 + int i) [0..<length dts]"
    using hits_running(1) [of "?w\<lparr>rd := Up\<rparr>" s key 1 None dts d] assms(3) by simp
  with rtranclp_trans [OF rtranclp_trans [OF 1 2] 3] show ?thesis by blast
qed

theorem counter_without_expiry_witness:
  "\<exists>w'. pool_run env_step (demo_world, [increment (lm_store sessionLimiter) ''ip:10.0.0.1'' (Some 60000) None])
      (w', [Ret (open_hit (clock demo_world) 60000)]) \<and>
    hits (lm_store sessionLimiter) ''ip:10.0.0.1'' 60000 [3600000, 3600000] (w'\<lparr>rd := Up\<rparr>) =
      map (\<lambda>i. 2 + int i) [0..<length [3600000, 3600000 :: int]]"
  by (rule counter_without_expiry) (simp_all add: redis_look_def)

end
