(* ===== verification/Routes.thy ===== *)
theory Routes
  imports Privilege Schemas RateLimit
begin

text \<open>
  How the application is put together: the routes of \<open>src/modules/auth/index.ts\<close>,
  \<open>src/modules/user/index.ts\<close>, \<open>src/plugins/health.ts\<close> and \<open>src/plugins/metrics.ts\<close> with the options
  their handlers are registered with, the plugins \<open>src/app.ts\<close> composes, and the OpenAPI document of
  \<open>src/plugins/openapi.ts\<close>. A route is documented as needing a bearer token exactly when its guard
  refuses requests without one.
\<close>

subsection \<open>Routes\<close>

datatype http_method = GET | POST | PATCH | DELETE

datatype guard_option = IsAuthed authed_mode | Can string "string option"

text \<open>
  The second argument of \<open>.get\<close> and its kin, with the third: the guard macro, the origin check before
  the handler, the schemas by name, and \<open>detail\<close> with its \<open>security\<close>.
\<close>

record route =
  ro_method :: http_method
  ro_path :: string
  ro_guard :: "guard_option option"
  ro_trusted :: bool
  ro_params :: "string option"
  ro_query :: "string option"
  ro_body :: "string option"
  ro_cookie :: "string option"
  ro_response :: "string option"
  ro_summary :: string
  ro_tags :: "string list"
  ro_security :: "(string \<times> string list) list"

definition open_route :: "http_method \<Rightarrow> string \<Rightarrow> string \<Rightarrow> string \<Rightarrow> route" where
  "open_route m p summary tag = \<lparr>ro_method = m, ro_path = p, ro_guard = None, ro_trusted = False, ro_params = None,
     ro_query = None, ro_body = None, ro_cookie = None, ro_response = None, ro_summary = summary, ro_tags = [tag],
     ro_security = []\<rparr>"

text \<open>\<open>security: [{ bearerAuth: [] }]\<close>\<close>

definition bearerAuth :: "(string \<times> string list) list" where
  "bearerAuth = [(''bearerAuth'', [])]"

definition registerRoute :: route where
  "registerRoute =
     (open_route POST ''/register'' ''Register a new user'' ''Auth'')
     \<lparr>ro_body := Some ''registerBody'', ro_cookie := Some ''refreshCookie'', ro_response := Some ''tokenResponse''\<rparr>"

definition loginRoute :: route where
  "loginRoute =
     (open_route POST ''/login'' ''Log in with email and password'' ''Auth'')
     \<lparr>ro_body := Some ''loginBody'', ro_cookie := Some ''refreshCookie'', ro_response := Some ''loginResponse''\<rparr>"

definition twoFaVerifyRoute :: route where
  "twoFaVerifyRoute =
     (open_route POST ''/2fa/verify'' ''Complete an MFA login challenge with a TOTP code'' ''Auth'')
     \<lparr>ro_body := Some ''twoFaVerifyBody'', ro_cookie := Some ''refreshCookie'', ro_response := Some ''tokenResponse''\<rparr>"

definition requestResetRoute :: route where
  "requestResetRoute =
     (open_route POST ''/password/request-reset'' ''Request a password-reset code by email'' ''Auth'')
     \<lparr>ro_body := Some ''requestPasswordResetBody''\<rparr>"

definition resetPasswordRoute :: route where
  "resetPasswordRoute =
     (open_route POST ''/password/reset'' ''Reset the password using an emailed code'' ''Auth'')
     \<lparr>ro_body := Some ''resetPasswordBody''\<rparr>"

definition refreshRoute :: route where
  "refreshRoute =
     (open_route POST ''/refresh'' ''Exchange a refresh token for new tokens'' ''Auth'')
     \<lparr>ro_trusted := True, ro_body := Some ''refreshBody'', ro_cookie := Some ''refreshCookie'', ro_response := Some ''tokenResponse''\<rparr>"

definition meRoute :: route where
  "meRoute =
     (open_route GET ''/me'' ''Get the current user'' ''Auth'')
     \<lparr>ro_guard := Some (IsAuthed AllowUnverified), ro_response := Some ''publicUser'', ro_security := bearerAuth\<rparr>"

definition logoutRoute :: route where
  "logoutRoute =
     (open_route POST ''/logout'' ''Revoke a refresh token'' ''Auth'')
     \<lparr>ro_guard := Some (IsAuthed AllowUnverified), ro_trusted := True, ro_body := Some ''refreshBody'', ro_cookie := Some ''refreshCookie'', ro_security := bearerAuth\<rparr>"

definition requestOtpRoute :: route where
  "requestOtpRoute =
     (open_route POST ''/email/request-otp'' ''Send an email-verification OTP to the current user'' ''Auth'')
     \<lparr>ro_guard := Some (IsAuthed AllowUnverified), ro_security := bearerAuth\<rparr>"

definition verifyEmailRoute :: route where
  "verifyEmailRoute =
     (open_route POST ''/email/verify'' ''Verify the email-verification OTP'' ''Auth'')
     \<lparr>ro_guard := Some (IsAuthed AllowUnverified), ro_body := Some ''verifyOtpBody'', ro_security := bearerAuth\<rparr>"

definition twoFaSetupRoute :: route where
  "twoFaSetupRoute =
     (open_route POST ''/2fa/setup'' ''Begin TOTP 2FA enrollment (returns the otpauth:// URI)'' ''Auth'')
     \<lparr>ro_guard := Some (IsAuthed AuthedTrue), ro_response := Some ''twoFaSetupResponse'', ro_security := bearerAuth\<rparr>"

definition twoFaEnableRoute :: route where
  "twoFaEnableRoute =
     (open_route POST ''/2fa/enable'' ''Enable 2FA by confirming a code from the authenticator'' ''Auth'')
     \<lparr>ro_guard := Some (IsAuthed AuthedTrue), ro_body := Some ''twoFaCodeBody'', ro_security := bearerAuth\<rparr>"

definition twoFaDisableRoute :: route where
  "twoFaDisableRoute =
     (open_route POST ''/2fa/disable'' ''Disable 2FA with a valid current code'' ''Auth'')
     \<lparr>ro_guard := Some (IsAuthed AuthedTrue), ro_body := Some ''twoFaCodeBody'', ro_security := bearerAuth\<rparr>"

definition listUsersRoute :: route where
  "listUsersRoute =
     (open_route GET ''/'' ''List users (own scope returns only yourself)'' ''Users'')
     \<lparr>ro_guard := Some (Can ''user:read'' None), ro_query := Some ''listQuery'', ro_response := Some ''userList'', ro_security := bearerAuth\<rparr>"

definition getUserRoute :: route where
  "getUserRoute =
     (open_route GET ''/:id'' ''Get a user by id (self or admin)'' ''Users'')
     \<lparr>ro_guard := Some (Can ''user:read'' (Some ''id'')), ro_params := Some ''idParam'', ro_response := Some ''publicUser'', ro_security := bearerAuth\<rparr>"

definition patchUserRoute :: route where
  "patchUserRoute =
     (open_route PATCH ''/:id'' ''Update a user (self or admin; role requires admin)'' ''Users'')
     \<lparr>ro_guard := Some (Can ''user:update'' (Some ''id'')), ro_params := Some ''idParam'', ro_body := Some ''updateUserBody'', ro_response := Some ''publicUser'', ro_security := bearerAuth\<rparr>"

definition deleteUserRoute :: route where
  "deleteUserRoute =
     (open_route DELETE ''/:id'' ''Delete a user (self or admin)'' ''Users'')
     \<lparr>ro_guard := Some (Can ''user:delete'' (Some ''id'')), ro_params := Some ''idParam'', ro_security := bearerAuth\<rparr>"

definition healthRoute :: route where
  "healthRoute =
     open_route GET ''/health'' ''Liveness check'' ''App''"

definition readyRoute :: route where
  "readyRoute =
     open_route GET ''/ready'' ''Readiness check (Postgres + Redis)'' ''App''"

definition metricsRoute :: route where
  "metricsRoute =
     open_route GET ''/metrics'' ''Prometheus metrics'' ''App''"

lemmas route_defs = open_route_def bearerAuth_def registerRoute_def loginRoute_def twoFaVerifyRoute_def
  requestResetRoute_def resetPasswordRoute_def refreshRoute_def meRoute_def logoutRoute_def requestOtpRoute_def
  verifyEmailRoute_def twoFaSetupRoute_def twoFaEnableRoute_def twoFaDisableRoute_def listUsersRoute_def
  getUserRoute_def patchUserRoute_def deleteUserRoute_def healthRoute_def readyRoute_def metricsRoute_def

lemma route_keys [simp]:
  "ro_method registerRoute = POST" "ro_path registerRoute = ''/register''" "ro_guard registerRoute = None" "ro_security registerRoute = []"
  "ro_method loginRoute = POST" "ro_path loginRoute = ''/login''" "ro_guard loginRoute = None" "ro_security loginRoute = []"
  "ro_method twoFaVerifyRoute = POST" "ro_path twoFaVerifyRoute = ''/2fa/verify''" "ro_guard twoFaVerifyRoute = None" "ro_security twoFaVerifyRoute = []"
  "ro_method requestResetRoute = POST" "ro_path requestResetRoute = ''/password/request-reset''" "ro_guard requestResetRoute = None" "ro_security requestResetRoute = []"
  "ro_method resetPasswordRoute = POST" "ro_path resetPasswordRoute = ''/password/reset''" "ro_guard resetPasswordRoute = None" "ro_security resetPasswordRoute = []"
  "ro_method refreshRoute = POST" "ro_path refreshRoute = ''/refresh''" "ro_guard refreshRoute = None" "ro_security refreshRoute = []"
  "ro_method meRoute = GET" "ro_path meRoute = ''/me''" "ro_guard meRoute = Some (IsAuthed AllowUnverified)" "ro_security meRoute = bearerAuth"
  "ro_method logoutRoute = POST" "ro_path logoutRoute = ''/logout''" "ro_guard logoutRoute = Some (IsAuthed AllowUnverified)" "ro_security logoutRoute = bearerAuth"
  "ro_method requestOtpRoute = POST" "ro_path requestOtpRoute = ''/email/request-otp''" "ro_guard requestOtpRoute = Some (IsAuthed AllowUnverified)" "ro_security requestOtpRoute = bearerAuth"
  "ro_method verifyEmailRoute = POST" "ro_path verifyEmailRoute = ''/email/verify''" "ro_guard verifyEmailRoute = Some (IsAuthed AllowUnverified)" "ro_security verifyEmailRoute = bearerAuth"
  "ro_method twoFaSetupRoute = POST" "ro_path twoFaSetupRoute = ''/2fa/setup''" "ro_guard twoFaSetupRoute = Some (IsAuthed AuthedTrue)" "ro_security twoFaSetupRoute = bearerAuth"
  "ro_method twoFaEnableRoute = POST" "ro_path twoFaEnableRoute = ''/2fa/enable''" "ro_guard twoFaEnableRoute = Some (IsAuthed AuthedTrue)" "ro_security twoFaEnableRoute = bearerAuth"
  "ro_method twoFaDisableRoute = POST" "ro_path twoFaDisableRoute = ''/2fa/disable''" "ro_guard twoFaDisableRoute = Some (IsAuthed AuthedTrue)" "ro_security twoFaDisableRoute = bearerAuth"
  "ro_method listUsersRoute = GET" "ro_path listUsersRoute = ''/''" "ro_guard listUsersRoute = Some (Can ''user:read'' None)" "ro_security listUsersRoute = bearerAuth"
  "ro_method getUserRoute = GET" "ro_path getUserRoute = ''/:id''" "ro_guard getUserRoute = Some (Can ''user:read'' (Some ''id''))" "ro_security getUserRoute = bearerAuth"
  "ro_method patchUserRoute = PATCH" "ro_path patchUserRoute = ''/:id''" "ro_guard patchUserRoute = Some (Can ''user:update'' (Some ''id''))" "ro_security patchUserRoute = bearerAuth"
  "ro_method deleteUserRoute = DELETE" "ro_path deleteUserRoute = ''/:id''" "ro_guard deleteUserRoute = Some (Can ''user:delete'' (Some ''id''))" "ro_security deleteUserRoute = bearerAuth"
  "ro_method healthRoute = GET" "ro_path healthRoute = ''/health''" "ro_guard healthRoute = None" "ro_security healthRoute = []"
  "ro_method readyRoute = GET" "ro_path readyRoute = ''/ready''" "ro_guard readyRoute = None" "ro_security readyRoute = []"
  "ro_method metricsRoute = GET" "ro_path metricsRoute = ''/metrics''" "ro_guard metricsRoute = None" "ro_security metricsRoute = []"
  by (simp_all add: route_defs)

subsection \<open>The schemas by name\<close>

definition authModel :: "(string \<Rightarrow> schema) \<Rightarrow> (string \<times> schema) list" where
  "authModel cols =
     [(''registerBody'', registerBody), (''loginBody'', loginBody), (''refreshBody'', refreshBody),
      (''refreshCookie'', refreshCookie), (''verifyOtpBody'', verifyOtpBody),
      (''requestPasswordResetBody'', requestPasswordResetBody), (''resetPasswordBody'', resetPasswordBody),
      (''tokenResponse'', tokenResponse cols), (''loginResponse'', loginResponse cols),
      (''mfaChallengeResponse'', mfaChallengeResponse), (''twoFaVerifyBody'', twoFaVerifyBody),
      (''twoFaCodeBody'', twoFaCodeBody), (''twoFaSetupResponse'', twoFaSetupResponse),
      (''publicUser'', publicUser cols)]"

definition userModel :: "(string \<Rightarrow> schema) \<Rightarrow> (string \<times> schema) list" where
  "userModel cols =
     [(''publicUser'', publicUser cols), (''userList'', userList cols), (''listQuery'', listQuery),
      (''updateUserBody'', updateUserBody), (''idParam'', idParam)]"

subsection \<open>Plugins\<close>

text \<open>
  An Elysia instance as the code builds it: name, prefix, tags, limiters, models, the plugins it uses and
  its own routes. Hooks are modelled in the theories of their plugins; plugins of other packages are
  left out, but for the one of tracing, a parameter of \<open>app\<close>.
\<close>

datatype plugin = Plugin
  (pl_name: "string option") (pl_prefix: string) (pl_tags: "string list") (pl_limiters: "limiter list")
  (pl_models: "(string \<times> schema) list") (pl_uses: "plugin list") (pl_routes: "route list")

definition named :: "string \<Rightarrow> route list \<Rightarrow> plugin" where
  "named n rs = Plugin (Some n) [] [] [] [] [] rs"

definition loggerPlugin :: plugin where "loggerPlugin = named ''logger'' []"
definition authPlugin :: plugin where "authPlugin = named ''auth'' []"
definition securityHeadersPlugin :: plugin where "securityHeadersPlugin = named ''security-headers'' []"
definition corsPlugin :: plugin where "corsPlugin = named ''cors'' []"
definition errorPlugin :: plugin where "errorPlugin = named ''error'' []"
definition openapiPlugin :: plugin where "openapiPlugin = named ''openapi'' []"
definition healthPlugin :: plugin where "healthPlugin = named ''health'' [healthRoute, readyRoute]"
definition metricsPlugin :: plugin where "metricsPlugin = named ''metrics'' [metricsRoute]"

definition credentialRoutes :: "(string \<Rightarrow> schema) \<Rightarrow> plugin" where
  "credentialRoutes cols = Plugin (Some ''auth-credentials'') [] [] [credentialLimiter] (authModel cols) [loggerPlugin]
     [registerRoute, loginRoute, twoFaVerifyRoute, requestResetRoute, resetPasswordRoute]"

definition authModule :: "(string \<Rightarrow> schema) \<Rightarrow> plugin" where
  "authModule cols = Plugin None ''/auth'' [''Auth''] [sessionLimiter] (authModel cols)
     [authPlugin, loggerPlugin, credentialRoutes cols]
     [refreshRoute, meRoute, logoutRoute, requestOtpRoute, verifyEmailRoute, twoFaSetupRoute, twoFaEnableRoute, twoFaDisableRoute]"

definition userModule :: "(string \<Rightarrow> schema) \<Rightarrow> plugin" where
  "userModule cols = Plugin None ''/users'' [''Users''] [userLimiter] (userModel cols) [authPlugin]
     [listUsersRoute, getUserRoute, patchUserRoute, deleteUserRoute]"

definition app :: "plugin \<Rightarrow> (string \<Rightarrow> schema) \<Rightarrow> plugin" where
  "app otel cols = Plugin None [] [] [] []
     [otel, securityHeadersPlugin, corsPlugin, openapiPlugin, loggerPlugin, metricsPlugin, errorPlugin, healthPlugin,
      authModule cols, userModule cols] []"

lemmas plugin_defs = named_def loggerPlugin_def authPlugin_def securityHeadersPlugin_def corsPlugin_def errorPlugin_def
  openapiPlugin_def healthPlugin_def metricsPlugin_def credentialRoutes_def authModule_def userModule_def app_def

text \<open>The routes of an instance under its prefixes, each with the models in scope.\<close>

fun endpoints :: "plugin \<Rightarrow> (string \<times> route \<times> (string \<times> schema) list) list" where
  "endpoints (Plugin n prefix tags limiters models uses routes) =
     map (\<lambda>(path, r, ms). (prefix @ path, r, ms))
       (concat (map endpoints uses) @ map (\<lambda>r. (ro_path r, r, models)) routes)"

subsection \<open>The OpenAPI document\<close>

record security_scheme =
  se_type :: string
  se_scheme :: string
  se_bearerFormat :: string

record openapi_doc =
  oa_title :: string
  oa_version :: string
  oa_description :: string
  oa_tags :: "(string \<times> string) list"
  oa_securitySchemes :: "(string \<times> security_scheme) list"

definition documentation :: openapi_doc where
  "documentation = \<lparr>oa_title = ''API'', oa_version = ''1.0.0'',
     oa_description = ''Production-ready ElysiaJS API boilerplate.'',
     oa_tags = [(''App'', ''Health and meta endpoints''), (''Auth'', ''Authentication and tokens''),
                (''Users'', ''User management'')],
     oa_securitySchemes = [(''bearerAuth'', \<lparr>se_type = ''http'', se_scheme = ''bearer'', se_bearerFormat = ''JWT''\<rparr>)]\<rparr>"

subsection \<open>Wiring\<close>

text \<open>
  A route fits the document and the models in scope: its tags and security schemes are declared there,
  and every schema it names is one of the models.
\<close>

definition schema_names :: "route \<Rightarrow> string list" where
  "schema_names r = List.map_filter id [ro_params r, ro_query r, ro_body r, ro_cookie r, ro_response r]"

definition fits :: "openapi_doc \<Rightarrow> (string \<times> schema) list \<Rightarrow> route \<Rightarrow> bool" where
  "fits doc models r \<longleftrightarrow> list_all (\<lambda>t. t \<in> fst ` set (oa_tags doc)) (ro_tags r) \<and>
     list_all (\<lambda>s. fst s \<in> fst ` set (oa_securitySchemes doc)) (ro_security r) \<and>
     list_all (\<lambda>n. map_of models n \<noteq> None) (schema_names r)"

lemma endpoints_app:
  "endpoints (app otel cols) = endpoints otel @
     [(''/metrics'', metricsRoute, []), (''/health'', healthRoute, []), (''/ready'', readyRoute, [])] @
     map (\<lambda>r. (''/auth'' @ ro_path r, r, authModel cols))
       [registerRoute, loginRoute, twoFaVerifyRoute, requestResetRoute, resetPasswordRoute, refreshRoute, meRoute, logoutRoute,
        requestOtpRoute, verifyEmailRoute, twoFaSetupRoute, twoFaEnableRoute, twoFaDisableRoute] @
     map (\<lambda>r. (''/users'' @ ro_path r, r, userModel cols)) [listUsersRoute, getUserRoute, patchUserRoute, deleteUserRoute]"
  by (simp add: plugin_defs case_prod_unfold)

lemma app_fits:
  assumes "endpoints otel = []"
  shows "list_all (\<lambda>(p, r, ms). fits documentation ms r) (endpoints (app otel cols))"
  unfolding endpoints_app assms
  by (simp add: fits_def documentation_def)
    (simp add: route_defs schema_names_def authModel_def userModel_def)

subsection \<open>Requests and their routes\<close>

fun endpoint :: "api_call \<Rightarrow> (http_method \<times> string) option" where
  "endpoint (Register req e p n) = Some (POST, ''/auth/register'')"
| "endpoint (Login e p) = Some (POST, ''/auth/login'')"
| "endpoint (TwofaVerify t c) = Some (POST, ''/auth/2fa/verify'')"
| "endpoint (RequestReset e) = Some (POST, ''/auth/password/request-reset'')"
| "endpoint (ResetPassword e c p) = Some (POST, ''/auth/password/reset'')"
| "endpoint (Refresh req ck b) = Some (POST, ''/auth/refresh'')"
| "endpoint (Me b) = Some (GET, ''/auth/me'')"
| "endpoint (Logout req b ck bd) = Some (POST, ''/auth/logout'')"
| "endpoint (RequestOtp b) = Some (POST, ''/auth/email/request-otp'')"
| "endpoint (VerifyEmail b c) = Some (POST, ''/auth/email/verify'')"
| "endpoint (TwofaSetup b) = Some (POST, ''/auth/2fa/setup'')"
| "endpoint (TwofaEnable b c) = Some (POST, ''/auth/2fa/enable'')"
| "endpoint (TwofaDisable b c) = Some (POST, ''/auth/2fa/disable'')"
| "endpoint (ListUsers b l k) = Some (GET, ''/users/'')"
| "endpoint (GetUser b i) = Some (GET, ''/users/:id'')"
| "endpoint (PatchUser b req i d) = Some (PATCH, ''/users/:id'')"
| "endpoint (DeleteUser b req i) = Some (DELETE, ''/users/:id'')"
| "endpoint Ready = Some (GET, ''/ready'')"
| "endpoint c = None"

text \<open>The routes of an instance that answer to a method and a path pattern.\<close>

definition routes_for :: "plugin \<Rightarrow> http_method \<Rightarrow> string \<Rightarrow> (route \<times> (string \<times> schema) list) list" where
  "routes_for pl m p = map snd (filter (\<lambda>(q, r, ms). q = p \<and> ro_method r = m) (endpoints pl))"

text \<open>The bearer token a request carries where its route has a guard.\<close>

fun bearer_of :: "api_call \<Rightarrow> string option" where
  "bearer_of (Me b) = b"
| "bearer_of (Logout req b ck bd) = b"
| "bearer_of (RequestOtp b) = b"
| "bearer_of (VerifyEmail b c) = b"
| "bearer_of (TwofaSetup b) = b"
| "bearer_of (TwofaEnable b c) = b"
| "bearer_of (TwofaDisable b c) = b"
| "bearer_of (ListUsers b l k) = b"
| "bearer_of (GetUser b i) = b"
| "bearer_of (PatchUser b req i d) = b"
| "bearer_of (DeleteUser b req i) = b"
| "bearer_of c = None"

text \<open>
  A request with the response it gets when nothing is thrown: the status and body of the guard that
  ended it, or what the handler returns, as JSON.
\<close>

datatype reply = Refused nat error_body | Answered nat jsval

definition returns :: "('a \<Rightarrow> jsval) \<Rightarrow> (world, 'a) prog \<Rightarrow> (world, reply) prog" where
  "returns json p = bnd p (\<lambda>x. Ret (Answered 200 (json x)))"

definition guard_returns :: "('a \<Rightarrow> jsval) \<Rightarrow> (world, 'a verdict) prog \<Rightarrow> (world, reply) prog" where
  "guard_returns json p = bnd p (\<lambda>v. Ret (case v of Status st body \<Rightarrow> Refused st body | Pass x \<Rightarrow> Answered 200 (json x)))"

definition flag :: "string \<Rightarrow> bool \<Rightarrow> 'a \<Rightarrow> jsval" where
  "flag name b x = JObj [(name, JBool b)]"

definition ready_json :: "ready_reply \<Rightarrow> jsval" where
  "ready_json r = JObj [(''status'', JStr (rr_status r)),
     (''checks'', JObj [(''db'', JStr (rr_db r)), (''redis'', JStr (rr_redis r))])]"

text \<open>The jobs and the seed script are no requests; nothing is returned to anyone.\<close>

fun respond :: "lib \<Rightarrow> env \<Rightarrow> api_call \<Rightarrow> (world, reply) prog" where
  "respond L E (Register req e p n) = returns session_json (register L E req e p n)"
| "respond L E (Login e p) = returns login_json (login L E e p)"
| "respond L E (TwofaVerify t c) = returns session_json (twofa_verify L E t c)"
| "respond L E (RequestReset e) = returns (flag ''sent'' True) (request_reset L E e)"
| "respond L E (ResetPassword e c p) = returns (flag ''reset'' True) (reset_password L e c p)"
| "respond L E (Refresh req ck b) = returns session_json (refresh L E req ck b)"
| "respond L E (Me b) = guard_returns user_json (me L E b)"
| "respond L E (Logout req b ck bd) = guard_returns (flag ''success'' True) (logout L E req b ck bd)"
| "respond L E (RequestOtp b) = guard_returns (flag ''sent'' True) (request_otp L E b)"
| "respond L E (VerifyEmail b c) = guard_returns (flag ''verified'' True) (verify_email L E b c)"
| "respond L E (TwofaSetup b) = guard_returns setup_json (twofa_setup L E b)"
| "respond L E (TwofaEnable b c) = guard_returns (flag ''enabled'' True) (twofa_enable L E b c)"
| "respond L E (TwofaDisable b c) = guard_returns (flag ''enabled'' False) (twofa_disable L E b c)"
| "respond L E (ListUsers b l k) = guard_returns (\<lambda>us. JArr (map user_json us)) (get_users L E b l k)"
| "respond L E (GetUser b i) = guard_returns user_json (get_user L E b i)"
| "respond L E (PatchUser b req i d) = guard_returns user_json (patch_user L E b req i d)"
| "respond L E (DeleteUser b req i) = guard_returns (flag ''success'' True) (delete_user L E b req i)"
| "respond L E Ready = bnd ready_endpoint (\<lambda>r. Ret (Answered (rr_httpStatus r) (ready_json r)))"
| "respond L E c = bnd (serve L E c) (\<lambda>_. Ret (Answered 200 JUndefined))"

text \<open>\<open>serve\<close> is the answer without its body.\<close>

lemma forget_respond: "forget (respond L E c) = serve L E c"
  by (cases c) (simp_all add: forget_def returns_def guard_returns_def bnd_assoc)

lemma run_in_leaves: "run p s = (Inr x, t) \<Longrightarrow> x \<in> leaves p"
  by (induction p arbitrary: s) (simp_all, blast)

lemma unknown_caller: "payloads L E b = {} \<Longrightarrow> run (resolveUser L E b) w = (Inr None, w)"
  using run_in_leaves [of "resolveUser L E b" w "caller L E b (clock w)" w] leaves_resolveUser [of _ L E b]
  by (cases "caller L E b (clock w)") (auto simp: run_resolveUser)

lemma unknown_refused:
  assumes "payloads L E b = {}"
  shows "run (guard_returns f (guarded (isAuthed L E mode b) h)) w = (Inr (Refused 401 UNAUTHORIZED), w)"
    and "run (guard_returns g (guarded (can L E a own b ps) k)) w = (Inr (Refused 401 UNAUTHORIZED), w)"
  using unknown_caller [OF assms] by (simp_all add: guard_returns_def isAuthed_def can_def run_guarded run_bnd)

lemmas secured_routes = me_def logout_def request_otp_def verify_email_def twofa_setup_def twofa_enable_def twofa_disable_def
  get_users_def get_user_def patch_user_def delete_user_def

text \<open>The requests that reach a guard.\<close>

fun secured :: "api_call \<Rightarrow> bool" where
  "secured (Me b) = True"
| "secured (Logout req b ck bd) = True"
| "secured (RequestOtp b) = True"
| "secured (VerifyEmail b c) = True"
| "secured (TwofaSetup b) = True"
| "secured (TwofaEnable b c) = True"
| "secured (TwofaDisable b c) = True"
| "secured (ListUsers b l k) = True"
| "secured (GetUser b i) = True"
| "secured (PatchUser b req i d) = True"
| "secured (DeleteUser b req i) = True"
| "secured c = False"

lemma secured_refused:
  "secured c \<Longrightarrow> payloads L E (bearer_of c) = {} \<Longrightarrow> run (respond L E c) w = (Inr (Refused 401 UNAUTHORIZED), w)"
  by (cases c) (simp_all add: secured_routes unknown_refused)

text \<open>The handlers of the other routes never look at an access token.\<close>

lemma blind_services [simp]:
  "sha256Hex (L\<lparr>jwt_verify := v\<rparr>) = sha256Hex L" "hashCode (L\<lparr>jwt_verify := v\<rparr>) = hashCode L"
  "insert_user (L\<lparr>jwt_verify := v\<rparr>) = insert_user L" "insert_audit (L\<lparr>jwt_verify := v\<rparr>) = insert_audit L"
  "insert_token (L\<lparr>jwt_verify := v\<rparr>) = insert_token L" "randomToken (L\<lparr>jwt_verify := v\<rparr>) = randomToken L"
  "randomUUID (L\<lparr>jwt_verify := v\<rparr>) = randomUUID L" "password_hash (L\<lparr>jwt_verify := v\<rparr>) = password_hash L"
  "getDummyHash (L\<lparr>jwt_verify := v\<rparr>) = getDummyHash L" "generateCode (L\<lparr>jwt_verify := v\<rparr>) = generateCode L"
  "signAccessToken (L\<lparr>jwt_verify := v\<rparr>) = signAccessToken L" "validateCode (L\<lparr>jwt_verify := v\<rparr>) = validateCode L"
  by (simp_all add: fun_eq_iff sha256Hex_def hashCode_def insert_user_def insert_audit_def insert_token_def new_user_def
      new_token_def randomToken_def randomUUID_def password_hash_def getDummyHash_def generateCode_def
      signAccessToken_def validateCode_def cong: if_cong option.case_cong)

lemma blind_routes [simp]:
  "recordAudit (L\<lparr>jwt_verify := v\<rparr>) = recordAudit L" "otp_issue (L\<lparr>jwt_verify := v\<rparr>) = otp_issue L"
  "updatePassword (L\<lparr>jwt_verify := v\<rparr>) = updatePassword L" "log_in (L\<lparr>jwt_verify := v\<rparr>) = log_in L"
  by (simp_all add: fun_eq_iff recordAudit_def otp_issue_def updatePassword_def log_in_def issueTokens_def storeRefreshToken_def
      cong: if_cong)

lemma open_blind: "\<not> secured c \<Longrightarrow> endpoint c \<noteq> None \<Longrightarrow> respond (L\<lparr>jwt_verify := v\<rparr>) E c = respond L E c"
  by (cases c) (simp_all add: register_def login_def twofa_verify_def request_reset_def reset_password_def refresh_def
      createUser_def verifyCredentials_def createLoginChallenge_def consumeLoginChallenge_def pwreset_request_def
      pwreset_reset_def useRefreshToken_def cong: if_cong option.case_cong)

lemma returns_served: "run q v = (Inr x, v') \<Longrightarrow> \<exists>w j w'. run (returns json q) w = (Inr (Answered 200 j), w')"
  by (intro exI [of _ v]) (simp add: returns_def run_bnd)

text \<open>Each of them serves a request that comes without any.\<close>

lemma demo_register:
  "\<exists>s w'. run (register demo_lib demo_env demo_request ''bob@example.com'' ''secret-pw'' None) (demo_world\<lparr>rd := Down\<rparr>) = (Inr s, w')"
proof -
  let ?w = "demo_world\<lparr>rd := Down\<rparr>"
  have fits: "user_fits (registered demo_lib ''bob@example.com'' ''secret-pw'' None ?w)"
    by (simp add: user_fits_def registered_def new_user_def) (simp add: demo_lib_def)
  have "\<forall>n. length (sha256Hex demo_lib (minted demo_lib n)) \<le> 512 \<and> sha256Hex demo_lib (minted demo_lib n) \<notin> rt_token ` set (refreshTokens ?w)"
    using demo_minted demo_minted_new by simp
  with registration_survives_redis_outage [of ?w "''bob@example.com''" demo_lib "''secret-pw''" None demo_env demo_request] fits
  show ?thesis by (fastforce simp: active_email_def prod_eq_iff)
qed

lemma demo_twofa_verify: "\<exists>s w'. run (twofa_verify demo_lib demo_env ''A'' ''0'') mfa_world = (Inr s, w')"
proof -
  let ?w = "mfa_world_A\<lparr>rng := Suc (rng mfa_world_A)\<rparr>"
  have "mintable demo_lib (u_id mfa_user) ?w"
    using demo_minted_new [of "Suc (rng mfa_world_A)"] demo_minted [of "Suc (rng mfa_world_A)"]
    by (simp add: mintable_def mfa_world_A_def mfa_done_def) (simp add: mfa_world_def mfa_user_def)
  with run_log_in [of ?w demo_lib mfa_user demo_env] show ?thesis
    by (simp add: twofa_verify_def run_simps mfa_login_A)
qed

lemma demo_reset:
  "\<exists>w w'. run (reset_password demo_lib ''alice@example.com'' ''000000'' ''new-password'') w = (Inr (), w')"
  using pwreset_first_guess [of demo_world demo_env "''alice@example.com''" demo_user 5000 demo_lib "''new-password''"]
  by (simp add: active_email_def redis_look_def demo_code pwreset_guess_def reset_password_def) (simp add: demo_lib_def, blast)

lemma open_usable:
  assumes "\<not> secured c" "endpoint c = Some (m, p)"
  shows "\<exists>c' w j w'. endpoint c' = Some (m, p) \<and> run (respond demo_lib demo_env c') w = (Inr (Answered 200 j), w')"
proof -
  have "\<exists>c' w j w'. endpoint c' = endpoint c \<and> run (respond demo_lib demo_env c') w = (Inr (Answered 200 j), w')"
  proof (cases c)
    case (Register req e p n)
    obtain s w' where "run (register demo_lib demo_env demo_request ''bob@example.com'' ''secret-pw'' None) (demo_world\<lparr>rd := Down\<rparr>) = (Inr s, w')"
      using demo_register by blast
    then show ?thesis unfolding Register by - (rule exI [of _ "Register demo_request ''bob@example.com'' ''secret-pw'' None"], simp add: returns_served)
  next
    case (Login e p)
    obtain s w' where "run (login demo_lib demo_env ''alice@example.com'' ''password'') demo_world = (Inr (LoggedIn s), w')"
      using demo_login by blast
    then show ?thesis unfolding Login by - (rule exI [of _ "Login ''alice@example.com'' ''password''"], simp add: returns_served)
  next
    case (TwofaVerify t d)
    obtain s w' where "run (twofa_verify demo_lib demo_env ''A'' ''0'') mfa_world = (Inr s, w')" using demo_twofa_verify by blast
    then show ?thesis unfolding TwofaVerify by - (rule exI [of _ "TwofaVerify ''A'' ''0''"], simp add: returns_served)
  next
    case (RequestReset e)
    have "run (request_reset demo_lib demo_env ''bob@example.com'') demo_world = (Inr (), demo_world)"
      by (simp add: request_reset_def run_pwreset_request mail_ok_def driver_def isTest_def active_email_def)
    then show ?thesis unfolding RequestReset by - (rule exI [of _ "RequestReset ''bob@example.com''"], simp add: returns_served)
  next
    case (ResetPassword e d p)
    obtain w w' where "run (reset_password demo_lib ''alice@example.com'' ''000000'' ''new-password'') w = (Inr (), w')"
      using demo_reset by blast
    then show ?thesis unfolding ResetPassword
      by - (rule exI [of _ "ResetPassword ''alice@example.com'' ''000000'' ''new-password''"], simp add: returns_served)
  next
    case (Refresh req ck b)
    show ?thesis unfolding Refresh
      by (rule exI [of _ "Refresh demo_request None (Some ''new'')"]) (simp add: returns_served [OF demo_refresh])
  next
    case Ready
    have "run (respond demo_lib demo_env Ready) demo_world = (Inr (Answered 200 (ready_json \<lparr>rr_httpStatus = 200,
        rr_status = ''ready'', rr_db = ''ok'', rr_redis = ''ok''\<rparr>)), demo_world)"
      by (simp add: ready_endpoint_def run_simps Let_def)
    then show ?thesis unfolding Ready by blast
  qed (use assms in simp_all)
  with assms(2) show ?thesis by simp
qed

lemma one_route:
  assumes "endpoint c = Some (m, p)" "endpoints otel = []"
  shows "\<exists>r ms. routes_for (app otel cols) m p = [(r, ms)] \<and> (ro_security r = [] \<longleftrightarrow> \<not> secured c) \<and>
    (ro_guard r = None \<longleftrightarrow> \<not> secured c)"
  using assms(1) by (cases c; simp add: routes_for_def endpoints_app assms(2)) (auto simp: bearerAuth_def)

lemma routes_for_fit:
  assumes "routes_for (app otel cols) m p = [(r, ms)]" "endpoints otel = []"
  shows "fits documentation ms r"
proof -
  from assms(1) have "(p, r, ms) \<in> set (endpoints (app otel cols))"
    unfolding routes_for_def by (force dest!: filter_eq_ConsD simp: Cons_eq_map_conv)
  with app_fits [OF assms(2), of cols] show ?thesis by (auto simp: list_all_iff)
qed

subsection \<open>Properties\<close>

text \<open>C23. The documentation tells which requests need a token, and the guards agree. Every request of the
  API is served by exactly one route of the application, what the route refers to (tags, security
  schemes, schemas) is declared, and it has a guard exactly when it is documented with bearer
  authentication. When it has, a request whose token verifies under no secret is answered 401 with no
  effect. When it has not, the answer does not depend on the verification of access tokens at all,
  whatever the verifier does, and there is a request for the route, without a token, that succeeds.\<close>

theorem documented_security_enforced:
  assumes "endpoint c = Some (m, p)" "endpoints otel = []" "payloads L E (bearer_of c) = {}"
  shows "\<exists>r ms. routes_for (app otel cols) m p = [(r, ms)] \<and> fits documentation ms r \<and>
    (ro_security r = [] \<longleftrightarrow> ro_guard r = None) \<and>
    (if ro_security r = []
     then (\<forall>verify. respond (L\<lparr>jwt_verify := verify\<rparr>) E c = respond L E c) \<and>
       (\<exists>L' E' c' v j v'. endpoint c' = Some (m, p) \<and> run (respond L' E' c') v = (Inr (Answered 200 j), v'))
     else run (respond L E c) w = (Inr (Refused 401 UNAUTHORIZED), w))"
proof -
  from one_route [OF assms(1,2), of cols] obtain r ms where
    r: "routes_for (app otel cols) m p = [(r, ms)]" "ro_security r = [] \<longleftrightarrow> \<not> secured c"
    "ro_guard r = None \<longleftrightarrow> \<not> secured c" by (elim exE conjE) (rule that)
  have "(\<forall>verify. respond (L\<lparr>jwt_verify := verify\<rparr>) E c = respond L E c) \<and>
      (\<exists>L' E' c' v j v'. endpoint c' = Some (m, p) \<and> run (respond L' E' c') v = (Inr (Answered 200 j), v'))" if "\<not> secured c"
    using open_blind [OF that] open_usable [OF that assms(1)] assms(1) by blast
  with r routes_for_fit [OF r(1) assms(2)] show ?thesis using secured_refused [OF _ assms(3)] by auto
qed

text \<open>\<open>GET /auth/me\<close> without a token.\<close>

theorem documented_security_enforced_witness:
  "routes_for (app (named ''otel-disabled'' []) (\<lambda>_. T_Text)) GET ''/auth/me'' = [(meRoute, authModel (\<lambda>_. T_Text))] \<and>
   run (respond demo_lib demo_env (Me None)) demo_world = (Inr (Refused 401 UNAUTHORIZED), demo_world)"
proof -
  have none: "endpoints (named n []) = []" for n by (simp add: named_def)
  have route: "routes_for (app (named ''otel-disabled'' []) (\<lambda>_. T_Text)) GET ''/auth/me'' = [(meRoute, authModel (\<lambda>_. T_Text))]"
    by (simp add: routes_for_def endpoints_app none)
  have "payloads demo_lib demo_env (bearer_of (Me None)) = {}" by (auto simp: payloads_def)
  from documented_security_enforced [OF endpoint.simps(7) none this, where n1 = "''otel-disabled''" and cols = "\<lambda>_. T_Text" and w = demo_world]
  show ?thesis unfolding route by (auto simp: bearerAuth_def)
qed

end
