(* ===== verification/Stock.thy ===== *)
theory Stock
  imports Statements
begin

text \<open>
  Unused refresh tokens as a stock that the programs of the application draw on. Here are the
  statements that add nothing to it, and, in the locale \<open>token_stock\<close>, what follows for every request,
  job and seed once it is known what a refresh takes out and what the issue of a token costs. The
  theories Rotation and Families interpret it, counting the tokens of one hash and of one family.
\<close>

subsection \<open>The stock\<close>

text \<open>Unused rows whose hash and family satisfy \<open>Q\<close>.\<close>

definition unspent :: "(string \<Rightarrow> string \<Rightarrow> bool) \<Rightarrow> world \<Rightarrow> nat" where
  "unspent Q w = count_rows (\<lambda>r. Q (rt_token r) (rt_familyId r) \<and> rt_usedAt r = None) (refreshTokens w)"

abbreviation spares :: "(string \<Rightarrow> string \<Rightarrow> bool) \<Rightarrow> world \<Rightarrow> world \<Rightarrow> bool" where
  "spares Q w w' \<equiv> rng w \<le> rng w' \<and> unspent Q w' \<le> unspent Q w"

lemma unspent_rng [simp]: "unspent Q (w\<lparr>rng := i\<rparr>) = unspent Q w"
  by (simp add: unspent_def)

lemma unspent_claim [simp]:
  "unspent Q (w\<lparr>refreshTokens := map (\<lambda>r. if R r then r\<lparr>rt_usedAt := Some t\<rparr> else r) (refreshTokens w)\<rparr>) \<le> unspent Q w"
  unfolding unspent_def by (simp, rule count_rows_map_le) (auto split: if_splits)

lemma rng_insert_token_row [simp]: "rng (snd (insert_token_row r w)) = rng w"
  by (simp add: insert_token_row_def)

lemma unspent_insert_other:
  "\<not> Q (rt_token r) (rt_familyId r) \<Longrightarrow> unspent Q (snd (insert_token_row r w)) = unspent Q w"
  by (simp add: insert_token_row_def unspent_def)

lemma unspent_insert: "unspent Q (snd (insert_token_row r w)) \<le> Suc (unspent Q w)"
  by (simp add: insert_token_row_def unspent_def)

lemma env_step_spares: "env_step w w' \<Longrightarrow> spares Q w w'"
  by (auto simp: env_step_def unspent_def)

text \<open>Every statement spares the stock, but the insertion of a token that is counted.\<close>

interpretation counted: all_statements "spares Q" for Q
  by unfold_locales (simp_all add: unspent_def count_rows_filter_le count_rows_map_le)

lemma spares_insert_token:
  "\<not> Q hash fam \<Longrightarrow> all_steps (spares Q) (insert_token L uid hash ex fam)"
  by (auto simp: sql_defs new_token_def unspent_insert_other intro!: all_steps_over_link)

subsection \<open>Programs and the stock\<close>

lemma metered_forget: "metered I S (\<lambda>_. k) p k \<Longrightarrow> metered I S (\<lambda>_. k) (forget p) k"
  unfolding forget_def by (rule metered_bnd [where qz = "\<lambda>_. k"]) simp_all

text \<open>The rows a claim marks no longer count.\<close>

lemma unspent_claimed:
  fixes w :: world
  assumes "r \<in> set (refreshTokens w)" "claimable h t r" "Q (rt_token r) (rt_familyId r)"
  shows "Suc (unspent Q (w\<lparr>refreshTokens := map (\<lambda>r. if claimable h t r then r\<lparr>rt_usedAt := Some t\<rparr> else r)
    (refreshTokens w)\<rparr>)) \<le> unspent Q w"
proof -
  let ?f = "\<lambda>r. if claimable h t r then r\<lparr>rt_usedAt := Some t\<rparr> else r"
  let ?P = "\<lambda>r. Q (rt_token r) (rt_familyId r) \<and> rt_usedAt r = None"
  have "Suc (count_rows ?P (map ?f rs)) \<le> count_rows ?P rs" if "r \<in> set rs" for rs
    using that
  proof (induction rs)
    case (Cons x rs)
    have "count_rows ?P (map ?f rs) \<le> count_rows ?P rs" by (rule count_rows_map_le) auto
    with Cons assms(2,3) show ?case by (cases "r \<in> set rs") (auto simp: claimable_def)
  qed simp
  with assms(1) show ?thesis by (simp add: unspent_def)
qed

text \<open>
  A measure \<open>S\<close> of the state, in states with \<open>I\<close>, that only grows where the unused tokens counted by
  \<open>Q\<close> do.
\<close>

locale quiet_stock =
  fixes I :: "world \<Rightarrow> bool" and S :: "world \<Rightarrow> nat" and Q :: "string \<Rightarrow> string \<Rightarrow> bool"
  assumes quiet: "I w \<Longrightarrow> spares Q w w' \<Longrightarrow> I w' \<and> S w' \<le> S w"
begin

lemma holds_spare: "all_steps (spares Q) p \<Longrightarrow> metered I S (\<lambda>_. k) p k"
  by (rule metered_quiet, erule all_steps_mono) (use quiet in blast)

lemmas holds_leaf = calm [THEN holds_spare] all_steps_try_catch [THEN holds_spare]

lemma holds_draw:
  assumes "\<And>w. I w \<Longrightarrow> metered I S pz (f (g (rng w))) k"
  shows "metered I S pz (bnd (draw g) f) k"
  unfolding draw_def atom_def using assms quiet by (auto intro!: exI [of _ k])

lemma useRefreshToken_metered:
  assumes "\<And>t. metered I S (\<lambda>claimed. case claimed of [] \<Rightarrow> 0 | r # _ \<Rightarrow> v r)
    (update_tokens (claimable (sha256Hex L tok) t) (\<lambda>r. r\<lparr>rt_usedAt := Some t\<rparr>)) k"
  shows "metered I S v (useRefreshToken L tok) k"
proof -
  have lose: "metered I S v (sequ (delete_tokens R) (Throw e)) 0"
    and lose': "metered I S v (sequ (delete_tokens R) (sequ (recordAudit L a) (Throw e))) 0" for R a e
    by (intro metered_sequ [where j = 0] holds_leaf, simp)+
  show ?thesis
    unfolding useRefreshToken_def Let_def
    by (rule metered_bnd [where qz = "\<lambda>_. k"], rule holds_leaf, rule metered_bnd [OF assms])
      (auto intro!: metered_bnd [where qz = "\<lambda>_. 0"] holds_leaf lose lose' split: list.split option.split)
qed

lemma claim_metered:
  assumes "\<And>w. S w = unspent Q w + d (rng w)"
    and "\<And>r. claimable h t r \<Longrightarrow> v (r\<lparr>rt_usedAt := Some t\<rparr>) \<le> k + (if Q (rt_token r) (rt_familyId r) then 1 else 0)"
  shows "metered I S (\<lambda>claimed. case claimed of [] \<Rightarrow> 0 | r # _ \<Rightarrow> v r)
    (update_tokens (claimable h t) (\<lambda>r. r\<lparr>rt_usedAt := Some t\<rparr>)) k"
proof -
  let ?mark = "\<lambda>w. w\<lparr>refreshTokens := map (\<lambda>r. if claimable h t r then r\<lparr>rt_usedAt := Some t\<rparr> else r) (refreshTokens w)\<rparr>"
  have less: "S (?mark w) \<le> S w" for w by (simp add: assms(1))
  have win: "v (r\<lparr>rt_usedAt := Some t\<rparr>) + S (?mark w) \<le> k + S w"
    if "filter (claimable h t) (refreshTokens w) = r # rs" for r rs w
  proof -
    from that have "r \<in> set (filter (claimable h t) (refreshTokens w))" by simp
    then have r: "r \<in> set (refreshTokens w)" "claimable h t r" by simp_all
    have "unspent Q (?mark w) \<le> unspent Q w" by simp
    moreover have "v (r\<lparr>rt_usedAt := Some t\<rparr>) + unspent Q (?mark w) \<le> k + unspent Q w"
      if "Q (rt_token r) (rt_familyId r)"
      using unspent_claimed [where Q = Q, OF r that] assms(2) [OF r(2)] that by simp
    moreover have "v (r\<lparr>rt_usedAt := Some t\<rparr>) \<le> k" if "\<not> Q (rt_token r) (rt_familyId r)"
      using assms(2) [OF r(2)] that by simp
    moreover have "d (rng (?mark w)) = d (rng w)" by simp
    ultimately show ?thesis unfolding assms(1) by linarith
  qed
  show ?thesis
    unfolding update_tokens_def pg_call_def over_link_def
    by (intro metered_atom)
      (use quiet less win in \<open>auto split: link.splits list.splits simp: Cons_eq_map_conv trans_le_add2\<close>)
qed

lemma insert_metered:
  assumes "\<And>v v'. I v \<Longrightarrow> rng v \<le> rng v' \<Longrightarrow> unspent Q v' \<le> Suc (unspent Q v) \<Longrightarrow> I v' \<and> S v' \<le> Suc (S v)"
  shows "metered I S (\<lambda>_. k) (insert_token L i hash e fam) (Suc k)"
proof -
  have grow: "I (snd (insert_token_row row (v\<lparr>rng := Suc (rng v)\<rparr>))) \<and>
      S (snd (insert_token_row row (v\<lparr>rng := Suc (rng v)\<rparr>))) \<le> Suc (S v) \<and>
      S (snd (insert_token_row row (v\<lparr>rng := Suc (rng v)\<rparr>))) \<le> Suc (k + S v)" if "I v" for v row
    using assms [OF that, of "snd (insert_token_row row (v\<lparr>rng := Suc (rng v)\<rparr>))"]
      unspent_insert [of Q row "v\<lparr>rng := Suc (rng v)\<rparr>"] by simp
  show ?thesis
    unfolding insert_token_def pg_call_def over_link_def
    by (intro metered_atom) (use grow in \<open>auto split: link.splits sum.splits\<close>)
qed

lemma issueTokens_metered:
  assumes "\<And>w e. I w \<Longrightarrow>
    metered I S (\<lambda>_. k) (insert_token L i (sha256Hex L (base64url (rand_bytes L (rng w) 32))) e fam) m"
  shows "metered I S (\<lambda>_. k) (issueTokens L E i r fam) m"
  unfolding issueTokens_def randomToken_def storeRefreshToken_def
  by (rule metered_bnd [where qz = "\<lambda>_. m"], rule holds_leaf, rule holds_draw)
    (auto intro!: metered_bnd [where qz = "\<lambda>_. m"] metered_sequ [where j = k] holds_leaf assms)

end

text \<open>
  Drawing the identifier of a family gives what the issue of a token in that family costs, and so does
  winning the claim of a token.
\<close>

locale token_stock = quiet_stock I S Q
  for I :: "world \<Rightarrow> bool" and S :: "world \<Rightarrow> nat" and Q :: "string \<Rightarrow> string \<Rightarrow> bool" +
  fixes L :: lib and E :: env and cost :: "string \<Rightarrow> nat"
  assumes opens: "metered I S (\<lambda>fam. k + cost fam) (randomUUID L) k"
    and issues: "metered I S (\<lambda>_. k) (issueTokens L E i r fam) (k + cost fam)"
    and claims: "metered I S (\<lambda>row. k + cost (rt_familyId row)) (useRefreshToken L tok) k"
begin

lemma log_in_costs: "metered I S (\<lambda>_. k) (log_in L E u fam) (k + cost fam)"
  unfolding log_in_def by (rule metered_bnd [OF issues]) simp

lemma opened_session: "metered I S (\<lambda>_. k) (bnd (randomUUID L) (\<lambda>fam. log_in L E u fam)) k"
  by (rule metered_bnd [OF opens log_in_costs])

lemma rotated_session:
  "metered I S (\<lambda>_. k) (bnd (findById i) (\<lambda>found. case found of
     None \<Rightarrow> Throw unauthorized | Some u \<Rightarrow> log_in L E u fam)) (k + cost fam)"
  by (rule metered_bnd [where qz = "\<lambda>_. k + cost fam"])
    (auto intro: holds_leaf log_in_costs split: option.split)

lemma holds_refresh: "metered I S (\<lambda>_. k) (refresh L E req ck bd) k"
  unfolding refresh_def
  by (auto intro!: metered_sequ [where j = k] metered_bnd [OF claims rotated_session] holds_leaf)

lemma holds_register: "metered I S (\<lambda>_. k) (register L E req em p nm) k"
  unfolding register_def
  by (auto intro!: metered_bnd [where qz = "\<lambda>_. k"] metered_sequ [where j = k] holds_leaf opened_session calm)

lemma holds_login: "metered I S (\<lambda>_. k) (login L E em p) k"
proof -
  have "metered I S (\<lambda>_. k) (bnd (randomUUID L) (\<lambda>fam. bnd (log_in L E u fam) (\<lambda>s. Ret (LoggedIn s)))) k" for u
    by (rule metered_bnd [OF opens], rule metered_bnd [OF log_in_costs]) simp
  then show ?thesis
    unfolding login_def by (auto intro!: metered_bnd [where qz = "\<lambda>_. k"] holds_leaf)
qed

lemma holds_twofa_verify: "metered I S (\<lambda>_. k) (twofa_verify L E t c) k"
  unfolding twofa_verify_def by (auto intro!: metered_bnd [where qz = "\<lambda>_. k"] holds_leaf opened_session)

lemma holds_serve: "metered I S (\<lambda>_. k) (serve L E c) k"
proof (cases c)
  case Register
  then show ?thesis by (auto intro: metered_forget holds_register)
next
  case Login
  then show ?thesis by (auto intro: metered_forget holds_login)
next
  case TwofaVerify
  then show ?thesis by (auto intro: metered_forget holds_twofa_verify)
next
  case Refresh
  then show ?thesis by (auto intro: metered_forget holds_refresh)
qed (auto intro!: holds_spare all_steps_forget calm simp: request_reset_def reset_password_def)

text \<open>No interleaving of requests, jobs and seeds, with any outages, adds to the stock.\<close>

lemma stock_bounded:
  assumes "I w" "pool_run env_step (w, map (serve L E) calls) (w', ps)"
  shows "S w' \<le> S w"
proof -
  have "sum_list (map (worth (\<lambda>_. 0)) ps) + S w' \<le> S w"
  proof (rule stock_bounds_results [where I = I and S = S, OF assms(2,1)])
    show "I t \<and> S t \<le> S s" if "I s" "env_step s t" for s t
      using quiet [OF that(1) env_step_spares [OF that(2)]] .
  qed (auto intro: holds_serve)
  then show ?thesis by simp
qed

end

end
