(* ===== verification/Rotation.thy ===== *)
theory Rotation
  imports Stock
begin

text \<open>
  One refresh token under concurrency: stored and unused it is a stock of one, and every program of the
  application is metered against it, so no interleaving turns one token into two sessions.
\<close>

subsection \<open>The stock of one hash\<close>

abbreviation unused :: "string \<Rightarrow> world \<Rightarrow> nat" where
  "unused h \<equiv> unspent (\<lambda>t f. t = h)"

text \<open>From the draw \<open>n\<close> on, no token drawn has the hash \<open>h\<close>.\<close>

definition fresh_from :: "lib \<Rightarrow> string \<Rightarrow> nat \<Rightarrow> bool" where
  "fresh_from L h n \<longleftrightarrow> (\<forall>i \<ge> n. sha256Hex L (base64url (rand_bytes L i 32)) \<noteq> h)"

interpretation by_hash: quiet_stock "\<lambda>w. fresh_from L h (rng w)" "unused h" "\<lambda>t f. t = h" for L h
  by unfold_locales (auto simp: fresh_from_def)

lemma fresh_issue:
  "metered (\<lambda>w. fresh_from L h (rng w)) (unused h) (\<lambda>_. k) (issueTokens L E i r fam) (k + 0)"
  by (rule by_hash.issueTokens_metered, simp, rule by_hash.holds_spare, rule spares_insert_token)
    (simp add: fresh_from_def)

text \<open>Storing a token costs nothing, since none that is stored has the hash.\<close>

interpretation by_hash: token_stock "\<lambda>w. fresh_from L h (rng w)" "unused h" "\<lambda>t f. t = h" L E "\<lambda>_. 0" for L E h
  by unfold_locales (rule by_hash.holds_leaf fresh_issue | simp add: by_hash.holds_leaf)+

text \<open>Winning the claim of the hash takes the unit from the stock.\<close>

lemma useRefreshToken_takes:
  "metered (\<lambda>w. fresh_from L (sha256Hex L tok) (rng w)) (unused (sha256Hex L tok)) (\<lambda>_. 1) (useRefreshToken L tok) 0"
  by (rule by_hash.useRefreshToken_metered, rule by_hash.claim_metered [where d = "\<lambda>_. 0"])
    (auto simp: claimable_def)

lemma refresh_takes:
  assumes "presented E ck bd = Some tok"
  shows "metered (\<lambda>w. fresh_from L (sha256Hex L tok) (rng w)) (unused (sha256Hex L tok)) (\<lambda>_. 1) (refresh L E req ck bd) 0"
  using assms unfolding refresh_def
  by (auto intro!: metered_sequ [where j = 0] metered_bnd [OF useRefreshToken_takes]
      metered_bnd [where qz = "\<lambda>_. 1"] by_hash.holds_leaf by_hash.log_in_costs [where k = 1, simplified] split: option.split)

subsection \<open>One session for one token\<close>

text \<open>A request in flight, with the session it ends in when it is a refresh that presents \<open>tok\<close>.\<close>

definition in_flight :: "lib \<Rightarrow> env \<Rightarrow> string \<Rightarrow> api_call \<Rightarrow> (world, session option) prog" where
  "in_flight L E tok c =
     (case c of
        Refresh req ck bd \<Rightarrow>
          if presented E ck bd = Some tok then bnd (refresh L E req ck bd) (\<lambda>s. Ret (Some s))
          else bnd (serve L E c) (\<lambda>_. Ret None)
      | _ \<Rightarrow> bnd (serve L E c) (\<lambda>_. Ret None))"

definition won :: "(world, session option) prog \<Rightarrow> bool" where
  "won p \<longleftrightarrow> (case p of Ret (Some s) \<Rightarrow> True | _ \<Rightarrow> False)"

lemma in_flight_metered:
  "metered (\<lambda>w. fresh_from L (sha256Hex L tok) (rng w)) (unused (sha256Hex L tok)) (\<lambda>r. if r = None then 0 else 1)
     (in_flight L E tok c) 0"
proof -
  have other: "metered (\<lambda>w. fresh_from L (sha256Hex L tok) (rng w)) (unused (sha256Hex L tok)) (\<lambda>r. if r = None then 0 else 1)
      (bnd (serve L E c) (\<lambda>_. Ret (None :: session option))) 0"
    by (rule metered_bnd [OF by_hash.holds_serve]) simp
  have "metered (\<lambda>w. fresh_from L (sha256Hex L tok) (rng w)) (unused (sha256Hex L tok)) (\<lambda>r. if r = None then 0 else 1)
      (bnd (refresh L E req ck bd) (\<lambda>s. Ret (Some s))) 0" if "presented E ck bd = Some tok" for req ck bd
    by (rule metered_bnd [OF refresh_takes [OF that]]) simp
  with other show ?thesis by (auto simp: in_flight_def split: api_call.split)
qed

lemma unused_le_1:
  assumes "tokens_unique (refreshTokens w)"
  shows "unused h w \<le> 1"
proof -
  have "unused h w = length (filter (\<lambda>r. rt_token r = h \<and> rt_usedAt r = None) (refreshTokens w))"
    by (simp add: unspent_def count_rows_def)
  also have "\<dots> \<le> 1"
    unfolding filter_token [OF assms, of h "\<lambda>r. rt_usedAt r = None"] by (simp split: option.split)
  finally show ?thesis .
qed

lemma worth_won: "sum_list (map (worth (\<lambda>r. if r = None then 0 else 1)) qs) = length (filter won qs)"
  by (induction qs) (auto simp: worth_def won_def split: prog.split option.split)

lemma sessions_bounded:
  assumes "fresh_from L (sha256Hex L tok) (rng w)"
    and "pool_run env_step (w, map (in_flight L E tok) calls) (w', ps)"
  shows "length (filter won ps) + unused (sha256Hex L tok) w' \<le> unused (sha256Hex L tok) w"
proof -
  have "sum_list (map (worth (\<lambda>r. if r = None then 0 else 1)) ps) + unused (sha256Hex L tok) w'
      \<le> unused (sha256Hex L tok) w"
  proof (rule stock_bounds_results [where I = "\<lambda>w. fresh_from L (sha256Hex L tok) (rng w)" and S = "unused (sha256Hex L tok)",
        OF assms(2,1)])
    show "fresh_from L (sha256Hex L tok) (rng t) \<and> unused (sha256Hex L tok) t \<le> unused (sha256Hex L tok) s"
      if "fresh_from L (sha256Hex L tok) (rng s)" "env_step s t" for s t
      using by_hash.quiet [OF that(1) env_step_spares [OF that(2)]] .
  qed (auto intro: in_flight_metered)
  then show ?thesis by (simp add: worth_won)
qed

subsection \<open>Properties\<close>

text \<open>C1. A refresh token buys at most one session, however many requests present it at once: in every
  interleaving of any requests and jobs, with any outages, at most one refresh presenting it ends in
  a session, and once one has, no unused row with its hash is left. (Assumed: no token drawn from
  now on collides with it.)\<close>

theorem one_session_per_token:
  assumes "db_ok w" "fresh_from L (sha256Hex L tok) (rng w)"
    "pool_run env_step (w, map (in_flight L E tok) calls) (w', ps)"
  shows "length (filter won ps) \<le> 1 \<and>
    (filter won ps = [] \<or> (\<forall>r \<in> set (refreshTokens w'). rt_token r = sha256Hex L tok \<longrightarrow> rt_usedAt r \<noteq> None))"
proof -
  have "unused (sha256Hex L tok) w \<le> 1"
    using unused_le_1 assms(1) by (simp add: db_ok_def)
  with sessions_bounded [OF assms(2,3)] have le: "length (filter won ps) + unused (sha256Hex L tok) w' \<le> 1" by simp
  have "unused (sha256Hex L tok) w' = 0" if "filter won ps \<noteq> []"
  proof -
    from that have "0 < length (filter won ps)" by simp
    with le show ?thesis by linarith
  qed
  with le show ?thesis by (auto simp: unspent_def count_rows_0_iff)
qed

abbreviation demo_rotation :: "(world, session option) prog" where
  "demo_rotation \<equiv> in_flight demo_lib demo_env ''new'' (Refresh demo_request None (Some ''new''))"

theorem one_session_per_token_witness:
  "\<exists>w' x y. pool_run env_step (demo_world, map (in_flight demo_lib demo_env ''new'')
       [Refresh demo_request None (Some ''new''), Refresh demo_request None (Some ''new'')])
       (w', [finished x, finished y]) \<and> won (finished x) \<and> \<not> won (finished y)"
proof -
  let ?r = "run demo_rotation demo_world"
  let ?r' = "run demo_rotation (snd ?r)"
  have run: "pool_run env_step (demo_world, map (in_flight demo_lib demo_env ''new'')
      [Refresh demo_request None (Some ''new''), Refresh demo_request None (Some ''new'')])
      (snd ?r', [finished (fst ?r), finished (fst ?r')])"
    unfolding list.map by (rule pool_run_both)
  have won: "won (finished (fst ?r))"
    by (simp add: run_simps demo_refresh won_def in_flight_def presented_def finished_def)
  have "fresh_from demo_lib (sha256Hex demo_lib ''new'') (rng demo_world)"
    using demo_minted_new by (simp add: fresh_from_def minted_def)
  from one_session_per_token [OF demo_db_ok this run] have "length (filter won [finished (fst ?r), finished (fst ?r')]) \<le> 1"
    by (rule conjunct1)
  with won have "\<not> won (finished (fst ?r'))" by (simp del: One_nat_def split: if_splits)
  with run won show ?thesis by blast
qed

end
