(* ===== verification/Results.thy ===== *)
theory Results
  imports Statements
begin

text \<open>
  What programs return in states with an invariant: a logic of partial correctness for programs that
  run interleaved with others that keep the same invariant. Removal and Custody use it.
\<close>

subsection \<open>Results under an invariant\<close>

text \<open>\<open>ensures I Q p\<close>: in states with \<open>I\<close>, every action of \<open>p\<close> keeps \<open>I\<close>, and what \<open>p\<close> returns has \<open>Q\<close>.\<close>

primrec ensures :: "('s \<Rightarrow> bool) \<Rightarrow> ('a \<Rightarrow> bool) \<Rightarrow> ('s, 'a) prog \<Rightarrow> bool" where
  "ensures I Q (Ret x) = Q x"
| "ensures I Q (Throw e) = True"
| "ensures I Q (Act u n) = (\<forall>s. I s \<longrightarrow> I (u s) \<and> ensures I Q (n s))"

lemma ensures_bnd: "ensures I P p \<Longrightarrow> (\<And>x. P x \<Longrightarrow> ensures I Q (f x)) \<Longrightarrow> ensures I Q (bnd p f)"
  by (induction p) auto

lemma ensures_try: "ensures I Q p \<Longrightarrow> (\<And>e. ensures I Q (h e)) \<Longrightarrow> ensures I Q (try_catch p h)"
  by (induction p) auto

lemma ensures_steps: "all_steps (\<lambda>s t. I s \<longrightarrow> I t) p \<Longrightarrow> ensures I (\<lambda>_. True) p"
  by (induction p) auto

lemma ensures_then: "all_steps (\<lambda>s t. I s \<longrightarrow> I t) p \<Longrightarrow> (\<And>x. ensures I Q (f x)) \<Longrightarrow> ensures I Q (bnd p f)"
  by (rule ensures_bnd [OF ensures_steps])

lemma ensures_sequ: "all_steps (\<lambda>s t. I s \<longrightarrow> I t) p \<Longrightarrow> ensures I Q q \<Longrightarrow> ensures I Q (sequ p q)"
  unfolding sequ_def by (rule ensures_then)

lemma ensures_atom:
  "(\<And>s. I s \<Longrightarrow> I (snd (f s)) \<and> (\<forall>x. fst (f s) = Inr x \<longrightarrow> Q x)) \<Longrightarrow> ensures I Q (atom f)"
  by (auto simp: atom_def split: sum.split)

lemma ensures_over_link:
  "(\<And>w. I w \<Longrightarrow> I (snd (f w)) \<and> (\<forall>x. fst (f w) = Inr x \<longrightarrow> Q x)) \<Longrightarrow> ensures I Q (over_link lk err f)"
  unfolding over_link_def by (rule ensures_atom) (auto split: link.splits)

lemma ensures_guarded:
  "all_steps (\<lambda>s t. I s \<longrightarrow> I t) g \<Longrightarrow> (\<And>c. ensures I Q (h c)) \<Longrightarrow>
   ensures I (\<lambda>v. \<forall>x. v = Pass x \<longrightarrow> Q x) (guarded g h)"
  unfolding guarded_def by (rule ensures_then) (auto intro!: ensures_bnd [where P = Q] split: verdict.split)

lemma ensures_draw: "(\<And>w. I w \<Longrightarrow> I (w\<lparr>rng := Suc (rng w)\<rparr>)) \<Longrightarrow> (\<And>w. I w \<Longrightarrow> ensures I Q (f (g (rng w)))) \<Longrightarrow>
   ensures I Q (bnd (draw g) f)"
  by (auto simp: draw_def atom_def)

lemma ensures_mono: "ensures I P p \<Longrightarrow> (\<And>x. P x \<Longrightarrow> Q x) \<Longrightarrow> ensures I Q p"
  by (induction p) auto

end
