(* ===== verification/Removal.thy ===== *)
theory Removal
  imports Results
begin

text \<open>
  The end of an account under concurrency: from the moment an account has been removed, no request
  that arrives later, whatever it presents and however it is interleaved with others, opens or renews
  a session of it or shows its data.
\<close>

subsection \<open>A removed account\<close>

text \<open>
  The account \<open>i\<close> has been removed: its row is there, so that the identifier stays taken, every row of
  it is marked, and no refresh token is stored for it.
\<close>

definition removed :: "string \<Rightarrow> world \<Rightarrow> bool" where
  "removed i w \<longleftrightarrow> (\<exists>u \<in> set (users w). u_id u = i) \<and> (\<forall>u \<in> set (users w). u_id u = i \<longrightarrow> u_deletedAt u \<noteq> None) \<and>
     (\<forall>r \<in> set (refreshTokens w). rt_userId r \<noteq> i)"

abbreviation stays_out :: "string \<Rightarrow> world \<Rightarrow> world \<Rightarrow> bool" where
  "stays_out i w w' \<equiv> removed i w \<longrightarrow> removed i w'"

lemma removed_map:
  assumes "\<And>u. u_id (g u) = u_id u" "\<And>u. u_deletedAt u \<noteq> None \<Longrightarrow> u_deletedAt (g u) \<noteq> None"
  shows "stays_out i w (w\<lparr>users := map g (users w)\<rparr>)"
  unfolding removed_def using assms(2) by (simp add: assms(1) del: not_None_eq)

lemma removed_touch:
  assumes "\<And>u. u_id (f u) = u_id u" "\<And>u. u_deletedAt u \<noteq> None \<Longrightarrow> u_deletedAt (f u) \<noteq> None"
  shows "stays_out i w (w\<lparr>users := map (\<lambda>u. if P u then set_user t f u else u) (users w)\<rparr>)"
  by (rule removed_map) (use assms in \<open>simp_all add: set_user_def del: not_None_eq\<close>)

lemma removed_join:
  "\<not> list_ex (\<lambda>v. u_id v = u_id u) (users w) \<Longrightarrow> stays_out i w (w\<lparr>rng := n, users := users w @ [u]\<rparr>)"
  unfolding removed_def by (auto simp: list_ex_iff)

interpretation out: calm_statements "stays_out i" for i
proof
  show "stays_out i w (w\<lparr>users := map (\<lambda>u. if P u then set_user t f u else u) (users w)\<rparr>)"
    if "\<And>u. profile (f u) = profile u" for w P t f
    by (rule removed_touch) (use that in \<open>simp_all add: profile_def\<close>)
qed (auto simp: removed_def list_ex_iff)

lemma out_update_users:
  "(\<And>u. u_id (f u) = u_id u) \<Longrightarrow> (\<And>u. u_deletedAt u \<noteq> None \<Longrightarrow> u_deletedAt (f u) \<noteq> None) \<Longrightarrow>
   all_steps (stays_out i) (update_users P f)"
  unfolding update_users_def pg_call_def
  by (rule all_steps_over_link) (simp_all del: not_None_eq add: removed_touch)

lemma out_insert_user: "all_steps (stays_out i) (insert_user L em ph nm r v)"
  unfolding sql_defs insert_user_row_def
  by (auto intro!: all_steps_over_link removed_join [THEN mp] intro: out.drawn [THEN mp])

lemma out_insert_token: "j \<noteq> i \<Longrightarrow> all_steps (stays_out i) (insert_token L j h e fam)"
  unfolding sql_defs insert_token_row_def new_token_def
  by (auto intro!: all_steps_over_link simp: removed_def Let_def split: if_splits)

lemmas out_leaf = out.calm_sql out.calm_redis out.calm_mail out.calm_services out.calm_codes out.calm_guards
  out.calm_macros out_insert_user

subsection \<open>Accounts found\<close>

lemma finds_others:
  "(\<And>u. P u \<Longrightarrow> notDeleted u) \<Longrightarrow> ensures (removed i) (\<lambda>found. \<forall>u. found = Some u \<longrightarrow> u_id u \<noteq> i) (select_user P)"
  unfolding select_user_def pg_call_def
  by (rule ensures_over_link) (auto simp: removed_def notDeleted_def dest!: find_Some_set)

lemma pages_others:
  "(\<And>u. P u \<Longrightarrow> notDeleted u) \<Longrightarrow> ensures (removed i) (\<lambda>us. \<forall>u \<in> set us. u_id u \<noteq> i) (select_page L P l k)"
  unfolding select_page_def pg_call_def
  by (rule ensures_over_link) (auto simp: removed_def notDeleted_def dest!: in_set_takeD in_set_dropD split: sum.splits)

lemma updates_others:
  assumes "\<And>u. P u \<Longrightarrow> notDeleted u" "\<And>u. u_id (f u) = u_id u"
    "\<And>u. u_deletedAt u \<noteq> None \<Longrightarrow> u_deletedAt (f u) \<noteq> None"
  shows "ensures (removed i) (\<lambda>us. \<forall>u \<in> set us. u_id u \<noteq> i) (update_users P f)"
proof -
  have "u_id (set_user t f u) \<noteq> i" if "removed i w" "u \<in> set (users w)" "P u" for w u t
    using assms(1) [OF that(3)] that assms(2) by (auto simp: removed_def notDeleted_def set_user_def)
  then show ?thesis
    unfolding update_users_def pg_call_def
    by (intro ensures_over_link) (use removed_touch [OF assms(2,3)] in auto)
qed

lemma inserts_others: "ensures (removed i) (\<lambda>u. u_id u \<noteq> i) (insert_user L em ph nm r v)"
  unfolding insert_user_def insert_user_row_def pg_call_def
  by (rule ensures_over_link) (auto simp: removed_def list_ex_iff)

lemma findById_others: "ensures (removed i) (\<lambda>found. \<forall>u. found = Some u \<longrightarrow> u_id u \<noteq> i) (findById j)"
  and findActiveUser_others: "ensures (removed i) (\<lambda>found. \<forall>u. found = Some u \<longrightarrow> u_id u \<noteq> i) (findActiveUser j)"
  unfolding findById_def findActiveUser_def by (rule finds_others; simp)+

lemma createUser_others: "ensures (removed i) (\<lambda>u. u_id u \<noteq> i) (createUser L em p nm)"
  unfolding createUser_def password_hash_def
  by (auto intro!: ensures_then ensures_try inserts_others out_leaf)

lemma verifyCredentials_others: "ensures (removed i) (\<lambda>u. u_id u \<noteq> i) (verifyCredentials L em p)"
  unfolding verifyCredentials_def Let_def
  by (rule ensures_bnd [OF finds_others]) (auto intro!: ensures_then out_leaf split: option.split)

lemma consumeLoginChallenge_others: "ensures (removed i) (\<lambda>u. u_id u \<noteq> i) (consumeLoginChallenge L E tok c)"
  unfolding consumeLoginChallenge_def validateCode_def Let_def
  by (auto intro!: ensures_bnd [OF findActiveUser_others] ensures_then ensures_sequ out_leaf all_steps_intros
      split: option.split)


subsection \<open>Every request\<close>

text \<open>A request with the identifiers of the accounts that its reply logs in or shows.\<close>

fun shown :: "lib \<Rightarrow> env \<Rightarrow> api_call \<Rightarrow> (world, string list) prog" where
  "shown L E (Register req e p n) = bnd (register L E req e p n) (\<lambda>s. Ret [pu_id (ss_user s)])"
| "shown L E (Login e p) =
     bnd (login L E e p) (\<lambda>r. Ret (case r of LoggedIn s \<Rightarrow> [pu_id (ss_user s)] | MfaRequired t \<Rightarrow> []))"
| "shown L E (TwofaVerify t c) = bnd (twofa_verify L E t c) (\<lambda>s. Ret [pu_id (ss_user s)])"
| "shown L E (Refresh req ck b) = bnd (refresh L E req ck b) (\<lambda>s. Ret [pu_id (ss_user s)])"
| "shown L E (Me b) = bnd (me L E b) (\<lambda>v. Ret (case v of Pass x \<Rightarrow> [pu_id x] | Status st e \<Rightarrow> []))"
| "shown L E (ListUsers b l k) = bnd (get_users L E b l k) (\<lambda>v. Ret (case v of Pass xs \<Rightarrow> map pu_id xs | Status st e \<Rightarrow> []))"
| "shown L E (GetUser b i) = bnd (get_user L E b i) (\<lambda>v. Ret (case v of Pass x \<Rightarrow> [pu_id x] | Status st e \<Rightarrow> []))"
| "shown L E (PatchUser b req i d) =
     bnd (patch_user L E b req i d) (\<lambda>v. Ret (case v of Pass x \<Rightarrow> [pu_id x] | Status st e \<Rightarrow> []))"
| "shown L E c = bnd (serve L E c) (\<lambda>_. Ret [])"

lemma log_in_others:
  assumes "u_id u \<noteq> i"
  shows "ensures (removed i) (\<lambda>s. pu_id (ss_user s) \<noteq> i) (log_in L E u fam)"
  unfolding log_in_def issueTokens_def storeRefreshToken_def randomToken_def
  by (intro ensures_then all_steps_intros)
    (use assms in \<open>auto intro!: out_leaf out_insert_token simp: toPublicUser_def\<close>)

lemma sessions_others:
  "ensures (removed i) (\<lambda>s. pu_id (ss_user s) \<noteq> i) (register L E req em p nm)"
  "ensures (removed i) (\<lambda>s. pu_id (ss_user s) \<noteq> i) (twofa_verify L E t c)"
  "ensures (removed i) (\<lambda>s. pu_id (ss_user s) \<noteq> i) (refresh L E req ck bd)"
  unfolding register_def twofa_verify_def refresh_def
  by (auto intro!: ensures_bnd [OF createUser_others] ensures_bnd [OF consumeLoginChallenge_others]
      ensures_bnd [OF findById_others] ensures_then ensures_sequ log_in_others out_leaf all_steps_intros split: option.split)

lemma login_others: "ensures (removed i) (\<lambda>r. \<forall>s. r = LoggedIn s \<longrightarrow> pu_id (ss_user s) \<noteq> i) (login L E em p)"
proof -
  have "ensures (removed i) (\<lambda>r. \<forall>s. r = LoggedIn s \<longrightarrow> pu_id (ss_user s) \<noteq> i)
      (bnd (log_in L E u fam) (\<lambda>s. Ret (LoggedIn s)))" if "u_id u \<noteq> i" for u fam
    by (rule ensures_bnd [OF log_in_others [OF that]]) simp
  then show ?thesis
    unfolding login_def
    by (intro ensures_bnd [OF verifyCredentials_others])
      (simp add: ensures_then [OF out.calm_codes(8)] ensures_then [OF out.calm_services(12)])
qed

lemma profiles_others:
  "ensures (removed i) (\<lambda>v. \<forall>x. v = Pass x \<longrightarrow> pu_id x \<noteq> i) (me L E b)"
  "ensures (removed i) (\<lambda>v. \<forall>x. v = Pass x \<longrightarrow> pu_id x \<noteq> i) (get_user L E b j)"
  unfolding me_def get_user_def user_getById_def
  by (rule ensures_guarded [where Q = "\<lambda>x. pu_id x \<noteq> i"], rule out_leaf,
      auto intro!: ensures_bnd [OF findById_others] ensures_bnd [OF finds_others] simp: toPublicUser_def split: option.split)+

lemma get_users_others:
  "ensures (removed i) (\<lambda>v. \<forall>xs. v = Pass xs \<longrightarrow> (\<forall>x \<in> set xs. pu_id x \<noteq> i)) (get_users L E b l k)"
  unfolding get_users_def user_list_def
  by (rule ensures_guarded [where Q = "\<lambda>xs. \<forall>x \<in> set xs. pu_id x \<noteq> i"], rule out_leaf)
    (auto intro!: ensures_bnd [OF pages_others] simp: toPublicUser_def split: if_splits)

lemma user_update_others: "ensures (removed i) (\<lambda>x. pu_id x \<noteq> i) (user_update j d)"
  unfolding user_update_def
  by (auto intro!: ensures_bnd [OF updates_others] simp: set_fields_def toPublicUser_def split: list.split)

lemma patch_user_others: "ensures (removed i) (\<lambda>v. \<forall>x. v = Pass x \<longrightarrow> pu_id x \<noteq> i) (patch_user L E b req j d)"
  unfolding patch_user_def
  by (rule ensures_guarded [where Q = "\<lambda>x. pu_id x \<noteq> i"], rule out_leaf)
    (auto intro!: ensures_bnd [OF user_update_others] user_update_others ensures_sequ out_leaf split: option.split)

lemma out_changes: "all_steps (stays_out i) (delete_user L E b req j)" "all_steps (stays_out i) (seed L E)"
  unfolding delete_user_def user_remove_def seed_def password_hash_def
  by (auto intro!: out.calm_guarded all_steps_intros out_leaf out_update_users split: option.split list.split)

lemma shown_others: "ensures (removed i) (\<lambda>ids. i \<notin> set ids) (shown L E c)"
proof -
  have quiet: "ensures (removed i) (\<lambda>ids. i \<notin> set ids) (bnd p (\<lambda>_. Ret []))"
    if "all_steps (stays_out i) p" for p :: "(world, unit) prog"
    by (rule ensures_then [OF that]) simp
  show ?thesis
    by (cases c)
      ((auto intro!: ensures_bnd [OF sessions_others(1)] ensures_bnd [OF sessions_others(2)] ensures_bnd [OF sessions_others(3)]
        ensures_bnd [OF login_others] ensures_bnd [OF profiles_others(1)] ensures_bnd [OF profiles_others(2)]
        ensures_bnd [OF get_users_others] ensures_bnd [OF patch_user_others]
        quiet all_steps_forget out_changes out.calm_routes out_leaf
        simp: request_reset_def reset_password_def split: login_reply.split verdict.split), blast)
qed

lemma removed_by_request:
  assumes "run (user_remove i) w0 = (Inr (), w)"
  shows "removed i w"
proof -
  let ?f = "\<lambda>u. u\<lparr>u_deletedAt := Some (clock w0)\<rparr>"
  let ?P = "\<lambda>u. u_id u = i \<and> notDeleted u"
  have up: "pg w0 = Up"
    using assms by (cases "pg w0") (auto simp: user_remove_def update_users_def pg_call_def run_over_link run_simps)
  define g where "g = (\<lambda>u. if ?P u then set_user (clock w0) ?f u else u)"
  have g: "u_id (g v) = u_id v" "u_id v = i \<Longrightarrow> u_deletedAt (g v) \<noteq> None" for v
    by (auto simp: g_def set_user_def notDeleted_def)
  have "filter ?P (users w0) \<noteq> [] \<and> w = w0\<lparr>users := map g (users w0),
      refreshTokens := filter (\<lambda>r. rt_userId r \<noteq> i) (refreshTokens w0)\<rparr>"
    using assms
    by (auto simp: user_remove_def revokeAllRefreshTokens_def run_simps up g_def Cons_eq_map_conv split: list.splits)
  then obtain u where "u \<in> set (users w0)" "u_id u = i" "users w = map g (users w0)"
    "refreshTokens w = filter (\<lambda>r. rt_userId r \<noteq> i) (refreshTokens w0)" by (auto simp: filter_empty_conv)
  with g show ?thesis unfolding removed_def by (simp add: bexI [of _ u] del: not_None_eq)
qed

interpretation removal: interleaving env_step "removed i" "ensures (removed i) Q" for i Q
proof
  show "removed i t" if "removed i s" "env_step s t" for s t
  proof -
    from that(2) have "users t = users s" "refreshTokens t = refreshTokens s" by (auto simp: env_step_def)
    with that(1) show ?thesis unfolding removed_def by metis
  qed
qed simp_all

subsection \<open>Properties\<close>

text \<open>C26. A removed account stays out: once \<open>UserService.remove\<close> has succeeded, in every interleaving of any
  requests, jobs and seeds that arrive afterwards, with any outages, no reply logs the account in or
  shows it, no refresh token is ever stored for it, and its row stays marked.\<close>

theorem removed_account_stays_out:
  assumes "run (user_remove i) w0 = (Inr (), w)"
    and "pool_run env_step (w, map (shown L E) calls) (w', ps)"
  shows "(\<forall>ids. Ret ids \<in> set ps \<longrightarrow> i \<notin> set ids) \<and> (\<forall>r \<in> set (refreshTokens w'). rt_userId r \<noteq> i) \<and>
    (\<exists>u \<in> set (users w'). u_id u = i) \<and> (\<forall>u \<in> set (users w'). u_id u = i \<longrightarrow> u_deletedAt u \<noteq> None)"
proof -
  have "removed i w' \<and> (\<forall>p \<in> set ps. ensures (removed i) (\<lambda>ids. i \<notin> set ids) p)"
    by (rule removal.run_keeps [OF assms(2) removed_by_request [OF assms(1)]]) (auto intro: shown_others)
  then show ?thesis by (fastforce simp: removed_def)
qed

text \<open>Alice is removed; then her last refresh token is presented, and her password.\<close>

theorem removed_account_stays_out_witness:
  "\<exists>w w' x y. run (user_remove ''alice'') demo_world = (Inr (), w) \<and>
     pool_run env_step (w, map (shown demo_lib demo_env)
       [Refresh demo_request None (Some ''new''), Login ''alice@example.com'' ''password'']) (w', [finished x, finished y]) \<and>
     x \<noteq> Inr [''alice''] \<and> y \<noteq> Inr [''alice''] \<and> \<not> list_ex (\<lambda>r. rt_userId r = ''alice'') (refreshTokens w')"
proof -
  let ?calls = "[Refresh demo_request None (Some ''new''), Login ''alice@example.com'' ''password'']"
  obtain w where w: "run (user_remove ''alice'') demo_world = (Inr (), w)"
    using run_user_remove [of demo_world "''alice''"] by (auto simp: users_pk_def notDeleted_def)
  obtain w' x y where run: "pool_run env_step (w, map (shown demo_lib demo_env) ?calls) (w', [finished x, finished y])"
    using pool_run_both [of env_step w] by fastforce
  note out = removed_account_stays_out [OF w run]
  have "x \<noteq> Inr [''alice'']" "y \<noteq> Inr [''alice'']"
    using out [THEN conjunct1] by (auto simp: finished_def)
  moreover have "\<not> list_ex (\<lambda>r. rt_userId r = ''alice'') (refreshTokens w')"
    using out [THEN conjunct2] by (auto simp: list_ex_iff)
  ultimately show ?thesis using w run by blast
qed

end
