(* ===== verification/Custody.thy ===== *)
theory Custody
  imports Removal Rotation
begin

text \<open>
  Whose session a refresh token renews, and until when: in every interleaving a token gives a session
  of the account it was issued to or none, and a session that has been ended gives none.
\<close>

subsection \<open>The owner of a token\<close>

text \<open>Every row with the hash \<open>h\<close> belongs to the account \<open>i\<close> and the family \<open>f\<close>, and no token drawn from now on has the hash.\<close>

definition held_by :: "lib \<Rightarrow> string \<Rightarrow> string \<Rightarrow> string \<Rightarrow> world \<Rightarrow> bool" where
  "held_by L h i f w \<longleftrightarrow> (\<forall>r \<in> set (refreshTokens w). rt_token r = h \<longrightarrow> rt_userId r = i \<and> rt_familyId r = f) \<and>
     fresh_from L h (rng w)"

abbreviation stays_held :: "lib \<Rightarrow> string \<Rightarrow> string \<Rightarrow> string \<Rightarrow> world \<Rightarrow> world \<Rightarrow> bool" where
  "stays_held L h i f w w' \<equiv> held_by L h i f w \<longrightarrow> held_by L h i f w'"

interpretation custody: all_statements "stays_held L h i f" for L h i f
  by unfold_locales (auto simp: held_by_def fresh_from_def)

lemmas custody_leaf = custody.calm_sql custody.calm_redis custody.calm_mail custody.calm_services custody.calm_codes
  custody.calm_guards custody.calm_macros custody.calm_profile_changes custody.calm_claim

lemma fresh_from_mono: "fresh_from L h n \<Longrightarrow> n \<le> m \<Longrightarrow> fresh_from L h m"
  by (auto simp: fresh_from_def)

lemma custody_store:
  assumes "held_by L h i f v"
  shows "all_steps (stays_held L h i f) (storeRefreshToken L j (base64url (rand_bytes L (rng v) 32)) e fam)"
proof -
  have "sha256Hex L (base64url (rand_bytes L (rng v) 32)) \<noteq> h" using assms by (auto simp: held_by_def fresh_from_def)
  then show ?thesis
    unfolding storeRefreshToken_def sql_defs insert_token_row_def new_token_def
    by (auto intro!: all_steps_sequ all_steps_over_link intro: fresh_from_mono simp: held_by_def Let_def split: if_splits)
qed

lemma custody_log_in: "ensures (held_by L h i f) (\<lambda>s. ss_user s = toPublicUser u) (log_in L E u fam)"
  unfolding log_in_def issueTokens_def randomToken_def sequ_def bnd_assoc
  by (auto intro!: ensures_then ensures_draw custody_leaf custody.drawn [THEN mp] intro: custody_store)

text \<open>The requests that store tokens keep the ownership, whatever they present.\<close>

lemma custody_logs_in: "ensures (held_by L h i f) (\<lambda>_. True) (log_in L E u fam)"
  by (rule ensures_mono [OF custody_log_in]) simp

lemma custody_opens:
  "ensures (held_by L h i f) (\<lambda>_. True) (register L E req em p nm)"
  "ensures (held_by L h i f) (\<lambda>_. True) (twofa_verify L E t c)"
  "ensures (held_by L h i f) (\<lambda>_. True) (refresh L E req ck bd)"
  unfolding register_def twofa_verify_def refresh_def
  by (auto intro!: ensures_then ensures_sequ custody_logs_in custody_leaf all_steps_intros split: option.split)

lemma custody_login: "ensures (held_by L h i f) (\<lambda>_. True) (login L E em p)"
proof -
  have "ensures (held_by L h i f) (\<lambda>_. True) (bnd (log_in L E u fam) (\<lambda>s. Ret (LoggedIn s)))" for u fam
    by (rule ensures_bnd [OF custody_log_in]) simp
  then show ?thesis
    unfolding login_def
    by (simp add: ensures_then [OF custody.calm_services(7)] ensures_then [OF custody.calm_codes(8)]
        ensures_then [OF custody.calm_services(12)] ensures_bnd [OF ensures_steps [OF custody.calm_services(7)]])
qed

lemma custody_serve: "ensures (held_by L h i f) (\<lambda>_. True) (serve L E c)"
proof -
  have forgets: "ensures (held_by L h i f) (\<lambda>_. True) (forget p)" if "ensures (held_by L h i f) (\<lambda>_. True) p" for p :: "(world, 'a) prog"
    unfolding forget_def by (rule ensures_bnd [OF that]) simp
  show ?thesis
  proof (cases c)
    case Register
    then show ?thesis by (auto intro: forgets custody_opens)
  next
    case Login
    then show ?thesis by (auto intro: forgets custody_login)
  next
    case TwofaVerify
    then show ?thesis by (auto intro: forgets custody_opens)
  next
    case Refresh
    then show ?thesis by (auto intro: forgets custody_opens)
  qed (auto intro!: ensures_steps all_steps_forget custody.calm_routes custody.calm_profile_routes custody_leaf
      simp: request_reset_def reset_password_def)
qed

text \<open>Winning the claim, and so the whole refresh, gives the owner's session.\<close>

lemma custody_use:
  "ensures (held_by L (sha256Hex L tok) i f) (\<lambda>row. rt_userId row = i) (useRefreshToken L tok)"
proof -
  have claim: "ensures (held_by L h i f) (\<lambda>rows. \<forall>row \<in> set rows. rt_userId row = i)
      (update_tokens (claimable h t) (\<lambda>r. r\<lparr>rt_usedAt := Some t\<rparr>))" for h t
    unfolding update_tokens_def pg_call_def
    by (rule ensures_over_link) (simp add: custody.mark [THEN mp], simp add: held_by_def claimable_def)
  show ?thesis
    unfolding useRefreshToken_def Let_def
    by (rule ensures_then [OF custody.calm_sql(7)], rule ensures_bnd [OF claim])
      (auto intro!: ensures_then ensures_sequ custody_leaf split: list.split option.split)
qed

lemma custody_refresh:
  assumes "presented E ck bd = Some tok"
  shows "ensures (held_by L (sha256Hex L tok) i f) (\<lambda>s. pu_id (ss_user s) = i) (refresh L E req ck bd)"
proof -
  have found: "ensures (held_by L h i f) (\<lambda>found. \<forall>u. found = Some u \<longrightarrow> u_id u = j) (findById j)" for h i f j
    unfolding findById_def select_user_def pg_call_def by (rule ensures_over_link) (auto dest!: find_Some_set)
  have log: "ensures (held_by L h i f) (\<lambda>s. pu_id (ss_user s) = i) (log_in L E u fam)" if "u_id u = i" for h i f u fam
    by (rule ensures_mono [OF custody_log_in]) (use that in \<open>simp add: toPublicUser_def\<close>)
  have renew: "ensures (held_by L h i f) (\<lambda>s. pu_id (ss_user s) = i)
      (bnd (findById i) (\<lambda>f. case f of None \<Rightarrow> Throw unauthorized | Some u \<Rightarrow> log_in L E u fam))" for h i f fam
    by (rule ensures_bnd [OF found]) (auto intro: log split: option.split)
  show ?thesis
    unfolding refresh_def assms
    by (intro ensures_sequ custody.calm_guards) (auto intro!: ensures_bnd [OF custody_use] renew)
qed

lemma custody_in_flight:
  "ensures (held_by L (sha256Hex L tok) i f) (\<lambda>r. \<forall>s. r = Some s \<longrightarrow> pu_id (ss_user s) = i) (in_flight L E tok c)"
proof -
  have other: "ensures (held_by L (sha256Hex L tok) i f) (\<lambda>r. \<forall>s. r = Some s \<longrightarrow> pu_id (ss_user s) = i)
      (bnd (serve L E c) (\<lambda>_. Ret None))"
    by (rule ensures_bnd [OF custody_serve]) simp
  have "ensures (held_by L (sha256Hex L tok) i f) (\<lambda>r. \<forall>s. r = Some s \<longrightarrow> pu_id (ss_user s) = i)
      (bnd (refresh L E req ck bd) (\<lambda>s. Ret (Some s)))" if "presented E ck bd = Some tok" for req ck bd
    by (rule ensures_bnd [OF custody_refresh [OF that]]) simp
  with other show ?thesis by (auto simp: in_flight_def split: api_call.split)
qed

interpretation custody: interleaving env_step "held_by L h i f" "ensures (held_by L h i f) Q" for L h i f Q
proof
  show "held_by L h i f t" if "held_by L h i f s" "env_step s t" for s t
    using that by (auto simp: env_step_def held_by_def)
qed simp_all

subsection \<open>Sessions that have ended\<close>

text \<open>No row of the session of \<open>row\<close> is left: none of its family, or none of its account.\<close>

definition wiped :: "refresh_token \<Rightarrow> world \<Rightarrow> bool" where
  "wiped row w \<longleftrightarrow> (\<forall>r \<in> set (refreshTokens w). rt_familyId r \<noteq> rt_familyId row) \<or>
     (\<forall>r \<in> set (refreshTokens w). rt_userId r \<noteq> rt_userId row)"

text \<open>
  The three requests that end the session of \<open>row\<close>, from \<open>w0\<close> to \<open>w\<close>: a logout that presents a token of
  its family, a reset of the password of its account, and the deletion of the account.
\<close>

definition session_ended :: "lib \<Rightarrow> env \<Rightarrow> refresh_token \<Rightarrow> world \<Rightarrow> world \<Rightarrow> bool" where
  "session_ended L E row w0 w \<longleftrightarrow>
     (\<exists>req b ck bd v t r. run (logout L E req b ck bd) w0 = (Inr (Pass v), w) \<and> presented E ck bd = Some t \<and>
        r \<in> set (refreshTokens w0) \<and> rt_token r = sha256Hex L t \<and> rt_familyId r = rt_familyId row) \<or>
     (\<exists>email code pw u. run (reset_password L email code pw) w0 = (Inr (), w) \<and>
        find (active_email email) (users w0) = Some u \<and> u_id u = rt_userId row) \<or>
     (\<exists>b req v. run (delete_user L E b req (rt_userId row)) w0 = (Inr (Pass v), w))"

lemma run_pg_call_ok: "run (pg_call f) w = (Inr x, w') \<Longrightarrow> pg w = Up"
  by (cases "pg w") (simp_all add: pg_call_def run_over_link)

lemma logout_wipes:
  assumes "run (logout L E req b ck bd) w0 = (Inr (Pass v), w)" "presented E ck bd = Some t"
    "r \<in> set (refreshTokens w0)" "rt_token r = sha256Hex L t" "rt_familyId r = rt_familyId row" "db_ok w0"
  shows "wiped row w"
proof -
  from assms(1,2) have rev: "run (revokeRefreshToken L t) w0 = (Inr (), w)"
    by (auto simp: logout_def run_guarded isAuthed_def requireTrustedOrigin_def assertTrustedOrigin_def run_simps
        split: option.splits if_splits prod.splits sum.splits)
  then have up: "pg w0 = Up"
    by (auto simp: revokeRefreshToken_def select_token_def elim!: run_bndE dest: run_pg_call_ok)
  from assms(3,4,6) have "find (\<lambda>r. rt_token r = sha256Hex L t) (refreshTokens w0) = Some r"
    using find_token [of "refreshTokens w0" r] by (simp add: db_ok_def)
  with rev assms(5) show ?thesis by (auto simp: revokeRefreshToken_def run_simps up wiped_def)
qed

lemma reset_wipes:
  assumes "run (reset_password L email code pw) w0 = (Inr (), w)"
    "find (active_email email) (users w0) = Some u" "u_id u = rt_userId row"
  shows "wiped row w"
proof -
  from assms(1) have up: "pg w0 = Up"
    by (auto simp: reset_password_def pwreset_reset_def findByEmail_def select_user_def elim!: run_bndE dest: run_pg_call_ok)
  from assms(1,2) have "rd w0 = Up"
    by (cases "rd w0") (auto simp: reset_password_def pwreset_reset_def run_simps up cache_get_def bounded_def run_over_link)
  with assms up show ?thesis
    by (auto simp: reset_password_def run_pwreset_reset Let_def wiped_def reset_done_def split: if_splits prod.splits sum.splits)
qed

lemma delete_wipes:
  assumes "run (delete_user L E b req (rt_userId row)) w0 = (Inr (Pass v), w)"
  shows "wiped row w"
proof -
  from assms obtain w1 w2 a r where rem: "run (user_remove (rt_userId row)) w1 = (Inr (), w2)"
    and "run (recordAudit L a) w2 = (r, w)"
    by (auto simp: delete_user_def guarded_def sequ_def elim!: run_bndE split: verdict.splits)
  then have w: "w = snd (run (recordAudit L a) w2)" by simp
  have "removed (rt_userId row) w"
    unfolding w by (rule run_all_steps_inv [OF out.calm_services(1) removed_by_request [OF rem]])
  then show ?thesis by (auto simp: removed_def wiped_def)
qed

lemma session_ended_wipes:
  assumes "session_ended L E row w0 w" "db_ok w0"
  shows "wiped row w"
  using assms(1) unfolding session_ended_def
  by (elim disjE exE conjE) (erule logout_wipes reset_wipes delete_wipes; (assumption | rule assms(2)))+

lemma session_ended_held:
  assumes "session_ended L E row w0 w" "held_by L h i f w0"
  shows "held_by L h i f w"
proof -
  have "held_by L h i f (snd (run p w0))" if "all_steps (stays_held L h i f) p" for p :: "(world, 'a) prog"
    by (rule run_all_steps_inv [OF that assms(2)])
  from this [OF custody.calm_routes(2)] this [OF custody.calm_codes(4)] this [OF custody.calm_profile_routes(2)]
  show ?thesis using assms(1) unfolding session_ended_def reset_password_def by (metis snd_conv)
qed

subsection \<open>Properties\<close>

lemma held_by_owner:
  assumes "db_ok w" "row \<in> set (refreshTokens w)" "fresh_from L (rt_token row) (rng w)"
  shows "held_by L (rt_token row) (rt_userId row) (rt_familyId row) w"
proof -
  have "r = row" if "r \<in> set (refreshTokens w)" "rt_token r = rt_token row" for r
    using tokens_unique_token [OF _ that(1) assms(2)] that(2) assms(1) by (simp add: db_ok_def)
  with assms(3) show ?thesis by (auto simp: held_by_def)
qed

text \<open>C2. A refresh token serves its owner only: in every interleaving of any requests, jobs and seeds,
  with any outages, whatever refresh presenting the token ends in a session, it is a session of the
  account the token was issued to. (Assumed: no token drawn from now on collides with it.)\<close>

theorem token_serves_its_owner:
  assumes "db_ok w" "row \<in> set (refreshTokens w)" "rt_token row = sha256Hex L tok"
    "fresh_from L (sha256Hex L tok) (rng w)" "pool_run env_step (w, map (in_flight L E tok) calls) (w', ps)"
    "Ret (Some s) \<in> set ps"
  shows "pu_id (ss_user s) = rt_userId row"
proof -
  have "held_by L (sha256Hex L tok) (rt_userId row) (rt_familyId row) w"
    using held_by_owner [OF assms(1,2), of L] assms(3,4) by simp
  from custody.run_keeps [OF assms(5) this, where Q = "\<lambda>r. \<forall>s. r = Some s \<longrightarrow> pu_id (ss_user s) = rt_userId row"]
  show ?thesis using custody_in_flight assms(6) by fastforce
qed

text \<open>C3. The end of a session is final: after a logout that presents any token of the session, a reset of
  the account's password or the deletion of the account has succeeded, no request that arrives later
  gets a session out of a token of it, in every interleaving of any requests, jobs and seeds, with
  any outages.\<close>

theorem ended_session_stays_ended:
  assumes "db_ok w0" "row \<in> set (refreshTokens w0)" "rt_token row = sha256Hex L tok"
    "session_ended L E row w0 w" "fresh_from L (sha256Hex L tok) (rng w0)"
    "pool_run env_step (w, map (in_flight L E tok) calls) (w', ps)"
  shows "filter won ps = []"
proof -
  let ?h = "sha256Hex L tok"
  have "held_by L ?h (rt_userId row) (rt_familyId row) w0"
    using held_by_owner [OF assms(1,2), of L] assms(3,5) by simp
  from session_ended_held [OF assms(4) this] have held: "held_by L ?h (rt_userId row) (rt_familyId row) w" .
  with session_ended_wipes [OF assms(4,1)] have "unused ?h w = 0"
    unfolding unspent_def by (auto simp: count_rows_0_iff held_by_def wiped_def)
  moreover have "fresh_from L ?h (rng w)" using held by (simp add: held_by_def)
  ultimately show ?thesis using sessions_bounded [OF _ assms(6)] by simp
qed

subsection \<open>Instances\<close>

lemma demo_new_fresh: "fresh_from demo_lib (sha256Hex demo_lib ''new'') (rng demo_world)"
  using demo_minted_new by (simp add: fresh_from_def minted_def)

theorem token_serves_its_owner_witness:
  "\<exists>w' s q. pool_run env_step (demo_world, map (in_flight demo_lib demo_env ''new'')
       [Refresh demo_request None (Some ''new''), SeedAdmin]) (w', [Ret (Some s), q]) \<and> pu_id (ss_user s) = ''alice''"
proof -
  let ?q = "in_flight demo_lib demo_env ''new'' SeedAdmin"
  let ?r = "run demo_rotation demo_world"
  have run: "pool_run env_step (demo_world, map (in_flight demo_lib demo_env ''new'')
      [Refresh demo_request None (Some ''new''), SeedAdmin])
      (snd (run ?q (snd ?r)), [finished (fst ?r), finished (fst (run ?q (snd ?r)))])"
    unfolding list.map by (rule pool_run_both)
  have "won (finished (fst ?r))"
    by (simp add: run_simps demo_refresh won_def in_flight_def presented_def finished_def)
  then obtain s where s: "(finished (fst ?r) :: (world, session option) prog) = Ret (Some s)"
    by (auto simp: won_def finished_def split: sum.splits option.splits)
  note run' = run [unfolded s]
  have "pu_id (ss_user s) = rt_userId (demo_token ''new'' None)"
    by (rule token_serves_its_owner [OF demo_db_ok _ _ demo_new_fresh run']) simp_all
  with run' show ?thesis by auto
qed

text \<open>Alice logs out; then her last token is presented twice.\<close>

theorem ended_session_stays_ended_witness:
  "\<exists>w w' x y. run (logout demo_lib demo_env demo_request (Some demo_bearer) None (Some ''new'')) demo_world = (Inr (Pass None), w) \<and>
     pool_run env_step (w, map (in_flight demo_lib demo_env ''new'')
       [Refresh demo_request None (Some ''new''), Refresh demo_request None (Some ''new'')]) (w', [x, y]) \<and>
     \<not> won x \<and> \<not> won y"
proof -
  obtain w where w: "run (logout demo_lib demo_env demo_request (Some demo_bearer) None (Some ''new'')) demo_world = (Inr (Pass None), w)"
    by (simp add: logout_def run_guarded run_isAuthed demo_caller presented_def run_simps origin_ok_def revokeRefreshToken_def)
  then have "session_ended demo_lib demo_env (demo_token ''new'' None) demo_world w"
    unfolding session_ended_def
    by (intro disjI1 exI [of _ demo_request] exI [of _ "Some demo_bearer"] exI [of _ None] exI [of _ "Some ''new''"]
        exI [of _ None] exI [of _ "''new''"] exI [of _ "demo_token ''new'' None"]) (simp add: presented_def)
  from ended_session_stays_ended [OF demo_db_ok _ _ this demo_new_fresh]
  have none: "filter won ps = []" if "pool_run env_step (w, map (in_flight demo_lib demo_env ''new'') calls) (w', ps)" for calls w' ps
    using that by simp
  obtain w' x y where run: "pool_run env_step (w, map (in_flight demo_lib demo_env ''new'')
       [Refresh demo_request None (Some ''new''), Refresh demo_request None (Some ''new'')]) (w', [x, y])"
    using pool_run_both [of env_step w] unfolding list.map by blast
  from none [OF this] have "\<not> won x \<and> \<not> won y" by (auto split: if_splits)
  with w run show ?thesis by blast
qed

end
