(* ===== verification/Sessions.thy ===== *)
theory Sessions
  imports AuthModule
begin

text \<open>
  What a client may know of its sessions: a specification of the refresh tokens as chains, one for each
  login. A chain has at most one current token, with its expiry, and a set of spent ones. The
  routes \<open>/auth/refresh\<close> and \<open>/auth/logout\<close>, and the issue of tokens after a login, implement it.
\<close>

subsection \<open>The specification\<close>

datatype chain = Chain (current: "(string \<times> int) option") (spent: "string set")

definition no_chain :: chain where
  "no_chain = Chain None {}"

datatype answer = Rotated | Abandoned | Replayed | Expired | Unknown

text \<open>
  Presenting the token with the hash \<open>h\<close> at time \<open>t\<close>, where \<open>new\<close> is the token minted next. A chain
  is abandoned when the account behind it is gone.
\<close>

inductive present_step ::
  "int \<Rightarrow> string \<Rightarrow> string \<times> int \<Rightarrow> (string \<Rightarrow> chain) \<Rightarrow> answer \<Rightarrow> (string \<Rightarrow> chain) \<Rightarrow> bool" for t h new S where
  rotated: "S f = Chain (Some (h, e)) sp \<Longrightarrow> t < e \<Longrightarrow>
     present_step t h new S Rotated (S(f := Chain (Some new) (insert h sp)))"
| abandoned: "S f = Chain (Some (h, e)) sp \<Longrightarrow> t < e \<Longrightarrow>
     present_step t h new S Abandoned (S(f := Chain None (insert h sp)))"
| replayed: "h \<in> spent (S f) \<Longrightarrow> present_step t h new S Replayed (S(f := no_chain))"
| expired: "S f = Chain (Some (h, e)) sp \<Longrightarrow> e \<le> t \<Longrightarrow>
     present_step t h new S Expired (S(f := Chain None sp))"
| unknown: "(\<And>f. h \<notin> spent (S f) \<and> (\<forall>e. current (S f) \<noteq> Some (h, e))) \<Longrightarrow> present_step t h new S Unknown S"

inductive_cases present_stepE: "present_step t h new S a T"

text \<open>Ending the chain a token belongs to, if there is one.\<close>

inductive end_step :: "string \<Rightarrow> (string \<Rightarrow> chain) \<Rightarrow> (string \<Rightarrow> chain) \<Rightarrow> bool" for h S where
  ended: "h \<in> spent (S f) \<or> current (S f) = Some (h, e) \<Longrightarrow> end_step h S (S(f := no_chain))"
| nothing: "(\<And>f. h \<notin> spent (S f) \<and> (\<forall>e. current (S f) \<noteq> Some (h, e))) \<Longrightarrow> end_step h S S"

text \<open>In the specification a token is good for one rotation: whatever follows, it is never current again.\<close>

lemma spent_not_rotated:
  assumes "present_step t h new S a T" and "h \<in> spent (S f)" and "\<And>g e. current (S g) \<noteq> Some (h, e)"
  shows "a = Replayed"
  using assms by (auto elim!: present_stepE) (metis chain.sel(1))+

subsection \<open>The table as chains\<close>

abbreviation live_in :: "string \<Rightarrow> refresh_token \<Rightarrow> bool" where
  "live_in f r \<equiv> rt_familyId r = f \<and> rt_usedAt r = None"

definition used_in :: "refresh_token list \<Rightarrow> string \<Rightarrow> refresh_token set" where
  "used_in rs f = {r \<in> set rs. rt_familyId r = f \<and> rt_usedAt r \<noteq> None}"

definition chains :: "refresh_token list \<Rightarrow> string \<Rightarrow> chain" where
  "chains rs f = Chain (map_option (\<lambda>r. (rt_token r, rt_expiresAt r)) (find (live_in f) rs))
     (rt_token ` used_in rs f)"

text \<open>At most one token of a family is unused.\<close>

definition one_live :: "refresh_token list \<Rightarrow> bool" where
  "one_live rs \<longleftrightarrow> (\<forall>f. count_rows (live_in f) rs \<le> 1)"

lemma one_live_unique: "one_live rs \<Longrightarrow> r \<in> set rs \<Longrightarrow> s \<in> set rs \<Longrightarrow> live_in f r \<Longrightarrow> live_in f s \<Longrightarrow> r = s"
  unfolding one_live_def by (rule count_rows_le_1_unique [where P = "live_in f"]) auto

lemma only_live:
  "one_live rs \<Longrightarrow> row \<in> set rs \<Longrightarrow> rt_usedAt row = None \<Longrightarrow> r \<in> set rs \<Longrightarrow> r \<noteq> row \<Longrightarrow>
   \<not> live_in (rt_familyId row) r"
  using one_live_unique [of rs r row "rt_familyId row"] by blast

lemma chains_live:
  assumes "one_live rs" "row \<in> set rs" "rt_usedAt row = None"
  shows "current (chains rs (rt_familyId row)) = Some (rt_token row, rt_expiresAt row)"
proof -
  have "find (live_in (rt_familyId row)) rs = Some row"
    by (rule find_unique) (use assms one_live_unique [OF assms(1)] in auto)
  then show ?thesis by (simp add: chains_def)
qed

lemma chains_spent:
  "r \<in> set rs \<Longrightarrow> rt_usedAt r \<noteq> None \<Longrightarrow> rt_token r \<in> spent (chains rs (rt_familyId r))"
  unfolding chains_def used_in_def chain.sel by blast

lemma chains_no_live:
  "(\<And>r. r \<in> set rs \<Longrightarrow> \<not> live_in f r) \<Longrightarrow> current (chains rs f) = None"
  by (simp add: chains_def find_None_iff)

lemma chains_unknown:
  assumes "\<forall>r \<in> set rs. rt_token r \<noteq> h"
  shows "h \<notin> spent (chains rs f) \<and> (\<forall>e. current (chains rs f) \<noteq> Some (h, e))"
  using assms by (auto simp: chains_def used_in_def dest: find_Some_set)

lemma chains_burn:
  "chains (filter (\<lambda>r. rt_familyId r \<noteq> g) rs) = (chains rs)(g := no_chain)"
proof
  fix f
  let ?rs = "filter (\<lambda>r. rt_familyId r \<noteq> g) rs"
  show "chains ?rs f = ((chains rs)(g := no_chain)) f"
  proof (cases "f = g")
    case True
    then show ?thesis by (auto simp: chains_def used_in_def no_chain_def find_None_iff)
  next
    case False
    then have "find (live_in f) ?rs = find (live_in f) rs" by (intro find_filter_other) auto
    moreover have "used_in ?rs f = used_in rs f" using False by (auto simp: used_in_def)
    ultimately show ?thesis using False by (simp add: chains_def)
  qed
qed

lemma chains_expire:
  assumes "tokens_unique rs" "one_live rs" "row \<in> set rs" "rt_usedAt row = None"
  shows "chains (filter (\<lambda>r. rt_id r \<noteq> rt_id row) rs) =
    (chains rs)(rt_familyId row := Chain None (spent (chains rs (rt_familyId row))))"
proof
  fix f
  let ?rs = "filter (\<lambda>r. rt_id r \<noteq> rt_id row) rs"
  have id: "rt_id r = rt_id row \<longleftrightarrow> r = row" if "r \<in> set rs" for r
    using that assms(1,3) by (auto simp: tokens_unique_def distinct_map inj_on_def)
  then have "used_in ?rs f = used_in rs f" using assms(4) by (auto simp: used_in_def)
  moreover have "find (live_in f) ?rs = (if f = rt_familyId row then None else find (live_in f) rs)"
  proof (cases "f = rt_familyId row")
    case True
    have "\<not> live_in f r" if "r \<in> set ?rs" for r
    proof -
      from that have "r \<in> set rs" "r \<noteq> row" by auto
      then show ?thesis unfolding True by (rule only_live [OF assms(2-4)])
    qed
    then have "find (live_in f) ?rs = None" unfolding find_None_iff by blast
    then show ?thesis using True by simp
  next
    case False
    have "rt_id r \<noteq> rt_id row" if "r \<in> set rs" "live_in f r" for r
      using id [OF that(1)] that(2) False by auto
    then have "find (live_in f) ?rs = find (live_in f) rs" by (rule find_filter_other)
    with False show ?thesis by simp
  qed
  ultimately show "chains ?rs f = ((chains rs)(rt_familyId row := Chain None (spent (chains rs (rt_familyId row))))) f"
    by (simp add: chains_def)
qed

lemma chains_claim:
  fixes rs :: "refresh_token list" and row :: refresh_token and t :: int
  assumes "tokens_unique rs" "one_live rs" "row \<in> set rs" "rt_usedAt row = None"
  defines "upd \<equiv> \<lambda>r. if rt_token r = rt_token row then r\<lparr>rt_usedAt := Some t\<rparr> else r"
  shows "chains (map upd rs) = (chains rs)(rt_familyId row :=
    Chain None (insert (rt_token row) (spent (chains rs (rt_familyId row)))))"
proof
  fix f
  have other: "upd r = r" if "r \<in> set rs" "r \<noteq> row" for r
    using that assms(1,3) by (auto simp: upd_def dest: tokens_unique_token)
  have row: "upd row = row\<lparr>rt_usedAt := Some t\<rparr>" by (simp add: upd_def)
  have img: "upd ` (set rs - {row}) = (\<lambda>r. r) ` (set rs - {row})"
    by (rule image_cong) (simp_all add: other)
  have "set (map upd rs) = upd ` insert row (set rs - {row})"
    using assms(3) by (simp add: insert_absorb)
  also have "\<dots> = insert (upd row) (upd ` (set rs - {row}))" by (rule image_insert)
  finally have rs: "set (map upd rs) = insert (upd row) (set rs - {row})" using img by simp
  show "chains (map upd rs) f = ((chains rs)(rt_familyId row :=
      Chain None (insert (rt_token row) (spent (chains rs (rt_familyId row)))))) f"
  proof (cases "f = rt_familyId row")
    case True
    have "\<not> live_in f r" if "r \<in> set rs - {row}" for r
      unfolding True by (rule only_live [OF assms(2-4)]) (use that in auto)
    moreover have "\<not> live_in f (upd row)" by (simp add: row)
    ultimately have "find (live_in f) (map upd rs) = None"
      unfolding find_None_iff rs by blast
    moreover have "used_in (map upd rs) f = insert (upd row) (used_in rs f)"
      unfolding used_in_def rs using True assms(4) by (auto simp: row)
    ultimately show ?thesis using True by (simp add: chains_def row)
  next
    case False
    have "live_in f (upd r) \<longleftrightarrow> live_in f r" if "r \<in> set rs" for r
      using False row other [OF that] by (cases "r = row") simp_all
    then have "map_option (\<lambda>r. (rt_token r, rt_expiresAt r)) (find (live_in f) (map upd rs)) =
        map_option (\<lambda>r. (rt_token r, rt_expiresAt r)) (find (live_in f) rs)"
      by (intro find_map_upd) (simp_all add: upd_def)
    moreover have "used_in (map upd rs) f = used_in rs f"
      unfolding used_in_def rs using False assms(4) by (auto simp: row)
    ultimately show ?thesis using False by (simp add: chains_def)
  qed
qed

lemma chains_mint:
  assumes "current (chains rs (rt_familyId n)) = None" "rt_usedAt n = None"
  shows "chains (rs @ [n]) = (chains rs)(rt_familyId n :=
    Chain (Some (rt_token n, rt_expiresAt n)) (spent (chains rs (rt_familyId n))))"
proof
  fix f
  have "find (live_in (rt_familyId n)) rs = None" using assms(1) by (simp add: chains_def)
  moreover have "used_in (rs @ [n]) f = used_in rs f" using assms(2) by (auto simp: used_in_def)
  ultimately show "chains (rs @ [n]) f = ((chains rs)(rt_familyId n :=
      Chain (Some (rt_token n, rt_expiresAt n)) (spent (chains rs (rt_familyId n))))) f"
    using assms(2) by (cases "f = rt_familyId n") (auto simp: chains_def find_append split: option.split)
qed

subsection \<open>What keeps one unused token for each family\<close>

lemma one_live_filter: "one_live rs \<Longrightarrow> one_live (filter Q rs)"
  unfolding one_live_def using count_rows_filter_le le_trans by blast

lemma one_live_map:
  assumes "one_live rs" "\<And>r f. live_in f (g r) \<Longrightarrow> live_in f r"
  shows "one_live (map g rs)"
  unfolding one_live_def
proof
  fix f
  have "count_rows (live_in f) (map g rs) \<le> count_rows (live_in f) rs"
    by (rule count_rows_map_le) (use assms(2) in blast)
  with assms(1) show "count_rows (live_in f) (map g rs) \<le> 1" unfolding one_live_def by (meson le_trans)
qed

lemma one_live_append:
  assumes "one_live rs" "current (chains rs (rt_familyId n)) = None"
  shows "one_live (rs @ [n])"
  unfolding one_live_def
proof
  fix f
  have "count_rows (live_in (rt_familyId n)) rs = 0"
    using assms(2) by (simp add: chains_def find_None_iff count_rows_0_iff)
  then show "count_rows (live_in f) (rs @ [n]) \<le> 1"
    using assms(1) by (cases "f = rt_familyId n") (auto simp: one_live_def)
qed

subsection \<open>Refinement\<close>

text \<open>What the reply of the route says of the step taken.\<close>

definition answer_of :: "exn + session \<Rightarrow> answer" where
  "answer_of r = (case r of
     Inr s \<Rightarrow> Rotated
   | Inl e \<Rightarrow> if e = token_reuse then Replayed else if e = token_expired then Expired
             else if e = invalid_token then Unknown else Abandoned)"

lemmas token_errors = token_reuse_def token_expired_def invalid_token_def unauthorized_def app_error_defs

lemma answer_of_simps [simp]:
  "answer_of (Inr s) = Rotated" "answer_of (Inl token_reuse) = Replayed" "answer_of (Inl token_expired) = Expired"
  "answer_of (Inl invalid_token) = Unknown" "answer_of (Inl unauthorized) = Abandoned"
  by (simp_all add: answer_of_def token_errors)

lemma run_refresh_stopped:
  assumes "origin_ok E req" "presented E cookie body = Some token" "token \<noteq> []"
    "run (useRefreshToken L token) w = (Inl e, w')"
  shows "run (refresh L E req cookie body) w = (Inl e, w')"
  using assms by (simp add: refresh_def run_simps truthy_str_iff)

lemma run_refresh_abandoned:
  assumes "pg w = Up" "origin_ok E req" "presented E cookie body = Some token" "token \<noteq> []"
    "run (useRefreshToken L token) w = (Inr c, claim h w)"
    "find (\<lambda>u. u_id u = rt_userId c \<and> notDeleted u) (users w) = None"
  shows "run (refresh L E req cookie body) w = (Inl unauthorized, claim h w)"
  using assms by (simp add: refresh_def run_simps truthy_str_iff claim_def)

lemma live_chain:
  assumes "one_live rs" "row \<in> set rs" "rt_usedAt row = None"
  shows "chains rs (rt_familyId row) = Chain (Some (rt_token row, rt_expiresAt row)) (spent (chains rs (rt_familyId row)))"
  using chains_live [OF assms] by (cases "chains rs (rt_familyId row)") simp

lemma refresh_step:
  fixes L :: lib and E :: env and req :: request and w :: world
  assumes "pg w = Up" "db_ok w" "origin_ok E req" "presented E cookie body = Some token" "token \<noteq> []"
    "\<forall>u \<in> set (users w). mintable L (u_id u) w" "one_live (refreshTokens w)"
  defines "rs \<equiv> refreshTokens w" and "h \<equiv> sha256Hex L token" and "r \<equiv> run (refresh L E req cookie body) w"
    and "new \<equiv> (sha256Hex L (minted L (rng w)), clock w + REFRESH_MS E)"
  shows "present_step (clock w) h new (chains rs) (answer_of (fst r)) (chains (refreshTokens (snd r))) \<and>
    one_live (refreshTokens (snd r))"
proof -
  have u: "tokens_unique rs" using assms(2) by (simp add: db_ok_def rs_def)
  have ol: "one_live rs" using assms(7) by (simp add: rs_def)
  note use = run_useRefreshToken [OF assms(1) u [unfolded rs_def], of L token, folded rs_def h_def]
  note stop = run_refresh_stopped [OF assms(3-5), of L w, folded r_def]
  show ?thesis
  proof (cases "find (\<lambda>r. rt_token r = h) rs")
    case None
    with use stop have "r = (Inl invalid_token, w)" by simp
    moreover have "\<forall>r \<in> set rs. rt_token r \<noteq> h" using None by (simp add: find_None_iff')
    ultimately show ?thesis
      using ol by (auto simp: rs_def [symmetric] intro: present_step.unknown dest: chains_unknown)
  next
    case (Some row)
    with find_Some_set [OF Some] have row: "row \<in> set rs" "rt_token row = h" by simp_all
    consider "rt_usedAt row \<noteq> None" | "rt_usedAt row = None" "\<not> clock w < rt_expiresAt row"
      | "rt_usedAt row = None" "clock w < rt_expiresAt row" by blast
    then show ?thesis
    proof cases
      case 1
      with use stop Some have r: "r = (Inl token_reuse, after_audit L (reuse_entry row) (burn_family (rt_familyId row) w))"
        by simp
      have "h \<in> spent (chains rs (rt_familyId row))" using chains_spent [OF row(1) 1] by (simp add: row(2))
      then show ?thesis
        using ol by (auto simp: r burn_family_def rs_def [symmetric] chains_burn one_live_filter intro: present_step.replayed)
    next
      case 2
      with use stop Some have r: "r = (Inl token_expired, w\<lparr>refreshTokens := filter (\<lambda>r. rt_id r \<noteq> rt_id row) rs\<rparr>)" by simp
      show ?thesis
        using present_step.expired [where S = "chains rs" and f = "rt_familyId row" and t = "clock w",
            OF live_chain [OF ol row(1) 2(1), unfolded row(2)]] 2
        by (simp add: r chains_expire [OF u ol row(1) 2(1)] one_live_filter ol)
    next
      case 3
      let ?c = "chains rs" and ?f = "rt_familyId row"
      let ?rs = "map (\<lambda>r. if rt_token r = h then r\<lparr>rt_usedAt := Some (clock w)\<rparr> else r) rs"
      have claimed: "chains ?rs = ?c(?f := Chain None (insert h (spent (?c ?f))))"
        using chains_claim [OF u ol row(1) 3(1), of "clock w"] unfolding row(2) .
      have olc: "one_live ?rs" by (rule one_live_map [OF ol]) (simp split: if_splits)
      note live = live_chain [OF ol row(1) 3(1), unfolded row(2)]
      have cl: "refreshTokens (claim h w) = ?rs" unfolding claim_def claimed_row_def rs_def by simp
      have useok: "run (useRefreshToken L token) w = (Inr (claimed_row w row), claim h w)" using use Some 3 by simp
      show ?thesis
      proof (cases "find (\<lambda>u. u_id u = rt_userId row \<and> notDeleted u) (users w)")
        case None
        then have "r = (Inl unauthorized, claim h w)"
          unfolding r_def by (intro run_refresh_abandoned [OF assms(1,3-5) useok]) (simp add: claimed_row_def)
        then show ?thesis
          using present_step.abandoned [where S = ?c and f = ?f, OF live 3(2)] olc cl by (simp add: claimed)
      next
        case (Some u)
        with assms(6) find_Some_set [OF Some] have m: "mintable L (u_id u) w" by auto
        note ok = run_refresh_ok [OF assms(1-5) \<open>find (\<lambda>r. rt_token r = h) rs = Some row\<close> [unfolded h_def rs_def] 3 Some m,
            folded r_def h_def rs_def]
        let ?n = "minted_row L E (u_id u) ?f w"
        have n: "rt_familyId ?n = ?f" "rt_usedAt ?n = None" "(rt_token ?n, rt_expiresAt ?n) = new"
          by (simp_all add: minted_row_def new_def)
        have none: "current (chains ?rs (rt_familyId ?n)) = None" by (simp add: claimed n)
        have "chains (?rs @ [?n]) = ?c(?f := Chain (Some new) (insert h (spent (?c ?f))))"
          unfolding chains_mint [OF none n(2)] n by (simp add: claimed)
        with present_step.rotated [where S = ?c and f = ?f, OF live 3(2)] one_live_append [OF olc none]
        show ?thesis by (simp add: ok)
      qed
    qed
  qed
qed

lemma logout_step:
  fixes L :: lib and token :: string and w :: world
  assumes "pg w = Up" "one_live (refreshTokens w)"
  defines "w' \<equiv> snd (run (revokeRefreshToken L token) w)"
  shows "end_step (sha256Hex L token) (chains (refreshTokens w)) (chains (refreshTokens w')) \<and> one_live (refreshTokens w')"
proof (cases "find (\<lambda>r. rt_token r = sha256Hex L token) (refreshTokens w)")
  case None
  then have "\<forall>r \<in> set (refreshTokens w). rt_token r \<noteq> sha256Hex L token" by (simp add: find_None_iff')
  with None assms show ?thesis
    by (auto simp: w'_def revokeRefreshToken_def run_simps intro: end_step.nothing dest: chains_unknown)
next
  case (Some row)
  let ?c = "chains (refreshTokens w)" and ?f = "rt_familyId row"
  have w': "refreshTokens w' = filter (\<lambda>r. rt_familyId r \<noteq> ?f) (refreshTokens w)"
    using Some assms(1) by (simp add: w'_def revokeRefreshToken_def run_simps)
  from find_Some_set [OF Some] have row: "row \<in> set (refreshTokens w)" "rt_token row = sha256Hex L token" by simp_all
  then have "sha256Hex L token \<in> spent (?c ?f) \<or> current (?c ?f) = Some (sha256Hex L token, rt_expiresAt row)"
    using chains_live [OF assms(2) row(1)] chains_spent [OF row(1)] by (cases "rt_usedAt row = None") (simp_all add: row(2))
  from end_step.ended [where S = ?c and f = ?f, OF this] assms(2) show ?thesis by (simp add: w' chains_burn one_live_filter)
qed

lemma login_step:
  fixes L :: lib and w :: world and E :: env and u :: user and f :: string
  assumes "pg w = Up" "mintable L (u_id u) w" "one_live (refreshTokens w)" "\<forall>r \<in> set (refreshTokens w). rt_familyId r \<noteq> f"
  defines "w' \<equiv> snd (run (log_in L E u f) w)"
  shows "chains (refreshTokens w') =
      (chains (refreshTokens w))(f := Chain (Some (sha256Hex L (minted L (rng w)), clock w + REFRESH_MS E)) {}) \<and>
    one_live (refreshTokens w')"
proof -
  let ?n = "minted_row L E (u_id u) f w"
  have w': "refreshTokens w' = refreshTokens w @ [?n]" by (simp add: w'_def run_log_in [OF assms(1,2)])
  have n: "rt_familyId ?n = f" "rt_usedAt ?n = None" by (simp_all add: minted_row_def)
  have "chains (refreshTokens w) f = no_chain"
    using assms(4) by (auto simp: chains_def used_in_def no_chain_def find_None_iff)
  then have none: "current (chains (refreshTokens w) (rt_familyId ?n)) = None" "spent (chains (refreshTokens w) f) = {}"
    by (simp_all add: n no_chain_def)
  show ?thesis
    using chains_mint [OF none(1) n(2)] one_live_append [OF assms(3) none(1)] none(2) unfolding n
    by (simp add: w' minted_row_def)
qed

subsection \<open>Properties\<close>

text \<open>C11. The sessions refine the chains: with the database answering, a refresh takes exactly the step
  of the specification its reply names (rotated, replayed and revoked, expired, unknown, or abandoned
  when the account is gone), the revocation of a logout ends the chain its token belongs to, the tokens
  issued after a login open a new chain, and all three keep at most one unused token in each family.\<close>

theorem sessions_refine_chains:
  fixes L :: lib and E :: env and req :: request and w :: world and v :: user and f :: string
  assumes "pg w = Up" "db_ok w" "origin_ok E req" "presented E cookie body = Some token" "token \<noteq> []"
    "\<forall>u \<in> set (users w). mintable L (u_id u) w" "one_live (refreshTokens w)"
    "v \<in> set (users w)" "\<forall>r \<in> set (refreshTokens w). rt_familyId r \<noteq> f"
  defines "h \<equiv> sha256Hex L token" and "new \<equiv> (sha256Hex L (minted L (rng w)), clock w + REFRESH_MS E)"
    and "S \<equiv> chains (refreshTokens w)"
    and "r \<equiv> run (refresh L E req cookie body) w" and "w2 \<equiv> snd (run (revokeRefreshToken L token) w)"
    and "w3 \<equiv> snd (run (log_in L E v f) w)"
  shows "present_step (clock w) h new S (answer_of (fst r)) (chains (refreshTokens (snd r))) \<and>
    one_live (refreshTokens (snd r)) \<and>
    end_step h S (chains (refreshTokens w2)) \<and> one_live (refreshTokens w2) \<and>
    chains (refreshTokens w3) = S(f := Chain (Some new) {}) \<and> one_live (refreshTokens w3)"
  using refresh_step [OF assms(1-7)] logout_step [OF assms(1,7), of L token]
    login_step [OF assms(1) _ assms(7,9), of L v E] assms(6,8)
  unfolding h_def new_def S_def r_def w2_def w3_def by blast

theorem sessions_refine_chains_witness:
  "present_step 1000 ''hold'' (sha256Hex demo_lib (minted demo_lib 0), 1000 + REFRESH_MS demo_env)
     (chains (refreshTokens demo_world)) Replayed
     (chains (refreshTokens (snd (run (refresh demo_lib demo_env demo_request None (Some ''old'')) demo_world))))"
proof -
  have "one_live (refreshTokens demo_world)" by (simp add: one_live_def)
  moreover have "run (useRefreshToken demo_lib ''old'') demo_world =
      (Inl token_reuse, after_audit demo_lib (reuse_entry (demo_token ''old'' (Some 10))) (burn_family ''family'' demo_world))"
    using run_useRefreshToken [of demo_world demo_lib "''old''"] demo_db_ok by (simp add: db_ok_def)
  then have "answer_of (fst (run (refresh demo_lib demo_env demo_request None (Some ''old'')) demo_world)) = Replayed"
    by (simp add: run_refresh_stopped [where token = "''old''"] origin_ok_def presented_def)
  ultimately show ?thesis
    using sessions_refine_chains [of demo_world demo_env demo_request None "Some ''old''" "''old''" demo_lib demo_user "''other''"]
      demo_mintable [of 0]
    by (simp add: origin_ok_def presented_def)
qed

end
