(* ===== verification/Families.thy ===== *)
theory Families
  imports Stock Sessions
begin

text \<open>
  The sessions under concurrency: the unused tokens of one family are a stock of at most one, which
  only a login can open, so that no interleaving forks a session and none revives one that has ended.
\<close>

subsection \<open>The stock of one family\<close>

text \<open>
  The identifier \<open>f\<close> is drawn at the position \<open>m\<close> only, or at none. Until then the login that draws it
  is still owed the one token of the family.
\<close>

definition only_drawn_at :: "lib \<Rightarrow> string \<Rightarrow> nat option \<Rightarrow> nat \<Rightarrow> bool" where
  "only_drawn_at L f m n \<longleftrightarrow> (\<forall>i \<ge> n. uuid L i = f \<longrightarrow> m = Some i)"

definition owed :: "nat option \<Rightarrow> nat \<Rightarrow> nat" where
  "owed m n = (case m of None \<Rightarrow> 0 | Some k \<Rightarrow> if n \<le> k then 1 else 0)"

abbreviation family_stock :: "string \<Rightarrow> nat option \<Rightarrow> world \<Rightarrow> nat" where
  "family_stock f m w \<equiv> unspent (\<lambda>t g. g = f) w + owed m (rng w)"

lemma family_unspent: "unspent (\<lambda>t g. g = f) w = count_rows (live_in f) (refreshTokens w)"
  by (simp add: unspent_def)

lemma owed_antimono: "n \<le> n' \<Longrightarrow> owed m n' \<le> owed m n"
  by (simp add: owed_def split: option.split)

interpretation by_family: quiet_stock "\<lambda>w. only_drawn_at L f m (rng w)" "family_stock f m" "\<lambda>t g. g = f" for L f m
  by unfold_locales (auto simp: only_drawn_at_def intro: add_mono owed_antimono)

lemma family_opens:
  "metered (\<lambda>w. only_drawn_at L f m (rng w)) (family_stock f m) (\<lambda>fam. k + (if fam = f then 1 else 0)) (randomUUID L) k"
  unfolding randomUUID_def draw_def by (rule metered_atom) (auto simp: only_drawn_at_def owed_def split: option.split)

lemma family_issues:
  "metered (\<lambda>w. only_drawn_at L f m (rng w)) (family_stock f m) (\<lambda>_. k) (issueTokens L E i r fam)
     (k + (if fam = f then 1 else 0))"
proof (cases "fam = f")
  case True
  have grow: "only_drawn_at L f m (rng v') \<and> family_stock f m v' \<le> Suc (family_stock f m v)"
    if "only_drawn_at L f m (rng v)" "rng v \<le> rng v'" "unspent (\<lambda>t g. g = f) v' \<le> Suc (unspent (\<lambda>t g. g = f) v)" for v v'
    using that owed_antimono [OF that(2), of m] by (auto simp: only_drawn_at_def)
  have "metered (\<lambda>w. only_drawn_at L f m (rng w)) (family_stock f m) (\<lambda>_. k) (insert_token L i h e fam) (Suc k)" for h e
    by (rule by_family.insert_metered [OF grow])
  with True show ?thesis by (simp add: by_family.issueTokens_metered)
next
  case False
  then show ?thesis
    by (intro by_family.issueTokens_metered) (auto intro!: by_family.holds_spare spares_insert_token)
qed

lemma family_claims:
  "metered (\<lambda>w. only_drawn_at L f m (rng w)) (family_stock f m) (\<lambda>row. k + (if rt_familyId row = f then 1 else 0))
     (useRefreshToken L tok) k"
  by (rule by_family.useRefreshToken_metered, rule by_family.claim_metered [where d = "owed m"]) simp_all

interpretation by_family: token_stock "\<lambda>w. only_drawn_at L f m (rng w)" "family_stock f m" "\<lambda>t g. g = f" L E
    "\<lambda>g. if g = f then 1 else 0" for L E f m
  by unfold_locales (rule family_opens family_issues family_claims)+

subsection \<open>Properties\<close>

text \<open>C6. A session never forks and never comes back: in every interleaving of any requests, jobs and
  seeds, with any outages, a family of refresh tokens has at most one unused token; and a family that
  is not drawn again gains none, so that one that has none left, logged out, revoked or expired, never
  gets one. (Assumed: the identifier of a new family is drawn once at most.)\<close>

theorem one_unused_token_per_family:
  assumes "pool_run env_step (w, map (serve L E) calls) (w', ps)"
    "(\<forall>i \<ge> rng w. uuid L i \<noteq> f) \<and> length (filter (live_in f) (refreshTokens w)) \<le> 1 \<or>
     (\<forall>i \<ge> rng w. uuid L i = f \<longrightarrow> i = m) \<and> filter (live_in f) (refreshTokens w) = []"
  shows "length (filter (live_in f) (refreshTokens w')) \<le> 1 \<and>
    ((\<forall>i \<ge> rng w. uuid L i \<noteq> f) \<longrightarrow>
       length (filter (live_in f) (refreshTokens w')) \<le> length (filter (live_in f) (refreshTokens w)))"
proof (cases "\<forall>i \<ge> rng w. uuid L i \<noteq> f")
  case True
  then have "only_drawn_at L f None (rng w)" by (simp add: only_drawn_at_def)
  from by_family.stock_bounded [OF this assms(1)] True assms(2) show ?thesis
    by (auto simp: family_unspent owed_def count_rows_def)
next
  case False
  with assms(2) have "only_drawn_at L f (Some m) (rng w)" "count_rows (live_in f) (refreshTokens w) = 0"
    by (auto simp: only_drawn_at_def count_rows_def)
  with by_family.stock_bounded [OF this(1) assms(1)] False show ?thesis
    by (auto simp: family_unspent owed_def count_rows_def split: if_splits)
qed

text \<open>Both outcomes of the assumption: the family of a stored token, and one that a login is to draw.\<close>

theorem one_unused_token_per_family_witness:
  "\<exists>w' ps. pool_run env_step (demo_world, map (serve demo_lib demo_env)
       [Refresh demo_request None (Some ''new''), Refresh demo_request None (Some ''new'')]) (w', ps) \<and>
     length (refreshTokens w') = 3 \<and> length (filter (live_in ''family'') (refreshTokens w')) \<le> 1 \<and>
     length (filter (live_in ''u1'') (refreshTokens w')) \<le> 1"
proof -
  let ?ps = "map (serve demo_lib demo_env)
    [Refresh demo_request None (Some ''new''), Refresh demo_request None (Some ''new'')]"
  let ?r = "run (?ps ! 0) demo_world"
  have run: "pool_run env_step (demo_world, ?ps) (snd ?r, ?ps[0 := finished (fst ?r)])"
    by (rule pool_run_alone) simp
  have three: "length (refreshTokens (snd ?r)) = 3" by (simp add: forget_def run_simps demo_refresh)
  have never: "\<forall>i \<ge> rng demo_world. uuid demo_lib i \<noteq> ''family''" by (simp add: demo_lib_def)
  have "uuid demo_lib 1 = ''u1''" by (simp add: demo_lib_def) code_simp
  then have once: "\<forall>i \<ge> rng demo_world. uuid demo_lib i = ''u1'' \<longrightarrow> i = 1"
    using demo_lib_ok(3) by (metis injD uuid_fresh_def)
  have "length (filter (live_in ''family'') (refreshTokens (snd ?r))) \<le> 1"
    by (rule one_unused_token_per_family [where m = 0, OF run, THEN conjunct1]) (use never in simp)
  moreover have "length (filter (live_in ''u1'') (refreshTokens (snd ?r))) \<le> 1"
    by (rule one_unused_token_per_family [where m = 1, OF run, THEN conjunct1]) (use once in simp)
  ultimately show ?thesis using run three by blast
qed

end
