(* ===== verification/Weather.thy ===== *)
theory Weather
  imports App Sessions
begin

text \<open>
  Fair weather: with Postgres and Redis answering, no request ends in an internal error. The proof is
  a small program logic. \<open>knows Err K p R\<close> says that the program \<open>p\<close>, started in a fair state whose
  users include the ids \<open>K\<close>, ends in a fair state, throws only errors with \<open>Err\<close>, and returns a result
  \<open>x\<close> only when the ids \<open>R x\<close> belong to users. Users are never removed, so what is known stays known.
\<close>

subsection \<open>Fair states\<close>

text \<open>The errors meant for the client: the five classes of \<open>lib/errors.ts\<close>.\<close>

definition client_statuses :: "nat set" where
  "client_statuses = {400, 401, 403, 404, 409}"

definition client_error :: "exn \<Rightarrow> bool" where
  "client_error e = (case e of App a \<Rightarrow> statusCode a \<in> client_statuses | Thrown v \<Rightarrow> False)"

definition plain_id :: "string \<Rightarrow> bool" where
  "plain_id s \<longleftrightarrow> CHR '':'' \<notin> set s"

text \<open>The keys the services count attempts under.\<close>

definition counter_key :: "string \<Rightarrow> bool" where
  "counter_key k \<longleftrightarrow> starts_with ''otp:verify:attempts:'' k \<or> starts_with ''pwreset:attempts:'' k \<or>
     starts_with ''mfa:login:attempts:'' k"

text \<open>
  The random source up to the draw \<open>H\<close>: identifiers and token hashes do not repeat, hashes fit their
  column, and neither contains a colon.
\<close>

definition source_ok :: "lib \<Rightarrow> nat \<Rightarrow> bool" where
  "source_ok L H \<longleftrightarrow> inj_on (uuid L) {..<H} \<and> inj_on (\<lambda>i. sha256Hex L (minted L i)) {..<H} \<and>
     (\<forall>i < H. length (sha256Hex L (minted L i)) \<le> 512 \<and> plain_id (uuid L i) \<and> plain_id (sha256Hex L (minted L i)))"

lemma source_new:
  "source_ok L H \<Longrightarrow> i < H \<Longrightarrow> j < H \<Longrightarrow> i \<noteq> j \<Longrightarrow>
   uuid L i \<noteq> uuid L j \<and> sha256Hex L (minted L i) \<noteq> sha256Hex L (minted L j)"
  by (auto simp: source_ok_def dest: inj_onD)

definition ids :: "world \<Rightarrow> string set" where
  "ids w = u_id ` set (users w)"

text \<open>What the draws still to come may collide with.\<close>

definition unseen :: "lib \<Rightarrow> nat \<Rightarrow> world \<Rightarrow> bool" where
  "unseen L H w \<longleftrightarrow> (\<forall>i. rng w \<le> i \<and> i < H \<longrightarrow>
     uuid L i \<notin> ids w \<and> uuid L i \<notin> rt_id ` set (refreshTokens w) \<and>
     sha256Hex L (minted L i) \<notin> rt_token ` set (refreshTokens w))"

definition counters_ok :: "world \<Rightarrow> bool" where
  "counters_ok w \<longleftrightarrow> (\<forall>k v. counter_key k \<longrightarrow> redis_look w k = Some v \<longrightarrow> parse_int v \<noteq> None)"

definition fair :: "lib \<Rightarrow> env \<Rightarrow> nat \<Rightarrow> world \<Rightarrow> bool" where
  "fair L E H w \<longleftrightarrow> pg w = Up \<and> rd w = Up \<and> mail_ok E w \<and> counters_ok w \<and>
     (\<forall>i \<in> ids w. plain_id i) \<and> unseen L H w"

lemma fair_links: "fair L E H w \<Longrightarrow> pg w = Up" "fair L E H w \<Longrightarrow> rd w = Up" "fair L E H w \<Longrightarrow> mail_ok E w"
  by (simp_all add: fair_def)

text \<open>A change of state that leaves users' ids, and lets the tokens and the counters be.\<close>

lemma fair_keep:
  assumes "fair L E H w" "pg w' = Up" "rd w' = Up" "mail_ok E w'" "ids w' = ids w" "rng w \<le> rng w'"
    "rt_id ` set (refreshTokens w') \<subseteq> rt_id ` set (refreshTokens w)"
    "rt_token ` set (refreshTokens w') \<subseteq> rt_token ` set (refreshTokens w)"
    "\<And>k v. counter_key k \<Longrightarrow> redis_look w' k = Some v \<Longrightarrow> redis_look w k = Some v \<or> parse_int v \<noteq> None"
  shows "fair L E H w'"
proof -
  have "unseen L H w'"
    unfolding unseen_def
  proof (intro allI impI)
    fix i assume "rng w' \<le> i \<and> i < H"
    with assms(6) have "rng w \<le> i \<and> i < H" by simp
    with assms(1) have "uuid L i \<notin> ids w \<and> uuid L i \<notin> rt_id ` set (refreshTokens w) \<and>
        sha256Hex L (minted L i) \<notin> rt_token ` set (refreshTokens w)" unfolding fair_def unseen_def by blast
    with assms(5,7,8) show "uuid L i \<notin> ids w' \<and> uuid L i \<notin> rt_id ` set (refreshTokens w') \<and>
        sha256Hex L (minted L i) \<notin> rt_token ` set (refreshTokens w')" by blast
  qed
  moreover have "counters_ok w'" using assms(1,9) unfolding fair_def counters_ok_def by blast
  ultimately show ?thesis using assms(1-5) by (simp add: fair_def)
qed

subsection \<open>The logic\<close>

definition result_ok :: "(exn \<Rightarrow> bool) \<Rightarrow> ('a \<Rightarrow> string set) \<Rightarrow> string set \<Rightarrow> exn + 'a \<Rightarrow> bool" where
  "result_ok Err R I r = (case r of Inl e \<Rightarrow> Err e | Inr x \<Rightarrow> R x \<subseteq> I)"

lemma result_ok_simps [simp]: "result_ok Err R I (Inl e) = Err e" "result_ok Err R I (Inr x) = (R x \<subseteq> I)"
  by (simp_all add: result_ok_def)

definition knows :: "lib \<Rightarrow> env \<Rightarrow> nat \<Rightarrow> (exn \<Rightarrow> bool) \<Rightarrow> string set \<Rightarrow> (world, 'a) prog \<Rightarrow> ('a \<Rightarrow> string set) \<Rightarrow> bool" where
  "knows L E H Err K p R \<longleftrightarrow> (\<forall>w r w'. run p w = (r, w') \<longrightarrow> rng w \<le> rng w' \<and>
     (fair L E H w \<and> K \<subseteq> ids w \<and> rng w' \<le> H \<longrightarrow>
       fair L E H w' \<and> ids w \<subseteq> ids w' \<and> result_ok Err R (ids w') r))"

lemma knowsI:
  assumes "\<And>w r w'. run p w = (r, w') \<Longrightarrow> rng w \<le> rng w'"
    and "\<And>w r w'. run p w = (r, w') \<Longrightarrow> fair L E H w \<Longrightarrow> K \<subseteq> ids w \<Longrightarrow> rng w' \<le> H \<Longrightarrow>
       fair L E H w' \<and> ids w \<subseteq> ids w' \<and> result_ok Err R (ids w') r"
  shows "knows L E H Err K p R"
  using assms unfolding knows_def by blast

lemma knows_rng: "knows L E H Err K p R \<Longrightarrow> run p w = (r, w') \<Longrightarrow> rng w \<le> rng w'"
  unfolding knows_def by blast

lemma knowsD:
  assumes "knows L E H Err K p R" "run p w = (r, w')" "fair L E H w" "K \<subseteq> ids w" "rng w' \<le> H"
  shows "fair L E H w' \<and> ids w \<subseteq> ids w' \<and> result_ok Err R (ids w') r"
  using assms unfolding knows_def by blast

lemma knows_Ret: "R x \<subseteq> K \<Longrightarrow> knows L E H Err K (Ret x) R"
  by (rule knowsI) auto

lemma knows_Ret0: "knows L E H Err K (Ret x) (\<lambda>_. {})"
  by (rule knows_Ret) simp

lemma knows_Throw: "Err e \<Longrightarrow> knows L E H Err K (Throw e) R"
  by (rule knowsI) auto

lemma knows_bnd:
  assumes p: "knows L E H Err K p Q" and k: "\<And>x. knows L E H Err (K \<union> Q x) (k x) R"
  shows "knows L E H Err K (bnd p k) R"
proof (rule knowsI)
  fix w r w'
  assume run: "run (bnd p k) w = (r, w')"
  then show "rng w \<le> rng w'"
    by (rule run_bndE) (blast intro: le_trans knows_rng [OF p] knows_rng [OF k])+
  assume w: "fair L E H w" "K \<subseteq> ids w" and H: "rng w' \<le> H"
  from run show "fair L E H w' \<and> ids w \<subseteq> ids w' \<and> result_ok Err R (ids w') r"
  proof (rule run_bndE)
    fix e assume "run p w = (Inl e, w')" "r = Inl e"
    with knowsD [OF p _ w H] show ?thesis by auto
  next
    fix x w1 assume 1: "run p w = (Inr x, w1)" and 2: "run (k x) w1 = (r, w')"
    have "rng w1 \<le> H" using knows_rng [OF k 2] H by simp
    from knowsD [OF p 1 w this] have "fair L E H w1" "ids w \<subseteq> ids w1" "Q x \<subseteq> ids w1" by simp_all
    with knowsD [OF k 2 _ _ H] w(2) show ?thesis by blast
  qed
qed

lemma knows_mono:
  assumes p: "knows L E H Err K p R"
    and "K \<subseteq> K'" "\<And>e. Err e \<Longrightarrow> Err' e" "\<And>x. R' x \<subseteq> R x \<union> K'"
  shows "knows L E H Err' K' p R'"
proof (rule knowsI)
  fix w r w' assume run: "run p w = (r, w')"
  show "rng w \<le> rng w'" by (rule knows_rng [OF p run])
  assume "fair L E H w" "K' \<subseteq> ids w" "rng w' \<le> H"
  with knowsD [OF p run] assms(2-4) show "fair L E H w' \<and> ids w \<subseteq> ids w' \<and> result_ok Err' R' (ids w') r"
    by (cases r) (simp; blast)+
qed

lemma knows_sequ: "knows L E H Err K p Q \<Longrightarrow> knows L E H Err K q R \<Longrightarrow> knows L E H Err K (sequ p q) R"
  unfolding sequ_def by (rule knows_bnd, assumption, rule knows_mono) auto

lemma knows_try:
  assumes p: "knows L E H Err' K p R" and h: "\<And>e. Err' e \<Longrightarrow> knows L E H Err K (h e) R"
    and m: "\<And>e w r w'. run (h e) w = (r, w') \<Longrightarrow> rng w \<le> rng w'"
  shows "knows L E H Err K (try_catch p h) R"
proof (rule knowsI)
  fix w r w'
  assume run: "run (try_catch p h) w = (r, w')"
  then show "rng w \<le> rng w'"
    by (rule run_tryE) (blast intro: le_trans knows_rng [OF p] m)+
  assume w: "fair L E H w" "K \<subseteq> ids w" and H: "rng w' \<le> H"
  from run show "fair L E H w' \<and> ids w \<subseteq> ids w' \<and> result_ok Err R (ids w') r"
  proof (rule run_tryE)
    fix x assume "run p w = (Inr x, w')" "r = Inr x"
    with knowsD [OF p _ w H] show ?thesis by auto
  next
    fix e w1 assume 1: "run p w = (Inl e, w1)" and 2: "run (h e) w1 = (r, w')"
    have "rng w1 \<le> H" using m [OF 2] H by simp
    from knowsD [OF p 1 w this] have "fair L E H w1" "ids w \<subseteq> ids w1" "Err' e" by simp_all
    with knowsD [OF h 2 _ _ H] w(2) show ?thesis by blast
  qed
qed

text \<open>Rules for the program text.\<close>

lemma knows_if:
  "(b \<Longrightarrow> knows L E H Err K p R) \<Longrightarrow> (\<not> b \<Longrightarrow> knows L E H Err K q R) \<Longrightarrow> knows L E H Err K (if b then p else q) R"
  by simp

lemma knows_option:
  "(x = None \<Longrightarrow> knows L E H Err K p R) \<Longrightarrow> (\<And>y. x = Some y \<Longrightarrow> knows L E H Err K (q y) R) \<Longrightarrow>
   knows L E H Err K (case x of None \<Rightarrow> p | Some y \<Rightarrow> q y) R"
  by (cases x) simp_all

lemma knows_cons:
  "(x = [] \<Longrightarrow> knows L E H Err K p R) \<Longrightarrow> (\<And>y ys. x = y # ys \<Longrightarrow> knows L E H Err K (q y ys) R) \<Longrightarrow>
   knows L E H Err K (case x of [] \<Rightarrow> p | y # ys \<Rightarrow> q y ys) R"
  by (cases x) simp_all

lemma knows_verdict:
  "(\<And>s b. x = Status s b \<Longrightarrow> knows L E H Err K (p s b) R) \<Longrightarrow> (\<And>c. x = Pass c \<Longrightarrow> knows L E H Err K (q c) R) \<Longrightarrow>
   knows L E H Err K (case x of Status s b \<Rightarrow> p s b | Pass c \<Rightarrow> q c) R"
  by (cases x) simp_all

lemma knows_pair:
  "(\<And>a b. x = (a, b) \<Longrightarrow> knows L E H Err K (q a b) R) \<Longrightarrow> knows L E H Err K (case x of (a, b) \<Rightarrow> q a b) R"
  by (cases x) simp

lemmas knows_text = knows_if knows_option knows_cons knows_verdict knows_pair

subsection \<open>Single calls\<close>

lemma knows_now: "knows L E H Err K now (\<lambda>_. {})"
  by (rule knowsI) (auto simp: run_simps)

text \<open>A call over a link that is up in fair weather.\<close>

lemma knows_link:
  assumes "\<And>w. fair L E H w \<Longrightarrow> lk w = Up" "\<And>w. rng w \<le> rng (snd (f w))"
    and "\<And>w. fair L E H w \<Longrightarrow> K \<subseteq> ids w \<Longrightarrow> rng (snd (f w)) \<le> H \<Longrightarrow>
      fair L E H (snd (f w)) \<and> ids w \<subseteq> ids (snd (f w)) \<and> result_ok Err R (ids (snd (f w))) (fst (f w))"
  shows "knows L E H Err K (over_link lk err f) R"
proof (rule knowsI)
  fix w r w' assume run: "run (over_link lk err f) w = (r, w')"
  then show "rng w \<le> rng w'" using assms(2) [of w] by (auto simp: run_over_link split: link.splits)
  assume "fair L E H w" "K \<subseteq> ids w" "rng w' \<le> H"
  with run assms(1,3) show "fair L E H w' \<and> ids w \<subseteq> ids w' \<and> result_ok Err R (ids w') r"
    by (simp add: run_simps) (metis fst_conv snd_conv)
qed

lemmas knows_pg_call = knows_link [where lk = pg and err = "DrizzleQueryError ''08006''", folded pg_call_def]
lemmas knows_bounded = knows_link [where lk = rd and err = "timeout_error _", folded bounded_def]

definition row_id :: "user option \<Rightarrow> string set" where
  "row_id r = (case r of None \<Rightarrow> {} | Some u \<Rightarrow> {u_id u})"

lemma row_id_simps [simp]: "row_id None = {}" "row_id (Some u) = {u_id u}"
  by (simp_all add: row_id_def)

lemma row_id_find: "row_id (find P (users w)) \<subseteq> ids w"
  by (cases "find P (users w)") (auto simp: ids_def dest: find_Some_set)

lemma knows_reads:
  "knows L E H Err K (select_user P) row_id" "knows L E H Err K (select_users P) (\<lambda>_. {})"
  "knows L E H Err K (select_token Q) (\<lambda>_. {})"
  "knows L E H Err K (cache_get key) (\<lambda>_. {})" "knows L E H Err K (cache_exists key) (\<lambda>_. {})"
  unfolding select_user_def select_users_def select_token_def cache_get_def cache_exists_def
  by (rule knows_pg_call knows_bounded; simp add: fair_links row_id_find)+

text \<open>A limit or an offset that Postgres can read.\<close>

definition whole :: "rat \<Rightarrow> bool" where
  "whole x \<longleftrightarrow> (case bigint_param x of Inl e \<Rightarrow> False | Inr n \<Rightarrow> True)"

lemma whole_defaults [simp]: "whole 20" "whole 0"
  by (simp_all add: whole_def)

lemma whole_iff: "whole x \<longleftrightarrow> x = of_int \<lfloor>x\<rfloor> \<and> 0 \<le> \<lfloor>x\<rfloor> \<and> \<lfloor>x\<rfloor> < 2 ^ 63"
  by (simp add: whole_def bigint_param_def)

lemma knows_page:
  assumes "(whole l \<and> whole k) \<or> (\<forall>e. Err e)"
  shows "knows L E H Err K (select_page L' P l k) (\<lambda>_. {})"
  unfolding select_page_def
  by (rule knows_pg_call) (use assms in \<open>auto simp: fair_links whole_def split: sum.splits\<close>)

lemma fair_tokens:
  "fair L E H w \<Longrightarrow> rt_id ` set rs \<subseteq> rt_id ` set (refreshTokens w) \<Longrightarrow>
   rt_token ` set rs \<subseteq> rt_token ` set (refreshTokens w) \<Longrightarrow> fair L E H (w\<lparr>refreshTokens := rs\<rparr>)"
  by (rule fair_keep, assumption) (simp_all add: fair_links ids_def)

lemma ids_upd [simp]:
  "ids (w\<lparr>refreshTokens := rs\<rparr>) = ids w" "ids (w\<lparr>auditLogs := as\<rparr>) = ids w" "ids (w\<lparr>rng := n\<rparr>) = ids w"
  "ids (redis_put k v t w) = ids w" "ids (redis_drop k w) = ids w" "ids (redis_keep_ttl k v w) = ids w"
  by (simp_all add: ids_def)

lemma knows_tokens:
  "(\<And>r. rt_id (g r) = rt_id r \<and> rt_token (g r) = rt_token r) \<Longrightarrow> knows L E H Err K (update_tokens Q g) (\<lambda>_. {})"
  "knows L E H Err K (delete_tokens Q) (\<lambda>_. {})"
  unfolding update_tokens_def delete_tokens_def
  by (rule knows_pg_call; auto simp: fair_links intro!: fair_tokens)+

lemma knows_delete_audit: "knows L E H Err K (delete_audit A) (\<lambda>_. {})"
  unfolding delete_audit_def
  by (rule knows_pg_call; simp add: fair_links; rule fair_keep, assumption) (simp_all add: fair_links, simp add: fair_def mail_ok_def)

lemma knows_update_users:
  assumes "\<And>u. u_id (f u) = u_id u"
  shows "knows L E H Err K (update_users P f) (\<lambda>us. u_id ` set us)"
proof -
  have id [simp]: "u_id (set_user t f u) = u_id u" for t u by (simp add: set_user_def assms)
  have "u_id ` set (map (\<lambda>u. if P u then set_user t f u else u) us) = u_id ` set us" for t us
    by (induction us) simp_all
  then have ids: "ids (w\<lparr>users := map (\<lambda>u. if P u then set_user (clock w) f u else u) (users w)\<rparr>) = ids w" for w
    by (simp add: ids_def)
  have "fair L E H (w\<lparr>users := map (\<lambda>u. if P u then set_user (clock w) f u else u) (users w)\<rparr>)"
    if "fair L E H w" for w
    using that by (rule fair_keep) (use that in \<open>simp_all add: fair_links ids\<close>)
  moreover have "u_id ` set (map (set_user t f) (filter P us)) \<subseteq> u_id ` set us" for t us by auto
  ultimately show ?thesis
    unfolding update_users_def
    by (intro knows_pg_call) (simp_all only: fst_conv snd_conv result_ok_simps ids fair_links, simp_all, simp add: ids_def)
qed

text \<open>Drawing, and writing to Redis.\<close>

lemma fair_upd:
  assumes "fair L E H w" "pg w' = Up" "rd w' = Up" "mail_ok E w'" "users w' = users w" "refreshTokens w' = refreshTokens w"
    "rng w \<le> rng w'" "\<And>k v. counter_key k \<Longrightarrow> redis_look w' k = Some v \<Longrightarrow> redis_look w k = Some v \<or> parse_int v \<noteq> None"
  shows "fair L E H w'"
  by (rule fair_keep [OF assms(1-4)]) (use assms in \<open>simp_all add: ids_def\<close>)

lemma knows_draw: "knows L E H Err K (draw f) (\<lambda>_. {})"
proof (rule knowsI)
  fix w r w' assume run: "run (draw f) w = (r, w')"
  then show "rng w \<le> rng w'" by (auto simp: run_simps)
  assume "fair L E H w"
  then have "fair L E H (w\<lparr>rng := Suc (rng w)\<rparr>)"
    by (rule fair_upd) (use \<open>fair L E H w\<close> in \<open>simp_all add: fair_links\<close>)
  with run show "fair L E H w' \<and> ids w \<subseteq> ids w' \<and> result_ok Err (\<lambda>_. {}) (ids w') r"
    by (auto simp: run_simps)
qed

lemma knows_getDummyHash: "knows L E H Err K (getDummyHash L) (\<lambda>_. {})"
proof (rule knowsI)
  fix w r w' assume run: "run (getDummyHash L) w = (r, w')"
  then show "rng w \<le> rng w'" by (auto simp: getDummyHash_def run_simps Let_def split: option.splits)
  assume w: "fair L E H w"
  then have "fair L E H (w\<lparr>rng := Suc (rng w), dummyHash := Some h\<rparr>)" for h
    by (rule fair_upd) (use w in \<open>simp_all add: fair_links redis_look_def\<close>, simp add: fair_def mail_ok_def)
  with w run show "fair L E H w' \<and> ids w \<subseteq> ids w' \<and> result_ok Err (\<lambda>_. {}) (ids w') r"
    by (auto simp: getDummyHash_def run_simps Let_def ids_def split: option.splits)
qed

lemma fair_redis:
  assumes "fair L E H w"
  shows "(counter_key k \<Longrightarrow> parse_int v \<noteq> None) \<Longrightarrow> 0 < n \<Longrightarrow> fair L E H (redis_put k v (Some n) w)"
    and "fair L E H (redis_drop k w)"
    and "parse_int v \<noteq> None \<Longrightarrow> fair L E H (redis_keep_ttl k v w)"
  by (rule fair_upd [OF assms]; use assms in \<open>simp_all add: fair_links redis_look_put split: if_splits\<close>)+

lemma knows_cache_set:
  "(counter_key k \<Longrightarrow> parse_int v \<noteq> None) \<Longrightarrow> 0 < n \<Longrightarrow> knows L E H Err K (cache_set k v (Some n)) (\<lambda>_. {})"
  unfolding cache_set_def by (rule knows_bounded) (simp_all add: fair_links fair_redis)

lemma knows_cache_del: "knows L E H Err K (cache_del k) (\<lambda>_. {})"
  unfolding cache_del_def by (rule knows_bounded) (simp_all add: fair_links fair_redis)

lemma knows_cache_incr:
  assumes "counter_key k"
  shows "knows L E H Err K (cache_incr k) (\<lambda>_. {})"
  unfolding cache_incr_def
proof (rule knows_bounded)
  fix w
  show "rng w \<le> rng (snd (redis_INCR k w))" by (auto simp: redis_INCR_def split: option.split)
  assume w: "fair L E H w"
  then show "rd w = Up" by (simp add: fair_links)
  show "fair L E H (snd (redis_INCR k w)) \<and> ids w \<subseteq> ids (snd (redis_INCR k w)) \<and>
    result_ok Err (\<lambda>_. {}) (ids (snd (redis_INCR k w))) (fst (redis_INCR k w))"
  proof (cases "redis_look w k")
    case None
    with fair_redis(3) [OF w] show ?thesis by simp
  next
    case (Some v)
    with w assms obtain n where "parse_int v = Some n" unfolding fair_def counters_ok_def by blast
    with Some fair_redis(3) [OF w] show ?thesis by (simp add: redis_INCR_def)
  qed
qed

text \<open>Mail and the audit trail.\<close>

lemma smtp_mail_queued [simp]: "smtp (mail_queued E m w) = smtp w"
  by (simp add: mail_queued_def emailQueue_add_def queue_add_def mailer_send_def transport_send_def run_simps
      run_over_link split: mail_mode.split link.split)

lemma knows_email: "knows L E H Err K (emailQueue_add E m) (\<lambda>_. {})"
proof (rule knowsI)
  fix w r w' assume run: "run (emailQueue_add E m) w = (r, w')"
  then have w': "w' = mail_queued E m w" by (simp add: mail_queued_def)
  then show "rng w \<le> rng w'" by simp
  assume w: "fair L E H w"
  then have "fair L E H w'"
    unfolding w' by (rule fair_upd) (use w in \<open>simp_all add: fair_links\<close>, simp add: fair_def mail_ok_def)
  with w run show "fair L E H w' \<and> ids w \<subseteq> ids w' \<and> result_ok Err (\<lambda>_. {}) (ids w') r"
    by (auto simp: run_simps fair_links w' ids_def)
qed

lemma after_audit_smtp: "smtp (after_audit L e w) = smtp w"
  by (simp add: after_audit_eq insert_audit_row_def split: link.split)

lemma knows_recordAudit: "knows L E H Err K (recordAudit L e) (\<lambda>_. {})"
proof (rule knowsI)
  fix w r w' assume run: "run (recordAudit L e) w = (r, w')"
  then have w': "w' = after_audit L e w" and r: "r = Inr ()" by (simp_all add: run_simps)
  then show "rng w \<le> rng w'" by (simp add: after_audit_rng)
  assume w: "fair L E H w"
  then have "fair L E H w'"
    unfolding w' by (rule fair_upd)
      (use w in \<open>simp_all add: fair_links after_audit_rng redis_look_def\<close>, simp add: fair_def mail_ok_def after_audit_smtp)
  then show "fair L E H w' \<and> ids w \<subseteq> ids w' \<and> result_ok Err (\<lambda>_. {}) (ids w') r"
    by (simp add: r w' ids_def)
qed

subsection \<open>Inserting rows\<close>

lemma knows_insert_user:
  assumes src: "source_ok L H" and wide: "\<And>w. user_fits (new_user L email ph name r v w) \<or> Err (DrizzleQueryError ''22001'')"
    and dup: "Err (DrizzleQueryError ''23505'')"
  shows "knows L E H Err K (insert_user L email ph name r v) (\<lambda>u. {u_id u})"
  unfolding insert_user_def
proof (rule knows_pg_call)
  fix w
  let ?u = "new_user L email ph name r v w" and ?w = "w\<lparr>rng := Suc (rng w)\<rparr>"
  let ?o = "insert_user_row ?u ?w"
  have rng: "rng (snd ?o) = Suc (rng w)" by (simp add: insert_user_row_def)
  then show "rng w \<le> rng (snd ?o)" by simp
  show "fair L E H w \<Longrightarrow> pg w = Up" by (simp add: fair_links)
  assume w: "fair L E H w" and "rng (snd ?o) \<le> H"
  with rng have H: "rng w < H" by simp
  have fw: "fair L E H ?w" by (rule fair_upd [OF w]) (use w in \<open>simp_all add: fair_links\<close>)
  show "fair L E H (snd ?o) \<and> ids w \<subseteq> ids (snd ?o) \<and>
    result_ok Err (\<lambda>u. {u_id u}) (ids (snd ?o)) (fst ?o)"
  proof (cases "\<not> user_fits ?u \<or> list_ex (\<lambda>v. u_id v = u_id ?u) (users w) \<or> (u_deletedAt ?u = None \<and> list_ex (active_email (u_email ?u)) (users w))")
    case True
    then have "\<exists>e. ?o = (Inl e, ?w) \<and> Err e" using wide [of w] dup by (auto simp: insert_user_row_def)
    with fw show ?thesis by auto
  next
    case False
    let ?n = "?w\<lparr>users := users w @ [?u]\<rparr>"
    have o: "?o = (Inr ?u, ?n)" using False by (auto simp: insert_user_row_def)
    have u: "u_id ?u = uuid L (rng w)" by (simp add: new_user_def)
    then have ids: "ids ?n = insert (uuid L (rng w)) (ids w)" by (simp add: ids_def)
    have new: "uuid L i \<noteq> uuid L (rng w)" if "rng ?n \<le> i" "i < H" for i
      using that source_new [OF src, of i "rng w"] H by simp
    have "unseen L H ?n"
      using w new unfolding unseen_def ids by (simp add: fair_def unseen_def)
    moreover have "\<forall>i \<in> ids ?n. plain_id i" using w src H by (simp add: ids fair_def source_ok_def)
    ultimately have "fair L E H ?n" using fw by (simp add: fair_def counters_ok_def)
    then show ?thesis unfolding o by (simp add: ids u subset_insertI)
  qed
qed

lemma knows_issueTokens:
  assumes src: "source_ok L H" and K: "userId \<in> K"
  shows "knows L E H Err K (issueTokens L E userId r f) (\<lambda>_. {})"
proof (rule knowsI)
  fix w res w' assume run: "run (issueTokens L E userId r f) w = (res, w')"
  show le: "rng w \<le> rng w'"
  proof -
    have "rng (snd (run (insert_token L i h e fam) v)) \<ge> rng v" for i h e fam v
      by (simp add: insert_token_def pg_call_def run_over_link insert_token_row_def split: link.split)
    from this [of "w\<lparr>rng := Suc (rng w)\<rparr>"] run show ?thesis
      by (auto simp: issueTokens_def run_simps storeRefreshToken_def split: prod.splits sum.splits)
        (metis Suc_leD snd_conv)+
  qed
  assume w: "fair L E H w" "K \<subseteq> ids w" and H: "rng w' \<le> H"
  show "fair L E H w' \<and> ids w \<subseteq> ids w' \<and> result_ok Err (\<lambda>_. {}) (ids w') res"
  proof -
    have up: "pg w = Up" using w(1) by (simp add: fair_links)
    have "rng (snd (run (issueTokens L E userId r f) w)) = rng w + 2"
      using up by (auto simp: issueTokens_def run_simps storeRefreshToken_def insert_token_row_def)
    with run have rng: "rng w' = rng w + 2" by simp
    with H have H2: "rng w < H" "Suc (rng w) < H" by simp_all
    have un: "uuid L i \<notin> rt_id ` set (refreshTokens w) \<and> sha256Hex L (minted L i) \<notin> rt_token ` set (refreshTokens w)"
      if "rng w \<le> i" "i < H" for i
      using w(1) that by (simp add: fair_def unseen_def)
    have m: "mintable L userId w"
      using K w(2) src H2 un [of "rng w"] un [of "Suc (rng w)"] by (auto simp: mintable_def ids_def source_ok_def)
    let ?n = "minted_row L E userId f w"
    let ?w = "w\<lparr>refreshTokens := refreshTokens w @ [?n], rng := rng w + 2\<rparr>"
    have w': "w' = ?w" and ok: "\<exists>t. res = Inr t" using run by (auto simp: run_issueTokens [OF up m])
    have new: "uuid L i \<noteq> uuid L (Suc (rng w)) \<and> sha256Hex L (minted L i) \<noteq> sha256Hex L (minted L (rng w))"
      if "rng w + 2 \<le> i" "i < H" for i
      using that source_new [OF src, of i "Suc (rng w)"] source_new [OF src, of i "rng w"] H2 by simp
    have "unseen L H ?w"
      using w(1) new unfolding fair_def unseen_def by (simp add: minted_row_def ids_def)
    then have "fair L E H ?w" using w(1) by (simp add: fair_def counters_ok_def)
    with ok show ?thesis by (auto simp: w' ids_def)
  qed
qed

text \<open>What follows a draw sees only values the source can give.\<close>

lemma knows_draw_bnd:
  assumes "\<And>i. knows L E H Err K (k (f i)) R"
  shows "knows L E H Err K (bnd (draw f) k) R"
proof (rule knowsI)
  fix w r w' assume run: "run (bnd (draw f) k) w = (r, w')"
  let ?w = "w\<lparr>rng := Suc (rng w)\<rparr>"
  have 2: "run (k (f (rng w))) ?w = (r, w')" using run by (simp add: run_simps)
  from knows_rng [OF assms this] show "rng w \<le> rng w'" by simp
  assume w: "fair L E H w" "K \<subseteq> ids w" "rng w' \<le> H"
  have "fair L E H ?w" by (rule fair_upd [OF w(1)]) (use w in \<open>simp_all add: fair_links\<close>)
  from knowsD [OF assms 2 this] w show "fair L E H w' \<and> ids w \<subseteq> ids w' \<and> result_ok Err R (ids w') r" by simp
qed

subsection \<open>The services\<close>

lemma knows_resolveUser: "knows L E H Err K (resolveUser L E b) (\<lambda>_. {})"
  by (rule knowsI) (auto simp: run_simps)

lemmas knows_calls = knows_Ret0 knows_Ret knows_Throw knows_bnd knows_sequ knows_text knows_now knows_reads knows_tokens
  knows_delete_audit knows_update_users knows_draw knows_getDummyHash knows_cache_set knows_cache_del
  knows_cache_incr knows_email knows_recordAudit knows_resolveUser

lemma knows_weaken: "knows L E H Err K p R \<Longrightarrow> (\<And>x. R' x \<subseteq> K) \<Longrightarrow> knows L E H Err K p R'"
  by (rule knows_mono) auto

lemma client_errors [simp]:
  "client_error email_taken" "client_error invalid_credentials" "client_error invalid_token" "client_error token_reuse"
  "client_error token_expired" "client_error unauthorized" "client_error (mfa_error m)" "client_error mfa_invalid"
  "client_error mfa_too_many" "client_error (bad_request m)" "client_error reset_invalid" "client_error too_many_attempts"
  "client_error otp_cooldown_error" "client_error user_not_found"
  "client_error (App (BadRequestError x))" "client_error (App (UnauthorizedError x))" "client_error (App (ForbiddenError x))"
  by (simp_all add: client_error_def client_statuses_def email_taken_def invalid_credentials_def invalid_token_def
      token_reuse_def token_expired_def unauthorized_def mfa_error_def mfa_invalid_def mfa_too_many_def bad_request_def
      reset_invalid_def too_many_attempts_def otp_cooldown_error_def user_not_found_def app_error_defs)

lemma knows_auth_service:
  "knows L E H client_error K (useRefreshToken L token) (\<lambda>_. {})"
  "knows L E H client_error K (revokeRefreshToken L token) (\<lambda>_. {})"
  "knows L E H client_error K (revokeAllRefreshTokens i) (\<lambda>_. {})"
  "knows L E H client_error K (deleteExpiredRefreshTokens) (\<lambda>_. {})"
  "knows L E H client_error K (findById i) row_id" "knows L E H client_error K (findByEmail e) row_id"
  "knows L E H client_error K (updatePassword L i p) (\<lambda>_. {})"
  "knows L E H client_error K (markEmailVerified i) (\<lambda>_. {})"
  "knows L E H client_error K (verifyCredentials L e p) (\<lambda>u. {u_id u})"
  unfolding useRefreshToken_def Let_def revokeRefreshToken_def revokeAllRefreshTokens_def deleteExpiredRefreshTokens_def
    findById_def findByEmail_def updatePassword_def markEmailVerified_def verifyCredentials_def password_hash_def
  by (rule knows_calls | simp)+

text \<open>The rows an account can be stored in.\<close>

definition fits_row :: "lib \<Rightarrow> string \<Rightarrow> string \<Rightarrow> string option \<Rightarrow> bool" where
  "fits_row L email password name \<longleftrightarrow> length email \<le> 255 \<and>
     (case name of None \<Rightarrow> True | Some n \<Rightarrow> length n \<le> 255) \<and> (\<forall>salt. length (argon2_hash L salt password) \<le> 255)"

lemma knows_createUser:
  assumes "source_ok L H" "fits_row L email password name"
  shows "knows L E H client_error K (createUser L email password name) (\<lambda>u. {u_id u})"
proof -
  have ins: "knows L E H (\<lambda>e. isUniqueViolation (exn_value e)) K'
      (insert_user L email (argon2_hash L salt password) name User None) (\<lambda>u. {u_id u})" for K' salt
    by (rule knows_insert_user [OF assms(1)]) (use assms(2) in \<open>simp_all add: user_fits_def new_user_def fits_row_def\<close>)
  show ?thesis
    unfolding createUser_def password_hash_def
    by (rule knows_draw_bnd knows_calls knows_try [OF ins] | simp | simp split: if_splits)+
qed

lemma counter_keys [simp]:
  "counter_key (otp_attemptsKey i)" "counter_key (pwreset_attemptsKey i)" "counter_key (mfa_attemptsKey i)"
  by (simp_all add: counter_key_def otp_attemptsKey_def pwreset_attemptsKey_def mfa_attemptsKey_def
      starts_with_append [of "''otp:verify:attempts:''", simplified]
      starts_with_append [of "''pwreset:attempts:''", simplified]
      starts_with_append [of "''mfa:login:attempts:''", simplified])

lemma plain_take: "plain_id i \<Longrightarrow> CHR '':'' \<in> set s \<Longrightarrow> take n i \<noteq> s"
  unfolding plain_id_def using in_set_takeD by force

lemma other_keys [simp]:
  "\<not> counter_key (otp_cooldownKey i)" "\<not> counter_key (pwreset_cooldownKey i)" "\<not> counter_key (lastCounterKey i)"
  "plain_id i \<Longrightarrow> \<not> counter_key (otp_codeKey i)" "plain_id i \<Longrightarrow> \<not> counter_key (pwreset_codeKey i)"
  "plain_id i \<Longrightarrow> \<not> counter_key (challengeKey i)"
  by (simp_all add: counter_key_def otp_cooldownKey_def pwreset_cooldownKey_def lastCounterKey_def otp_codeKey_def
      pwreset_codeKey_def challengeKey_def starts_with_def plain_take)

text \<open>The ids that are known belong to users, and have no colon.\<close>

lemma knows_set_code:
  assumes "i \<in> K" "0 < n" "plain_id i \<Longrightarrow> \<not> counter_key k"
  shows "knows L E H Err K (cache_set k v (Some n)) (\<lambda>_. {})"
  unfolding cache_set_def
proof (rule knows_bounded)
  fix w
  let ?f = "\<lambda>w. case Some n of None \<Rightarrow> (Inr (), redis_put k v None w)
     | Some n \<Rightarrow> if n = 0 then (Inr (), redis_put k v None w)
         else if n < 0 then (Inl (Thrown (js_Error ''ERR invalid expire time'')), w) else (Inr (), redis_put k v (Some n) w)"
  show "fair L E H w \<Longrightarrow> rd w = Up" by (simp add: fair_links)
  show "rng w \<le> rng (snd (?f w))" by simp
  assume w: "fair L E H w" "K \<subseteq> ids w"
  with assms(1) have "plain_id i" by (auto simp: fair_def)
  with assms(2,3) have "fair L E H (redis_put k v (Some n) w)" by (intro fair_redis(1) w(1)) simp_all
  with assms(2) show "fair L E H (snd (?f w)) \<and> ids w \<subseteq> ids (snd (?f w)) \<and> result_ok Err (\<lambda>_. {}) (ids (snd (?f w))) (fst (?f w))"
    by simp
qed

lemmas knows_codes = knows_set_code [where k = "otp_codeKey i" and i = i for i] knows_set_code [where k = "pwreset_codeKey i" and i = i for i]

lemma knows_challenge:
  assumes src: "source_ok L H"
  shows "knows L E H Err K (createLoginChallenge L i) (\<lambda>_. {})"
proof (rule knowsI)
  fix w r w' assume run: "run (createLoginChallenge L i) w = (r, w')"
  then show le: "rng w \<le> rng w'"
    by (auto simp: createLoginChallenge_def Let_def run_simps cache_defs run_over_link totp_consts
        split: link.splits prod.splits sum.splits)
  assume w: "fair L E H w" and H: "rng w' \<le> H"
  let ?t = "minted L (rng w)" and ?w = "w\<lparr>rng := Suc (rng w)\<rparr>"
  have w': "w' = challenge_stored L i ?t w" and r: "r = Inr ?t"
    using run w by (auto simp: run_simps fair_links minted_def)
  with H have "rng w < H" by (simp add: challenge_stored_def)
  with src have plain: "plain_id (sha256Hex L ?t)" by (simp add: source_ok_def)
  have "fair L E H ?w" by (rule fair_upd [OF w]) (use w in \<open>simp_all add: fair_links\<close>)
  then have "fair L E H w'"
    unfolding w' challenge_stored_def by (intro fair_redis(1)) (simp_all add: plain totp_consts)
  then show "fair L E H w' \<and> ids w \<subseteq> ids w' \<and> result_ok Err (\<lambda>_. {}) (ids w') r"
    by (simp add: r w' challenge_stored_def)
qed

lemma parse_zero [simp]: "parse_int ''0'' = Some 0" by code_simp

lemmas code_consts = OTP_TTL_SECONDS_def OTP_COOLDOWN_SECONDS_def PWRESET_TTL_SECONDS_def PWRESET_COOLDOWN_SECONDS_def

lemma knows_otp_issue:
  "i \<in> K \<Longrightarrow> knows L E H client_error K (otp_issue L E i email) (\<lambda>_. {})"
  unfolding otp_issue_def generateCode_def
  by (rule knows_codes knows_calls | simp add: code_consts)+

lemma knows_otp_verify: "knows L E H client_error K (otp_verify L i c) (\<lambda>_. {})"
  unfolding otp_verify_def by (rule knows_calls | simp)+

lemma knows_pwreset:
  "knows L E H client_error K (pwreset_request L E email) (\<lambda>_. {})"
  "knows L E H client_error K (pwreset_reset L email c p) (\<lambda>_. {})"
  unfolding pwreset_request_def pwreset_reset_def generateCode_def
  by (rule knows_codes knows_auth_service knows_calls | simp add: code_consts)+

lemma knows_totp:
  "knows L E H client_error K (validateCode L E s c) (\<lambda>_. {})"
  "knows L E H client_error K (consumeLoginChallenge L E tok c) (\<lambda>u. {u_id u})"
  "knows L E H client_error K (setup_totp L E i) (\<lambda>_. {})"
  "knows L E H client_error K (enable_totp L E i c) (\<lambda>_. {})"
  "knows L E H client_error K (disable_totp L E i c) (\<lambda>_. {})"
proof -
  show v: "knows L E H client_error K (validateCode L E s c) (\<lambda>_. {})" for K s c
    unfolding validateCode_def by (rule knows_calls | simp)+
  show "knows L E H client_error K (consumeLoginChallenge L E tok c) (\<lambda>u. {u_id u})"
    "knows L E H client_error K (setup_totp L E i) (\<lambda>_. {})"
    "knows L E H client_error K (enable_totp L E i c) (\<lambda>_. {})"
    "knows L E H client_error K (disable_totp L E i c) (\<lambda>_. {})"
    unfolding consumeLoginChallenge_def setup_totp_def enable_totp_def disable_totp_def findActiveUser_def Let_def
    by (rule v knows_calls | simp add: totp_consts)+
qed

subsection \<open>The routes\<close>

lemma knows_forget: "knows L E H Err K p R \<Longrightarrow> knows L E H Err K (forget p) (\<lambda>_. {})"
  unfolding forget_def by (rule knows_bnd) (auto intro: knows_Ret)

lemma knows_guards:
  "knows L E H client_error K (isAuthed L E m b) (\<lambda>_. {})" "knows L E H client_error K (can L E a own b ps) (\<lambda>_. {})"
  unfolding isAuthed_def can_def passesVerificationGate_def isEmailVerified_def
  by (rule knows_calls | simp)+

lemma knows_guarded:
  assumes "knows L E H client_error K g (\<lambda>_. {})" "\<And>c. knows L E H client_error K (h c) (\<lambda>_. {})"
  shows "knows L E H client_error K (guarded g h) (\<lambda>_. {})"
proof -
  have h: "knows L E H client_error (K \<union> X) (h c) (\<lambda>_. {})" for X c by (rule knows_mono [OF assms(2)]) auto
  show ?thesis unfolding guarded_def by (rule assms(1) h knows_calls)+
qed

lemma knows_origin: "knows L E H client_error K (requireTrustedOrigin E req) (\<lambda>_. {})"
  by (rule knowsI) (auto simp: requireTrustedOrigin_def assertTrustedOrigin_def split: sum.splits if_splits option.splits)

lemma knows_log_in:
  "source_ok L H \<Longrightarrow> u_id u \<in> K \<Longrightarrow> knows L E H client_error K (log_in L E u f) (\<lambda>_. {})"
  unfolding log_in_def by (rule knows_issueTokens knows_calls | simp)+

lemmas knows_parts = knows_log_in knows_challenge knows_otp_issue knows_otp_verify knows_pwreset knows_totp
  knows_guarded knows_guards knows_origin knows_auth_service knows_calls

lemma knows_list:
  assumes "(whole (default_arg 20 l) \<and> whole (default_arg 0 k)) \<or> (\<forall>e. Err e)" "\<And>e. client_error e \<Longrightarrow> Err e"
  shows "knows L E H Err K (get_users L E b l k) (\<lambda>_. {})"
proof -
  have guard: "knows L E H Err K' (can L E a own b ps) (\<lambda>_. {})" for K' a own ps
    by (rule knows_mono [OF knows_guards(2)]) (use assms(2) in auto)
  show ?thesis
    unfolding get_users_def user_list_def guarded_def
    by (rule guard knows_page [OF assms(1)] knows_calls | simp)+
qed

lemma knows_user_routes:
  "knows L E H client_error K (get_user L E b i) (\<lambda>_. {})"
  "knows L E H client_error K (patch_user L E b req i d) (\<lambda>_. {})"
  "knows L E H client_error K (delete_user L E b req i) (\<lambda>_. {})"
  unfolding get_user_def patch_user_def delete_user_def user_getById_def user_update_def user_remove_def
  by (rule knows_parts | simp add: set_fields_def)+

lemma knows_auth_routes:
  assumes "source_ok L H"
  shows "knows L E H client_error K (login L E e p) (\<lambda>_. {})" "knows L E H client_error K (twofa_verify L E tok c) (\<lambda>_. {})"
    "knows L E H client_error K (request_reset L E e) (\<lambda>_. {})" "knows L E H client_error K (reset_password L e c p) (\<lambda>_. {})"
    "knows L E H client_error K (refresh L E req ck bd) (\<lambda>_. {})" "knows L E H client_error K (me L E b) (\<lambda>_. {})"
    "knows L E H client_error K (logout L E req b ck bd) (\<lambda>_. {})" "knows L E H client_error K (request_otp L E b) (\<lambda>_. {})"
    "knows L E H client_error K (verify_email L E b c) (\<lambda>_. {})" "knows L E H client_error K (twofa_setup L E b) (\<lambda>_. {})"
    "knows L E H client_error K (twofa_enable L E b c) (\<lambda>_. {})" "knows L E H client_error K (twofa_disable L E b c) (\<lambda>_. {})"
  unfolding login_def twofa_verify_def request_reset_def reset_password_def refresh_def me_def logout_def request_otp_def
    verify_email_def twofa_setup_def twofa_enable_def twofa_disable_def randomUUID_def
  by (rule knows_parts | simp add: assms)+

lemma knows_register:
  assumes "source_ok L H" "fits_row L email password name"
  shows "knows L E H client_error K (register L E req email password name) (\<lambda>_. {})"
proof -
  have issue: "knows L E H client_error K' (try_catch (otp_issue L E i em) (\<lambda>err. Ret ())) (\<lambda>_. {})" if "i \<in> K'" for i em K'
    by (rule knows_try [OF knows_otp_issue [OF that]]) (auto intro: knows_Ret0)
  show ?thesis
    unfolding register_def randomUUID_def
    by (rule knows_createUser [OF assms] issue knows_parts | simp add: assms)+
qed

lemma knows_jobs:
  "knows L E H client_error K token_cleanup (\<lambda>_. {})" "knows L E H client_error K (audit_retention E) (\<lambda>_. {})"
  "knows L E H client_error K ready_endpoint (\<lambda>_. {})"
proof -
  show "knows L E H client_error K ready_endpoint (\<lambda>_. {})"
    by (rule knowsI) (auto simp: ready_endpoint_def run_simps Let_def)
  show "knows L E H client_error K token_cleanup (\<lambda>_. {})" "knows L E H client_error K (audit_retention E) (\<lambda>_. {})"
    unfolding token_cleanup_def audit_retention_def deleteOldAuditLogs_def Let_def by (rule knows_parts)+
qed

subsection \<open>A day of requests\<close>

text \<open>
  The requests whose values Postgres can take: a registration that fits its columns, a page with whole
  numbers. The seed, a command of its own with an exit code, is no request.
\<close>

fun fits_call :: "lib \<Rightarrow> api_call \<Rightarrow> bool" where
  "fits_call L (Register req email password name) = fits_row L email password name"
| "fits_call L (ListUsers b l k) = (whole (default_arg 20 l) \<and> whole (default_arg 0 k))"
| "fits_call L SeedAdmin = False"
| "fits_call L c = True"

lemma knows_serve_fits:
  assumes "source_ok L H" "fits_call L c"
  shows "knows L E H client_error K (serve L E c) (\<lambda>_. {})"
  using assms
  by (cases c) (auto intro!: knows_forget intro: knows_register knows_list knows_auth_routes knows_user_routes knows_jobs)

text \<open>A request that does not fit fails, and leaves a fair state nevertheless.\<close>

lemma knows_any_insert:
  "source_ok L H \<Longrightarrow> knows L E H (\<lambda>_. True) K (insert_user L email ph name r v) (\<lambda>u. {u_id u})"
  by (rule knows_insert_user) simp_all

lemma knows_any: "knows L E H Err K p R \<Longrightarrow> knows L E H (\<lambda>_. True) K p R"
  by (rule knows_mono) auto

lemma knows_any_seed:
  assumes "source_ok L H"
  shows "knows L E H (\<lambda>_. True) K (seed L E) (\<lambda>_. {})"
  unfolding seed_def password_hash_def
  by (rule knows_draw_bnd knows_calls knows_any_insert [OF assms] | simp)+

lemma knows_any_register:
  assumes "source_ok L H"
  shows "knows L E H (\<lambda>_. True) K (register L E req email password name) (\<lambda>_. {})"
proof -
  have create: "knows L E H (\<lambda>_. True) K' (createUser L email password name) (\<lambda>u. {u_id u})" for K'
    unfolding createUser_def password_hash_def
    by (rule knows_draw_bnd knows_calls knows_try [OF knows_any_insert [OF assms]] | simp | simp split: if_splits)+
  have issue: "knows L E H (\<lambda>_. True) K' (try_catch (otp_issue L E i em) (\<lambda>err. Ret ())) (\<lambda>_. {})" if "i \<in> K'" for i em K'
    by (rule knows_try [OF knows_otp_issue [OF that]]) (auto intro: knows_Ret0)
  have log: "knows L E H (\<lambda>_. True) K' (log_in L E u f) (\<lambda>_. {})" if "u_id u \<in> K'" for u f K'
    by (rule knows_any [OF knows_log_in [OF assms that]])
  show ?thesis
    unfolding register_def randomUUID_def
    by (rule create issue log knows_calls | simp)+
qed

lemma knows_serve:
  assumes "source_ok L H"
  shows "knows L E H (\<lambda>e. fits_call L c \<longrightarrow> client_error e) K (serve L E c) (\<lambda>_. {})"
proof (cases "fits_call L c")
  case True
  with knows_serve_fits [OF assms True] show ?thesis by simp
next
  case False
  then have "knows L E H (\<lambda>_. True) K (serve L E c) (\<lambda>_. {})"
    by (cases c) (auto intro!: knows_forget knows_any_register [OF assms] knows_any_seed [OF assms] knows_list)
  with False show ?thesis by simp
qed

text \<open>Requests one after the other, each after a delay in milliseconds.\<close>

fun serve_all :: "lib \<Rightarrow> env \<Rightarrow> (int \<times> api_call) list \<Rightarrow> world \<Rightarrow> (exn + unit) list \<times> world" where
  "serve_all L E [] w = ([], w)"
| "serve_all L E ((d, c) # rest) w =
     (case run (serve L E c) (advance d w) of (r, w1) \<Rightarrow>
      case serve_all L E rest w1 of (rs, w2) \<Rightarrow> (r # rs, w2))"

lemma fair_advance: "fair L E H w \<Longrightarrow> 0 \<le> d \<Longrightarrow> fair L E H (advance d w)"
  by (rule fair_upd, assumption)
    (auto simp: fair_links dest: redis_kv.look_elapse, simp add: fair_def mail_ok_def)

text \<open>The outcomes of a sequence of requests, each with its request.\<close>

definition answers_ok :: "lib \<Rightarrow> (int \<times> api_call) list \<Rightarrow> (exn + unit) list \<Rightarrow> bool" where
  "answers_ok L calls rs \<longleftrightarrow> list_all2 (\<lambda>(d, c) r. \<forall>e. fits_call L c \<longrightarrow> r = Inl e \<longrightarrow> client_error e) calls rs"

lemma serve_all_fair:
  assumes "source_ok L H" "\<forall>(d, c) \<in> set calls. 0 \<le> d"
  shows "fst (serve_all L E calls w) = rs \<Longrightarrow> snd (serve_all L E calls w) = w' \<Longrightarrow> rng w \<le> rng w' \<and>
    (fair L E H w \<and> rng w' \<le> H \<longrightarrow> fair L E H w' \<and> answers_ok L calls rs)"
  using assms(2)
proof (induction calls arbitrary: w rs)
  case (Cons dc calls)
  obtain d c where dc: "dc = (d, c)" by (cases dc)
  obtain r w1 where run: "run (serve L E c) (advance d w) = (r, w1)" by fastforce
  obtain rs' w2 where rest: "serve_all L E calls w1 = (rs', w2)" by fastforce
  have res: "rs = r # rs'" "w' = w2" using Cons.prems dc run rest by simp_all
  have k: "knows L E H (\<lambda>e. fits_call L c \<longrightarrow> client_error e) {} (serve L E c) (\<lambda>_. {})"
    by (rule knows_serve [OF assms(1)])
  have 1: "rng w \<le> rng w1" using knows_rng [OF k run] by simp
  have 2: "rng w1 \<le> rng w' \<and> (fair L E H w1 \<and> rng w' \<le> H \<longrightarrow> fair L E H w' \<and> answers_ok L calls rs')"
    using Cons.IH [of w1 rs'] Cons.prems(3) rest res(2) by simp
  moreover have "fair L E H w1 \<and> (\<forall>e. r = Inl e \<longrightarrow> fits_call L c \<longrightarrow> client_error e)" if "fair L E H w" "rng w' \<le> H"
  proof -
    have "fair L E H (advance d w)" using that(1) Cons.prems(3) dc by (simp add: fair_advance)
    moreover have "rng w1 \<le> H" using 2 that(2) by simp
    ultimately show ?thesis using knowsD [OF k run] by auto
  qed
  ultimately show ?case using 1 by (auto simp: res dc answers_ok_def)
qed (auto simp: answers_ok_def)

subsection \<open>Properties\<close>


definition demo_day :: "(int \<times> api_call) list" where
  "demo_day = [(5, Refresh demo_request None (Some ''old'')), (20, Login ''bob@example.com'' ''password'')]"

lemma demo_source: "source_ok demo_lib 8"
proof -
  have "distinct (map (\<lambda>i. sha256Hex demo_lib (minted demo_lib i)) [0..<8]) \<and>
      distinct (map (uuid demo_lib) [0..<8]) \<and>
      (\<forall>i \<in> set [0..<8]. length (sha256Hex demo_lib (minted demo_lib i)) \<le> 512 \<and> plain_id (uuid demo_lib i) \<and>
        plain_id (sha256Hex demo_lib (minted demo_lib i)))"
    by code_simp
  then show ?thesis by (simp only: source_ok_def distinct_map atLeast0LessThan set_upt) (auto simp: lessThan_def)
qed

lemma demo_fair: "fair demo_lib demo_env H demo_world"
proof -
  have "uuid demo_lib i \<noteq> ''alice''" "uuid demo_lib i \<noteq> ''id-new''" "uuid demo_lib i \<noteq> ''id-old''" for i by simp_all
  moreover have "sha256Hex demo_lib (minted demo_lib i) \<notin> {''hnew'', ''hold''}" for i
    using demo_minted_new [of i] by simp
  ultimately show ?thesis
    by (simp add: fair_def mail_ok_def counters_ok_def redis_look_def ids_def unseen_def plain_id_def driver_def isTest_def)
qed

lemma demo_day_runs:
  "\<exists>rs w'. serve_all demo_lib demo_env demo_day demo_world = (rs, w') \<and> length rs = 2 \<and> rng w' = 2 \<and> Inl token_reuse \<in> set rs"
proof -
  let ?w = "advance 5 demo_world"
  let ?b = "after_audit demo_lib (reuse_entry (demo_token ''old'' (Some 10))) (burn_family ''family'' ?w)"
  have ok: "pg ?w = Up" "tokens_unique (refreshTokens ?w)" using demo_db_ok by (simp_all add: db_ok_def)
  have "run (useRefreshToken demo_lib ''old'') ?w = (Inl token_reuse, ?b)"
    using run_useRefreshToken [OF ok, of demo_lib "''old''"] by simp
  then have 1: "run (serve demo_lib demo_env (Refresh demo_request None (Some ''old''))) ?w = (Inl token_reuse, ?b)"
    by (simp add: forget_def run_simps run_refresh_stopped [where token = "''old''"] origin_ok_def presented_def)
  have b: "users ?b = [demo_user]" "pg ?b = Up" "rng ?b = 1" "dummyHash ?b = None"
    by (simp_all add: after_audit_eq burn_family_def insert_audit_row_def, simp_all add: demo_world_def empty_world_def advance_def)
  have "\<exists>e v. run (serve demo_lib demo_env (Login ''bob@example.com'' ''password'')) (advance 20 ?b) = (Inl e, v) \<and> rng v = 2"
    using b by (simp add: forget_def login_def verifyCredentials_def getDummyHash_def run_simps Let_def advance_def)
  with 1 show ?thesis by (auto simp: demo_day_def)
qed


end
