(* ===== verification/Liveness.thy ===== *)
theory Liveness
  imports Weather
begin

text \<open>
  A client that keeps refreshing stays logged in. The client presents the refresh token of the last
  reply, in the body or the cookie as the transport asks, each time after a delay.
\<close>

definition in_cookie :: "env \<Rightarrow> string \<Rightarrow> string option" where
  "in_cookie E token = (if AUTH_TRANSPORT E = CookieTransport then Some token else None)"

definition in_body :: "env \<Rightarrow> string \<Rightarrow> string option" where
  "in_body E token = (if AUTH_TRANSPORT E = CookieTransport then None else Some token)"

definition next_token :: "session \<Rightarrow> string" where
  "next_token s = (case tk_cookie (ss_tokens s) of Some c \<Rightarrow> sc_value c
     | None \<Rightarrow> (case tk_refresh (ss_tokens s) of Some r \<Rightarrow> r | None \<Rightarrow> []))"

text \<open>The client stops at the first refusal.\<close>

fun keep_refreshing :: "lib \<Rightarrow> env \<Rightarrow> request \<Rightarrow> int list \<Rightarrow> string \<Rightarrow> world \<Rightarrow> (exn + session) list" where
  "keep_refreshing L E req [] token w = []"
| "keep_refreshing L E req (d # ds) token w =
     (case run (refresh L E req (in_cookie E token) (in_body E token)) (advance d w) of (r, w1) \<Rightarrow>
        r # (case r of Inl e \<Rightarrow> [] | Inr s \<Rightarrow> keep_refreshing L E req ds (next_token s) w1))"

lemma presented_token [simp]: "presented E (in_cookie E token) (in_body E token) = Some token"
  by (simp add: presented_def in_cookie_def in_body_def)

lemma next_token_reply [simp]: "next_token \<lparr>ss_tokens = tokens_reply L E i r tok t, ss_user = p\<rparr> = tok"
  by (simp add: next_token_def tokens_reply_def Let_def refresh_cookie_def)

text \<open>The session of the account \<open>u\<close> can be continued with \<open>token\<close> until \<open>e\<close>.\<close>

definition alive :: "lib \<Rightarrow> nat \<Rightarrow> user \<Rightarrow> string \<Rightarrow> int \<Rightarrow> world \<Rightarrow> bool" where
  "alive L H u token e w \<longleftrightarrow> pg w = Up \<and> db_ok w \<and> unseen L H w \<and> token \<noteq> [] \<and>
     find (\<lambda>v. u_id v = u_id u \<and> notDeleted v) (users w) = Some u \<and>
     (\<exists>row. find (\<lambda>r. rt_token r = sha256Hex L token) (refreshTokens w) = Some row \<and> rt_usedAt row = None \<and>
        rt_userId row = u_id u \<and> e \<le> rt_expiresAt row)"

lemma alive_refresh:
  assumes "source_ok L H" "rand_bytes_ok L" "origin_ok E req" "alive L H u token e w" "clock w < e" "Suc (rng w) < H"
  defines "r \<equiv> run (refresh L E req (in_cookie E token) (in_body E token)) w"
  shows "fst r = Inr \<lparr>ss_tokens = tokens_reply L E (u_id u) (u_role u) (minted L (rng w)) (clock w), ss_user = toPublicUser u\<rparr> \<and>
    alive L H u (minted L (rng w)) (clock w + REFRESH_MS E) (snd r) \<and> clock (snd r) = clock w \<and> rng (snd r) = rng w + 2"
proof -
  let ?h = "sha256Hex L token" and ?m = "minted L (rng w)"
  from assms(4) obtain row where row: "pg w = Up" "db_ok w" "unseen L H w" "token \<noteq> []"
    "find (\<lambda>v. u_id v = u_id u \<and> notDeleted v) (users w) = Some u"
    "find (\<lambda>r. rt_token r = ?h) (refreshTokens w) = Some row" "rt_usedAt row = None" "rt_userId row = u_id u"
    "e \<le> rt_expiresAt row" unfolding alive_def by blast
  have new: "uuid L i \<notin> rt_id ` set (refreshTokens w) \<and> sha256Hex L (minted L i) \<notin> rt_token ` set (refreshTokens w)"
    if "rng w \<le> i" "i < H" for i using row(3) that by (simp add: unseen_def)
  have m: "mintable L (u_id u) w"
    using assms(1,6) new [of "rng w"] new [of "Suc (rng w)"] find_Some_set [OF row(5)]
    by (auto simp: mintable_def source_ok_def)
  have r: "r = (Inr \<lparr>ss_tokens = tokens_reply L E (u_id u) (u_role u) ?m (clock w), ss_user = toPublicUser u\<rparr>,
     w\<lparr>refreshTokens := map (\<lambda>r. if rt_token r = ?h then r\<lparr>rt_usedAt := Some (clock w)\<rparr> else r) (refreshTokens w) @
          [minted_row L E (u_id u) (rt_familyId row) w], rng := rng w + 2\<rparr>)"
    unfolding r_def
    by (rule run_refresh_ok [OF row(1,2) assms(3) presented_token row(4,6,7) _ _ m]) (use row assms(5) in simp_all)
  let ?n = "minted_row L E (u_id u) (rt_familyId row) w"
  have ok: "db_ok (snd r)" unfolding r_def by (rule run_all_steps_inv [OF keeps_db_auth_routes(6) row(2)])
  have "?n \<in> set (refreshTokens (snd r))" by (simp add: r)
  moreover have "tokens_unique (refreshTokens (snd r))" using ok by (simp add: db_ok_def)
  ultimately have "find (\<lambda>s. rt_token s = rt_token ?n) (refreshTokens (snd r)) = Some ?n" by (rule find_token [rotated])
  then have found: "find (\<lambda>r. rt_token r = sha256Hex L ?m) (refreshTokens (snd r)) = Some ?n"
    by (simp add: minted_row_def)
  let ?f = "\<lambda>r. if rt_token r = ?h then r\<lparr>rt_usedAt := Some (clock w)\<rparr> else r"
  have "map rt_id (map ?f rs) = map rt_id rs" "map rt_token (map ?f rs) = map rt_token rs" for rs :: "refresh_token list" by simp_all
  then have same: "rt_id ` set (map ?f rs) = rt_id ` set rs" "rt_token ` set (map ?f rs) = rt_token ` set rs" for rs :: "refresh_token list"
    by (metis list.set_map)+
  have "unseen L H (snd r)"
    unfolding unseen_def
  proof (intro allI impI)
    fix i assume i: "rng (snd r) \<le> i \<and> i < H"
    then have "uuid L i \<noteq> uuid L (Suc (rng w)) \<and> sha256Hex L (minted L i) \<noteq> sha256Hex L ?m"
      using source_new [OF assms(1), of i "Suc (rng w)"] source_new [OF assms(1), of i "rng w"] assms(6) by (simp add: r)
    moreover have "rt_id ` set (refreshTokens (snd r)) = insert (uuid L (Suc (rng w))) (rt_id ` set (refreshTokens w))"
      "rt_token ` set (refreshTokens (snd r)) = insert (sha256Hex L ?m) (rt_token ` set (refreshTokens w))"
      using same by (simp_all add: r minted_row_def)
    moreover have "ids (snd r) = ids w" by (simp add: r ids_def)
    ultimately show "uuid L i \<notin> ids (snd r) \<and> uuid L i \<notin> rt_id ` set (refreshTokens (snd r)) \<and>
        sha256Hex L (minted L i) \<notin> rt_token ` set (refreshTokens (snd r))"
      using row(3) i unfolding unseen_def by (simp add: r)
  qed
  moreover have "?m \<noteq> []" using randomToken_length [OF assms(2)] by (auto simp: minted_def dest: arg_cong [where f = length])
  ultimately have "alive L H u ?m (clock w + REFRESH_MS E) (snd r)"
    using ok found row(1,5) unfolding alive_def by (simp add: r) (simp add: minted_row_def)
  then show ?thesis by (simp add: r)
qed

lemma alive_advance: "alive L H u token e w \<Longrightarrow> alive L H u token e (advance d w)"
  using db_ok_cong [of w "advance d w"] by (simp add: alive_def unseen_def ids_def)

subsection \<open>Properties\<close>

text \<open>C10. A session lives as long as its client refreshes in time: starting from a live token of an
  active account, with the database answering, a client that presents the token of the last reply after
  delays shorter than the configured lifetime is given a new session every time, however often, in both
  transports; none of its presentations is taken for a replay.\<close>

theorem session_stays_alive:
  assumes "source_ok L H" "rand_bytes_ok L" "origin_ok E req" "alive L H u token e w"
    "\<forall>d \<in> set ds. 0 \<le> d \<and> d < REFRESH_MS E" "ds = [] \<or> clock w + hd ds < e" "rng w + 2 * length ds \<le> H"
  shows "length (keep_refreshing L E req ds token w) = length ds \<and>
    (\<forall>r \<in> set (keep_refreshing L E req ds token w). \<exists>s. r = Inr s \<and> ss_user s = toPublicUser u)"
  using assms(4-7)
proof (induction ds arbitrary: token e w)
  case (Cons d ds)
  let ?w = "advance d w"
  have "alive L H u token e ?w" "clock ?w < e" "Suc (rng ?w) < H" using Cons.prems by (simp_all add: alive_advance)
  from alive_refresh [OF assms(1-3) this] obtain s w1 where
    r: "run (refresh L E req (in_cookie E token) (in_body E token)) ?w = (Inr s, w1)" and
    s: "ss_user s = toPublicUser u" "next_token s = minted L (rng w)"
      "alive L H u (minted L (rng w)) (clock ?w + REFRESH_MS E) w1" "clock w1 = clock ?w" "rng w1 = rng w + 2"
    by (auto simp: prod_eq_iff)
  have "ds = [] \<or> hd ds < REFRESH_MS E" using Cons.prems(2) by (cases ds) simp_all
  with Cons.prems s have soon: "ds = [] \<or> clock w1 + hd ds < clock ?w + REFRESH_MS E" by auto
  have "length (keep_refreshing L E req ds (minted L (rng w)) w1) = length ds \<and>
    (\<forall>r \<in> set (keep_refreshing L E req ds (minted L (rng w)) w1). \<exists>s. r = Inr s \<and> ss_user s = toPublicUser u)"
    by (rule Cons.IH [OF s(3) _ soon]) (use Cons.prems s in auto)
  then show ?case using r s by simp
qed simp

theorem session_stays_alive_witness:
  "\<exists>s1 s2. keep_refreshing demo_lib demo_env demo_request [3000, 86400000] ''new'' demo_world = [Inr s1, Inr s2] \<and>
     ss_user s2 = toPublicUser demo_user"
proof -
  let ?rs = "keep_refreshing demo_lib demo_env demo_request [3000, 86400000] ''new'' demo_world"
  have "unseen demo_lib 8 demo_world" using demo_fair [of 8] by (simp add: fair_def)
  then have alive: "alive demo_lib 8 demo_user ''new'' 1000000 demo_world"
    using demo_db_ok by (simp add: alive_def notDeleted_def)
  have "REFRESH_MS demo_env = 604800000" by (simp add: REFRESH_MS_def)
  then have day: "length ?rs = 2 \<and> (\<forall>r \<in> set ?rs. \<exists>s. r = Inr s \<and> ss_user s = toPublicUser demo_user)"
    using session_stays_alive [OF demo_source demo_lib_ok(4) _ alive, of demo_env demo_request "[3000, 86400000]"]
    by (simp add: origin_ok_def)
  have "\<exists>s1 s2. rs = [Inr s1, Inr s2] \<and> P s2"
    if "length rs = 2 \<and> (\<forall>r \<in> set rs. \<exists>s. r = Inr s \<and> P s)" for rs :: "(exn + session) list" and P
    using that by (auto simp: length_Suc_conv numeral_2_eq_2)
  from this [OF day] show ?thesis .
qed

end
