(* ===== verification/Journey.thy ===== *)
theory Journey
  imports Complex_Main Liveness RateLimit
begin

text \<open>
  The smoke test of the API (\<open>load/api-journey.k6.js\<close>) as a client of the model: a virtual user
  registers once, then polls \<open>/health\<close> and now and then \<open>/auth/me\<close> and \<open>/auth/refresh\<close>. The server's
  answers are the programs of the routes; the limiters are compared with the traffic by their options.
\<close>

subsection \<open>The server's answers\<close>

text \<open>\<open>GET /health\<close> of \<open>plugins/health.ts\<close>, given \<open>process.uptime()\<close>.\<close>

record health_reply =
  hr_status :: string
  hr_uptime :: rat

definition health_endpoint :: "rat \<Rightarrow> (world, health_reply) prog" where
  "health_endpoint uptime = Ret \<lparr>hr_status = ''ok'', hr_uptime = uptime\<rparr>"

text \<open>The status of an answer: 200, what the error plugin makes of a throw, or a guard's.\<close>

definition reply_status :: "env \<Rightarrow> exn + 'a \<Rightarrow> nat" where
  "reply_status E r = (case r of Inl e \<Rightarrow> er_status (errorPlugin_onError (isProduction E) ''UNKNOWN'' e) | Inr x \<Rightarrow> 200)"

definition guarded_status :: "env \<Rightarrow> exn + 'a verdict \<Rightarrow> nat" where
  "guarded_status E r = (case r of Inr (Status s b) \<Rightarrow> s | _ \<Rightarrow> reply_status E r)"

subsection \<open>The virtual user\<close>

record k6_session =
  ks_accessToken :: string
  ks_refreshToken :: "string option"
  ks_refreshCookie :: "string option"

definition captureSession :: "session \<Rightarrow> k6_session" where
  "captureSession res =
     (let body = ss_tokens res; jarCookie = tk_cookie body in
     \<lparr>ks_accessToken = tk_access body,
      ks_refreshToken = (if truthy_str (tk_refresh body) then tk_refresh body else None),
      ks_refreshCookie = map_option sc_value jarCookie\<rparr>)"

definition refreshRequest :: "lib \<Rightarrow> env \<Rightarrow> request \<Rightarrow> k6_session \<Rightarrow> (world, session) prog" where
  "refreshRequest L E req s =
     (let payload = if truthy_str (ks_refreshToken s) then ks_refreshToken s else None;
          cookie = if truthy_str (ks_refreshCookie s) then ks_refreshCookie s else None in
     refresh L E req cookie payload)"

definition journey_email :: "nat \<Rightarrow> int \<Rightarrow> string" where
  "journey_email vu t = ''k6_'' @ show_nat vu @ ''_'' @ show_int t @ ''@example.com''"

definition journey_password :: string where
  "journey_password = ''k6-supersecret''"

text \<open>A check is its name and whether it holds.\<close>

type_synonym check = "string \<times> bool"

definition me_sample :: "lib \<Rightarrow> env \<Rightarrow> nat \<Rightarrow> k6_session \<Rightarrow> world \<Rightarrow> check list \<times> world" where
  "me_sample L E iter s w =
     (if iter mod 40 = 10
      then (case run (me L E (Some (ks_accessToken s))) w of (res, w1) \<Rightarrow>
        ([(''me 200'', guarded_status E res = 200)], w1))
      else ([], w))"

definition refresh_sample :: "lib \<Rightarrow> env \<Rightarrow> request \<Rightarrow> nat \<Rightarrow> k6_session \<Rightarrow> world \<Rightarrow> check list \<times> k6_session \<times> world" where
  "refresh_sample L E req iter s w =
     (if iter mod 60 = 30
      then (case run (refreshRequest L E req s) w of (res, w1) \<Rightarrow>
        ([(''refresh 200'', reply_status E res = 200)],
         (case res of Inr r \<Rightarrow> captureSession r | Inl e \<Rightarrow> s), w1))
      else ([], s, w))"

text \<open>An iteration after the registration; \<open>lag\<close> is the time its requests take, in milliseconds.\<close>

definition traffic :: "lib \<Rightarrow> env \<Rightarrow> request \<Rightarrow> nat \<Rightarrow> int \<Rightarrow> k6_session \<Rightarrow> world \<Rightarrow> check list \<times> k6_session \<times> world" where
  "traffic L E req iter lag s w =
     (case run (health_endpoint (of_int (clock w) / 1000)) w of (health, w0) \<Rightarrow>
      case me_sample L E iter s w0 of (c1, w1) \<Rightarrow>
      case refresh_sample L E req iter s w1 of (c2, s2, w2) \<Rightarrow>
        ((''health 200'', reply_status E health = 200) # c1 @ c2, s2, advance (lag + 1000) w2))"

text \<open>The default function of the script for the virtual user \<open>vu\<close>: only a success answers a
  registration with 200, and after a failure the user backs off for five seconds.\<close>

definition iteration :: "lib \<Rightarrow> env \<Rightarrow> request \<Rightarrow> nat \<Rightarrow> nat \<Rightarrow> int \<Rightarrow> k6_session option \<Rightarrow> world \<Rightarrow>
    check list \<times> k6_session option \<times> world" where
  "iteration L E req vu iter lag session w =
     (case session of
        Some s \<Rightarrow> (case traffic L E req iter lag s w of (cs, s', w') \<Rightarrow> (cs, Some s', w'))
      | None \<Rightarrow>
          (case run (register L E req (journey_email vu (clock w)) journey_password None) w of (res, w1) \<Rightarrow>
           let registered_check = (''register 200'', reply_status E res = 200) in
           case res of
             Inl e \<Rightarrow> ([registered_check], None, advance (lag + 5000) w1)
           | Inr r \<Rightarrow>
               (case traffic L E req iter lag (captureSession r) w1 of (cs, s', w') \<Rightarrow>
                  (registered_check # cs, Some s', w'))))"

text \<open>Iterations from \<open>iter\<close> on, one for each lag.\<close>

fun journey :: "lib \<Rightarrow> env \<Rightarrow> request \<Rightarrow> nat \<Rightarrow> nat \<Rightarrow> int list \<Rightarrow> k6_session option \<Rightarrow> world \<Rightarrow>
    check list \<times> k6_session option \<times> world" where
  "journey L E req vu iter [] session w = ([], session, w)"
| "journey L E req vu iter (lag # lags) session w =
     (case iteration L E req vu iter lag session w of (c1, s1, w1) \<Rightarrow>
      case journey L E req vu (Suc iter) lags s1 w1 of (c2, s2, w2) \<Rightarrow> (c1 @ c2, s2, w2))"

text \<open>\<open>options.vus\<close> by default, and the requests of a run that reach the \<open>/auth\<close> module.\<close>

definition default_vus :: nat where
  "default_vus = 5"

definition auth_checks :: "check list \<Rightarrow> check list" where
  "auth_checks cs = filter (\<lambda>c. fst c \<noteq> ''health 200'') cs"

subsection \<open>A working session\<close>

text \<open>The session \<open>s\<close>, captured at time \<open>c\<close>, is that of an active account.\<close>

definition works :: "lib \<Rightarrow> env \<Rightarrow> nat \<Rightarrow> int \<Rightarrow> k6_session \<Rightarrow> world \<Rightarrow> bool" where
  "works L E H c s w \<longleftrightarrow> (\<exists>u token. alive L H u token (c + REFRESH_MS E) w \<and>
     s = \<lparr>ks_accessToken = jwt_sign L (JWT_SECRET E) (access_claims (u_id u) (role_name (u_role u))) (c div 1000) (JWT_ACCESS_EXP E),
          ks_refreshToken = in_body E token, ks_refreshCookie = in_cookie E token\<rparr>)"

lemma capture_reply:
  assumes "token \<noteq> []"
  shows "captureSession \<lparr>ss_tokens = tokens_reply L E i r token t, ss_user = p\<rparr> =
    \<lparr>ks_accessToken = jwt_sign L (JWT_SECRET E) (access_claims i (role_name r)) (t div 1000) (JWT_ACCESS_EXP E),
     ks_refreshToken = in_body E token, ks_refreshCookie = in_cookie E token\<rparr>"
  using assms by (simp add: captureSession_def tokens_reply_def in_body_def in_cookie_def refresh_cookie_def truthy_str_iff Let_def)

lemma works_advance: "works L E H c s w \<Longrightarrow> works L E H c s (advance d w)"
  unfolding works_def by (blast intro: alive_advance)

lemma own_token:
  assumes "jwt_ok L" "JWT_SECRET E \<noteq> []" "t div 1000 < iat + jwt_lifetime L e"
  shows "token_payload L E (jwt_sign L (JWT_SECRET E) (access_claims i (role_name r)) iat e) t = Some \<lparr>ap_sub = i, ap_role = r\<rparr>"
proof -
  let ?cs = "access_claims i (role_name r)"
  obtain rest where "jwt_verify L (JWT_SECRET E) (jwt_sign L (JWT_SECRET E) ?cs iat e) t = Some (JObj (?cs @ rest))"
    using assms(1,3) unfolding jwt_ok_def Let_def by metis
  with assms(2) show ?thesis by (simp add: token_payload_def)
qed

text \<open>No token is the empty string.\<close>

definition jwt_nonempty :: "lib \<Rightarrow> bool" where
  "jwt_nonempty L \<longleftrightarrow> (\<forall>key claims iat life. jwt_sign L key claims iat life \<noteq> [])"

lemma me_works:
  assumes "jwt_ok L" "jwt_nonempty L" "JWT_SECRET E \<noteq> []" "works L E H c s w"
    "clock w div 1000 < c div 1000 + jwt_lifetime L (JWT_ACCESS_EXP E)"
  shows "me_sample L E iter s w = ((if iter mod 40 = 10 then [(''me 200'', True)] else []), w)"
proof -
  from assms(4) obtain u token where u: "pg w = Up" "find (\<lambda>v. u_id v = u_id u \<and> notDeleted v) (users w) = Some u"
    and s: "ks_accessToken s = jwt_sign L (JWT_SECRET E) (access_claims (u_id u) (role_name (u_role u))) (c div 1000) (JWT_ACCESS_EXP E)"
    unfolding works_def alive_def by auto
  have "caller L E (Some (ks_accessToken s)) (clock w) = Some \<lparr>ap_sub = u_id u, ap_role = u_role u\<rparr>"
    using own_token [OF assms(1,3,5)] assms(2) by (simp add: caller_def s truthy_str_iff jwt_nonempty_def)
  with u have "run (me L E (Some (ks_accessToken s))) w = (Inr (Pass (toPublicUser u)), w)"
    by (simp add: me_def guarded_def run_isAuthed run_simps)
  then show ?thesis by (simp add: me_sample_def guarded_status_def reply_status_def)
qed

lemma refresh_works:
  assumes "source_ok L H" "rand_bytes_ok L" "origin_ok E req" "works L E H c s w" "clock w < c + REFRESH_MS E"
    "Suc (rng w) < H" "refresh_sample L E req iter s w = (cs, s', w')"
  shows "cs = (if iter mod 60 = 30 then [(''refresh 200'', True)] else []) \<and> clock w' = clock w \<and> rng w' \<le> rng w + 2 \<and>
    works L E H (if iter mod 60 = 30 then clock w else c) s' w'"
proof (cases "iter mod 60 = 30")
  case True
  from assms(4) obtain u token where u: "alive L H u token (c + REFRESH_MS E) w"
    and s: "ks_refreshToken s = in_body E token" "ks_refreshCookie s = in_cookie E token" unfolding works_def by auto
  have "token \<noteq> []" using u by (simp add: alive_def)
  then have req: "refreshRequest L E req s = refresh L E req (in_cookie E token) (in_body E token)"
    by (simp add: refreshRequest_def s in_body_def in_cookie_def truthy_str_iff)
  note ok = alive_refresh [OF assms(1-3) u assms(5,6)]
  have "minted L (rng w) \<noteq> []" using ok by (simp add: alive_def)
  with ok True assms(7) req show ?thesis
    by (auto simp: refresh_sample_def reply_status_def capture_reply works_def split: prod.splits)
next
  case False
  with assms(4,7) show ?thesis by (auto simp: refresh_sample_def)
qed

lemma traffic_works:
  assumes "source_ok L H" "rand_bytes_ok L" "origin_ok E req" "jwt_ok L" "jwt_nonempty L" "JWT_SECRET E \<noteq> []"
    "works L E H c s w" "clock w < c + REFRESH_MS E" "clock w div 1000 < c div 1000 + jwt_lifetime L (JWT_ACCESS_EXP E)"
    "Suc (rng w) < H" "traffic L E req iter lag s w = (cs, s', w')"
  shows "(\<forall>x \<in> set cs. snd x) \<and> clock w' = clock w + lag + 1000 \<and> rng w' \<le> rng w + 2 \<and>
    works L E H (if iter mod 60 = 30 then clock w else c) s' w'"
proof -
  obtain c2 s2 w2 where ref: "refresh_sample L E req iter s w = (c2, s2, w2)" by (metis prod_cases3)
  have "reply_status E (Inr h) = 200" for h :: health_reply by (simp add: reply_status_def)
  with assms(11) ref me_works [OF assms(4-7,9), of iter]
  have "cs = (''health 200'', True) # (if iter mod 40 = 10 then [(''me 200'', True)] else []) @ c2"
    "s' = s2" "w' = advance (lag + 1000) w2"
    by (simp_all add: traffic_def health_endpoint_def)
  with refresh_works [OF assms(1-3,7,8,10) ref] show ?thesis by (auto simp: works_advance)
qed

subsection \<open>The registration\<close>

text \<open>Mailing the verification code leaves users and sessions alone.\<close>

definition welcome_mail :: "lib \<Rightarrow> env \<Rightarrow> string \<Rightarrow> string \<Rightarrow> (world, unit) prog" where
  "welcome_mail L E i email = (if REQUIRE_VERIFIED_EMAIL E then try_catch (otp_issue L E i email) (\<lambda>err. Ret ()) else Ret ())"

lemma run_welcome:
  assumes "rd w = Up" "mail_ok E w"
  shows "\<exists>w'. run (welcome_mail L E i email) w = (Inr (), w') \<and> users w' = users w \<and> refreshTokens w' = refreshTokens w \<and>
    clock w' = clock w \<and> rng w' \<le> Suc (rng w)"
  using assms by (simp add: welcome_mail_def run_simps run_otp_issue otp_stored_def)

lemma knows_welcome: "knows L E H client_error {i} (welcome_mail L E i email) (\<lambda>_. {})"
  unfolding welcome_mail_def
  by (intro knows_if knows_try [OF knows_otp_issue] knows_Ret0) auto

lemma after_audit_draws: "rng (after_audit L e w) \<le> Suc (rng w)"
  by (simp add: after_audit_eq insert_audit_row_def split: link.splits)

lemma fair_mintable:
  assumes "source_ok L H" "fair L E H w" "i \<in> ids w" "Suc (rng w) < H"
  shows "mintable L i w"
proof -
  have "uuid L j \<notin> rt_id ` set (refreshTokens w) \<and> sha256Hex L (minted L j) \<notin> rt_token ` set (refreshTokens w)"
    if "rng w \<le> j" "j < H" for j using assms(2) that by (simp add: fair_def unseen_def)
  from this [of "rng w"] this [of "Suc (rng w)"] assms(1,3,4) show ?thesis
    by (simp add: mintable_def source_ok_def ids_def)
qed

text \<open>A registration in fair weather, step by step.\<close>

lemma run_register_fair:
  assumes "source_ok L H" "fair L E H w" "fits_row L email password None"
    "\<not> list_ex (active_email email) (users w)" "rng w + 7 \<le> H"
  defines "u \<equiv> registered L email password None w"
  shows "\<exists>f w4. run (register L E req email password None) w =
      (Inr \<lparr>ss_tokens = tokens_reply L E (u_id u) (u_role u) (minted L (rng w4)) (clock w), ss_user = toPublicUser u\<rparr>,
       w4\<lparr>refreshTokens := refreshTokens w4 @ [minted_row L E (u_id u) f w4], rng := rng w4 + 2\<rparr>) \<and>
    users w4 = users w @ [u] \<and> clock w4 = clock w \<and> rng w4 \<le> rng w + 5 \<and> pg w4 = Up"
proof -
  let ?e = "\<lparr>ae_action = ''user.created'', ae_actorId = Some (u_id u), ae_targetType = Some ''user'',
        ae_targetId = Some (u_id u), ae_metadata = None, ae_ip = Some (clientIp E req)\<rparr>"
  define w1 where "w1 = w\<lparr>users := users w @ [u], rng := rng w + 2\<rparr>"
  define w2 where "w2 = after_audit L ?e w1"
  have "user_fits u" using assms(3) by (simp add: u_def user_fits_def registered_def new_user_def fits_row_def)
  moreover have "uuid L (Suc (rng w)) \<notin> ids w" using assms(2,5) by (simp add: fair_def unseen_def)
  ultimately have create: "run (createUser L email password None) w = (Inr u, w1)"
    using assms(4) by (simp add: run_createUser [OF fair_links(1) [OF assms(2)]] u_def w1_def ids_def)
  have 1: "fair L E H w1" using knowsD [OF knows_createUser [OF assms(1,3)] create assms(2), of "{}"] assms(5)
    by (simp add: w1_def)
  have r2: "rng w2 \<le> rng w + 3" using after_audit_draws [of L ?e w1] by (simp add: w2_def w1_def)
  have 2: "fair L E H w2"
    using knowsD [OF knows_recordAudit run_recordAudit 1, of "{}"] r2 assms(5) by (simp add: w2_def)
  obtain w3 where w3: "run (welcome_mail L E (u_id u) (u_email u)) w2 = (Inr (), w3)" "users w3 = users w2"
    "clock w3 = clock w2" "rng w3 \<le> Suc (rng w2)"
    using run_welcome [OF fair_links(2,3) [OF 2]] by blast
  have i: "u_id u \<in> ids w2" by (simp add: w2_def w1_def ids_def)
  have 3: "fair L E H w3" using knowsD [OF knows_welcome w3(1) 2] i w3(4) r2 assms(5) by simp
  define w4 where "w4 = w3\<lparr>rng := Suc (rng w3)\<rparr>"
  have 4: "fair L E H w4" by (rule fair_upd [OF 3]) (use 3 in \<open>simp_all add: fair_links w4_def\<close>)
  have us: "users w4 = users w @ [u]" "clock w4 = clock w" "rng w4 \<le> rng w + 5"
    using w3 r2 by (simp_all add: w4_def w2_def) (simp_all add: w1_def)
  have "mintable L (u_id u) w4" by (rule fair_mintable [OF assms(1) 4]) (use us assms(5) in \<open>simp_all add: ids_def\<close>)
  note log = run_log_in [OF fair_links(1) [OF 4] this]
  have "run (register L E req email password None) w = run (log_in L E u (uuid L (rng w3))) w4"
    using create w3(1) by (simp add: register_def run_simps w2_def welcome_mail_def randomUUID_def w4_def)
  with log us fair_links(1) [OF 4] show ?thesis by auto
qed

lemma register_works:
  assumes "source_ok L H" "rand_bytes_ok L" "fair L E H w" "db_ok w" "fits_row L email password None"
    "\<not> list_ex (active_email email) (users w)" "rng w + 7 \<le> H"
    "run (register L E req email password None) w = (res, w')"
  shows "\<exists>r. res = Inr r \<and> works L E H (clock w) (captureSession r) w' \<and> clock w' = clock w \<and> rng w' \<le> rng w + 7"
proof -
  let ?u = "registered L email password None w"
  from run_register_fair [OF assms(1,3,5-7), where req = req] obtain f w4 where
    r: "res = Inr \<lparr>ss_tokens = tokens_reply L E (u_id ?u) (u_role ?u) (minted L (rng w4)) (clock w), ss_user = toPublicUser ?u\<rparr>"
      "w' = w4\<lparr>refreshTokens := refreshTokens w4 @ [minted_row L E (u_id ?u) f w4], rng := rng w4 + 2\<rparr>"
    and w4: "users w4 = users w @ [?u]" "clock w4 = clock w" "rng w4 \<le> rng w + 5" "pg w4 = Up"
    using assms(8) by auto
  have rng: "rng w' \<le> H" using r w4 assms(7) by simp
  have fair: "fair L E H w'" using knowsD [OF knows_register [OF assms(1,5)] assms(8,3), of "{}"] rng by simp
  have ok: "db_ok w'" using run_all_steps_inv [OF keeps_db_auth_routes(1) assms(4)] assms(8) by (metis snd_conv)
  have "?u \<in> set (users w')" "notDeleted ?u" by (simp_all add: r w4 registered_def new_user_def notDeleted_def)
  moreover have "uuid L (Suc (rng w)) \<notin> ids w" using assms(3,7) by (simp add: fair_def unseen_def)
  then have "u_id v \<noteq> u_id ?u" if "v \<in> set (users w)" for v
    using that by (simp add: ids_def registered_def new_user_def) (metis image_eqI)
  ultimately have user: "find (\<lambda>v. u_id v = u_id ?u \<and> notDeleted v) (users w') = Some ?u"
    by (simp add: r w4 find_append) (auto simp: find_None_iff' split: option.split dest: find_Some_set)
  let ?m = "minted L (rng w4)" and ?row = "minted_row L E (u_id ?u) f w4"
  have "find (\<lambda>s. rt_token s = rt_token ?row) (refreshTokens w') = Some ?row"
    using ok by (intro find_token) (simp_all add: db_ok_def r)
  then have row: "find (\<lambda>s. rt_token s = sha256Hex L ?m) (refreshTokens w') = Some ?row" by (simp add: minted_row_def)
  have m: "?m \<noteq> []" using randomToken_length [OF assms(2)] by (auto simp: minted_def dest: arg_cong [where f = length])
  have "alive L H ?u ?m (clock w + REFRESH_MS E) w'"
    using fair ok user row m unfolding alive_def by (simp add: fair_def) (simp add: minted_row_def w4)
  with m r w4 show ?thesis by (auto simp: works_def capture_reply)
qed

subsection \<open>The schedule\<close>

text \<open>The checks an iteration after the registration makes, whatever their outcome.\<close>

definition sampled :: "nat \<Rightarrow> string list" where
  "sampled iter = ''health 200'' # (if iter mod 40 = 10 then [''me 200''] else []) @
     (if iter mod 60 = 30 then [''refresh 200''] else [])"

lemma names_traffic: "map fst (fst (traffic L E req iter lag s w)) = sampled iter"
  by (simp add: traffic_def me_sample_def refresh_sample_def health_endpoint_def sampled_def split: prod.split)

lemma names_journey:
  "map fst (fst (journey L E req vu iter lags (Some s) w)) = concat (map sampled [iter..<iter + length lags])"
proof (induction lags arbitrary: iter s w)
  case (Cons lag lags)
  obtain c1 s1 w1 where 1: "traffic L E req iter lag s w = (c1, s1, w1)" by (metis prod_cases3)
  obtain c2 s2 w2 where 2: "journey L E req vu (Suc iter) lags (Some s1) w1 = (c2, s2, w2)" by (metis prod_cases3)
  have "map fst c1 = sampled iter" using names_traffic [of L E req iter lag s w] 1 by simp
  moreover have "map fst c2 = concat (map sampled [Suc iter..<Suc iter + length lags])" using Cons.IH [of "Suc iter" s1 w1] 2 by simp
  moreover have "[iter..<iter + Suc (length lags)] = iter # [Suc iter..<Suc iter + length lags]" by (simp add: upt_rec)
  ultimately show ?case using 1 2 by (simp add: iteration_def)
qed simp

text \<open>A residue occurs at most once in as many consecutive numbers as the modulus.\<close>

lemma residue_once: "n \<le> m \<Longrightarrow> length (filter (\<lambda>k. k mod m = r) [i..<i + n]) \<le> 1"
proof -
  assume n: "n \<le> m"
  have eq: "k = l" if "k \<in> {i..<i + n}" "l \<in> {i..<i + n}" "k mod m = l mod m" "l \<le> k" for k l
  proof (rule ccontr)
    assume "k \<noteq> l"
    have "m dvd k - l" using that(3,4) by (simp add: mod_eq_dvd_iff_nat)
    with \<open>k \<noteq> l\<close> that(4) have "m \<le> k - l" by (simp add: dvd_imp_le)
    with that(1,2) n show False by auto
  qed
  let ?K = "set (filter (\<lambda>k. k mod m = r) [i..<i + n])"
  have "k = l" if "k \<in> ?K" "l \<in> ?K" for k l
    using that eq [of k l] eq [of l k] by (cases "l \<le> k") auto
  then have "card ?K \<le> 1" by (simp add: card_le_Suc0_iff_eq)
  then show ?thesis by (simp only: distinct_card distinct_filter distinct_upt)
qed

lemma auth_sampled: "length (filter (\<lambda>x. x \<noteq> ''health 200'') (concat (map sampled ks))) =
    length (filter (\<lambda>k. k mod 40 = 10) ks) + length (filter (\<lambda>k. k mod 60 = 30) ks)"
  by (induction ks) (simp_all add: sampled_def)

lemma health_sampled: "length (filter (\<lambda>x. x = ''health 200'') (concat (map sampled ks))) = length ks"
  by (induction ks) (simp_all add: sampled_def)

lemma register_sampled: "filter (\<lambda>x. x = ''register 200'') (concat (map sampled ks)) = []"
  by (induction ks) (simp_all add: sampled_def)

lemma auth_budget:
  assumes "n \<le> 60"
  shows "length (filter (\<lambda>x. x \<noteq> ''health 200'') (concat (map sampled [i..<i + n]))) \<le> 3"
proof -
  let ?m = "min n 40"
  let ?c = "\<lambda>a b. length (filter (\<lambda>k. k mod 40 = 10) [a..<a + b])"
  have "[i..<i + n] = [i..<i + ?m] @ [i + ?m..<i + ?m + (n - ?m)]"
    using upt_add_eq_append [of i "i + ?m" "n - ?m"] by simp
  then have "?c i n = ?c i ?m + ?c (i + ?m) (n - ?m)" by (metis filter_append length_append)
  moreover have "?c i ?m \<le> 1" by (rule residue_once) simp
  moreover have "?c (i + ?m) (n - ?m) \<le> 1" by (rule residue_once) (use assms in simp)
  ultimately have "?c i n \<le> 2" by linarith
  with residue_once [of n 60 30 i] assms show ?thesis by (simp add: auth_sampled)
qed

text \<open>The first sixty iterations use the bound up: with the registration, four requests of each of five
  users, which is the whole of the module's limit.\<close>

lemma first_minute_full:
  "default_vus * Suc (length (filter (\<lambda>x. x \<noteq> ''health 200'') (concat (map sampled [0..<60])))) = nat (lm_max sessionLimiter)"
proof -
  have "length (filter (\<lambda>x. x \<noteq> ''health 200'') (concat (map sampled [0..<60]))) = 3" by code_simp
  then show ?thesis by (simp only:) (simp add: default_vus_def sessionLimiter_def ipRateLimit_def default_arg_def)
qed

subsection \<open>The run\<close>

text \<open>How many iterations ago the session of iteration \<open>iter\<close> was captured, at most.\<close>

definition session_age :: "nat \<Rightarrow> nat" where
  "session_age iter = Suc ((iter + 29) mod 60)"

lemma session_age_le: "session_age iter \<le> 60"
  using mod_less_divisor [of 60 "iter + 29"] by (simp add: session_age_def Suc_le_eq)

lemma session_age_Suc: "session_age (Suc iter) = (if iter mod 60 = 30 then 1 else Suc (session_age iter))"
proof -
  let ?r = "iter mod 60"
  have r: "?r < 60" by simp
  have "(?r + 29) mod 60 = (if ?r < 31 then ?r + 29 else ?r - 31)"
  proof (cases "?r < 31")
    case False
    then have "?r + 29 = (?r - 31) + 60" by simp
    then have "(?r + 29) mod 60 = (?r - 31) mod 60" by (metis mod_add_self2)
    with False r show ?thesis by simp
  qed simp
  moreover have "(iter + 29) mod 60 = (?r + 29) mod 60" by (rule mod_add_left_eq [symmetric])
  ultimately have "(iter + 29) mod 60 = 59 \<longleftrightarrow> ?r = 30" using r by (simp split: if_splits) linarith
  then show ?thesis using mod_Suc [of "iter + 29" 60] by (simp add: session_age_def)
qed

lemma journey_works:
  assumes lib: "source_ok L H" "rand_bytes_ok L" "origin_ok E req" "jwt_ok L" "jwt_nonempty L" "JWT_SECRET E \<noteq> []"
    and pace: "60 * \<Delta> < REFRESH_MS E" "60 * \<Delta> + 1000 \<le> 1000 * jwt_lifetime L (JWT_ACCESS_EXP E)" "0 \<le> \<Delta>"
  assumes "works L E H c s w" "clock w \<le> c + \<Delta> * int (session_age iter)" "\<forall>lag \<in> set lags. lag + 1000 \<le> \<Delta>"
    "rng w + 2 * length lags \<le> H"
  shows "\<forall>x \<in> set (fst (journey L E req vu iter lags (Some s) w)). snd x"
  using assms(10-13)
proof (induction lags arbitrary: c iter s w)
  case (Cons lag lags)
  obtain c1 s1 w1 where 1: "traffic L E req iter lag s w = (c1, s1, w1)" by (metis prod_cases3)
  have "\<Delta> * int (session_age iter) \<le> \<Delta> * 60"
    using session_age_le [of iter] pace(3) by (intro mult_left_mono) simp_all
  with Cons.prems(2) have c: "clock w \<le> c + 60 * \<Delta>" by simp
  with pace have "clock w < c + REFRESH_MS E" "clock w div 1000 < c div 1000 + jwt_lifetime L (JWT_ACCESS_EXP E)" by linarith+
  from traffic_works [OF lib Cons.prems(1) this _ 1] Cons.prems(4)
  have t: "\<forall>x \<in> set c1. snd x" "clock w1 = clock w + lag + 1000" "rng w1 \<le> rng w + 2"
    "works L E H (if iter mod 60 = 30 then clock w else c) s1 w1" by simp_all
  have "clock w1 \<le> clock w + \<Delta>" using t(2) Cons.prems(3) by simp
  then have age: "clock w1 \<le> (if iter mod 60 = 30 then clock w else c) + \<Delta> * int (session_age (Suc iter))"
    using Cons.prems(2) by (simp add: session_age_Suc distrib_left)
  have "\<forall>x \<in> set (fst (journey L E req vu (Suc iter) lags (Some s1) w1)). snd x"
    by (rule Cons.IH [OF t(4) age]) (use Cons.prems t(3) in simp_all)
  with 1 t(1) show ?case by (auto simp: iteration_def split: prod.split)
qed simp

subsection \<open>Properties\<close>

text \<open>C22. The smoke test passes against the API as it is: with the services answering, a virtual user
  whose address is free and whose iterations are short of the lifetimes of the tokens has every check
  come out true, in both transports and with or without address verification, however long the run;
  and over the default minute the five virtual users together stay within the limits of the credential
  routes and of the \<open>/auth\<close> module, which the comment of the script promises.\<close>

theorem smoke_test_passes:
  fixes L :: lib and E :: env and w :: world
  assumes "source_ok L H" "rand_bytes_ok L" "jwt_ok L" "jwt_nonempty L"
    "fits_row L (journey_email vu (clock w)) journey_password None"
    "JWT_SECRET E \<noteq> []" "rq_header req ''origin'' = None" "fair L E H w" "db_ok w"
    "\<not> list_ex (active_email (journey_email vu (clock w))) (users w)"
    "\<forall>lag \<in> set lags. lag + 1000 \<le> \<Delta>" "60 * \<Delta> < REFRESH_MS E" "0 \<le> \<Delta>"
    "60 * \<Delta> + 1000 \<le> 1000 * jwt_lifetime L (JWT_ACCESS_EXP E)" "rng w + 7 + 2 * length lags \<le> H"
  defines "cs \<equiv> fst (journey L E req vu 0 lags None w)"
  shows "(\<forall>c \<in> set cs. snd c) \<and> length (filter (\<lambda>c. fst c = ''health 200'') cs) = length lags \<and>
    (length lags \<le> 60 \<longrightarrow>
      default_vus * length (auth_checks cs) \<le> nat (lm_max sessionLimiter) \<and>
      default_vus * length (filter (\<lambda>c. fst c = ''register 200'') cs) \<le> nat (lm_max credentialLimiter))"
proof (cases lags)
  case Nil
  then show ?thesis by (simp add: cs_def auth_checks_def)
next
  case (Cons lag rest)
  have origin: "origin_ok E req" using assms(7) by (simp add: origin_ok_def assertTrustedOrigin_def)
  obtain res w1 where reg: "run (register L E req (journey_email vu (clock w)) journey_password None) w = (res, w1)" by fastforce
  from register_works [OF assms(1,2,8,9,5,10) _ reg] assms(15)
  obtain r where r: "res = Inr r" "works L E H (clock w) (captureSession r) w1" "clock w1 = clock w" "rng w1 \<le> rng w + 7"
    by auto
  define js where "js = fst (journey L E req vu 0 lags (Some (captureSession r)) w1)"
  have cs: "cs = (''register 200'', True) # js"
    using Cons reg r(1) by (simp add: cs_def js_def iteration_def reply_status_def split: prod.split)
  have "\<forall>x \<in> set js. snd x"
    unfolding js_def
    by (rule journey_works [OF assms(1,2) origin assms(3,4,6,12,14,13) r(2) _ assms(11)])
      (use r(3,4) assms(13,15) in \<open>simp_all\<close>)
  moreover have names: "map fst js = concat (map sampled [0..<length lags])" unfolding js_def by (simp add: names_journey)
  have len: "length (filter (\<lambda>c. P (fst c)) js) = length (filter P (concat (map sampled [0..<length lags])))" for P
    unfolding names [symmetric] by (simp add: filter_map comp_def)
  moreover note len [of "\<lambda>x. x = ''health 200''"] len [of "\<lambda>x. x \<noteq> ''health 200''"] len [of "\<lambda>x. x = ''register 200''"]
  ultimately show ?thesis
    using auth_budget [of "length lags" 0]
    by (auto simp: cs auth_checks_def health_sampled register_sampled default_vus_def sessionLimiter_def
        credentialLimiter_def ipRateLimit_def default_arg_def)
qed

lemma demo_source_many: "source_ok demo_lib 69"
proof -
  have "distinct (map (\<lambda>i. sha256Hex demo_lib (minted demo_lib i)) [0..<69]) \<and>
      distinct (map (uuid demo_lib) [0..<69]) \<and>
      (\<forall>i \<in> set [0..<69]. length (sha256Hex demo_lib (minted demo_lib i)) \<le> 512 \<and> plain_id (uuid demo_lib i) \<and>
        plain_id (sha256Hex demo_lib (minted demo_lib i)))"
    by code_simp
  then show ?thesis by (simp only: source_ok_def distinct_map atLeast0LessThan set_upt) (auto simp: lessThan_def)
qed

theorem smoke_test_passes_witness:
  "list_all snd (fst (journey demo_lib demo_env demo_request 2 0 (replicate 31 500) None demo_world)) \<and>
   length (filter (\<lambda>c. fst c = ''health 200'') (fst (journey demo_lib demo_env demo_request 2 0 (replicate 31 500) None demo_world))) = 31"
proof -
  have jwt: "jwt_nonempty demo_lib" by (simp add: jwt_nonempty_def demo_lib_def demo_jwt_sign_def)
  have fits: "fits_row demo_lib ''k6_2_1000@example.com'' journey_password None"
    by (simp add: fits_row_def journey_password_def) (simp add: demo_lib_def)
  have email: "journey_email 2 1000 = ''k6_2_1000@example.com''" by code_simp
  have ms: "REFRESH_MS demo_env = 604800000" by (simp add: REFRESH_MS_def)
  show ?thesis
    using smoke_test_passes [OF demo_source_many demo_lib_ok(4,6) jwt _ _ _ demo_fair demo_db_ok,
        where vu = 2 and req = demo_request and lags = "replicate 31 500" and \<Delta> = 1500] fits
    by (simp add: email ms active_email_def list_all_iff)
qed

end
