(* ===== verification/Races.thy ===== *)
theory Races
  imports Rotation
begin

text \<open>
  Interleavings the services do not exclude. Each theorem exhibits a run of two requests in flight
  together, with every service answering and no time passing, whose outcome no order of the two
  requests one after the other could have.
\<close>

subsection \<open>A refresh between its claim and its answer\<close>

definition after_claim :: "lib \<Rightarrow> env \<Rightarrow> refresh_token \<Rightarrow> (world, session) prog" where
  "after_claim L E used =
     bnd (findById (rt_userId used)) (\<lambda>found.
     case found of None \<Rightarrow> Throw unauthorized | Some u \<Rightarrow> log_in L E u (rt_familyId used))"

text \<open>The presented token is stored, unused and unexpired.\<close>

definition spendable :: "lib \<Rightarrow> string \<Rightarrow> world \<Rightarrow> refresh_token \<Rightarrow> bool" where
  "spendable L token w row \<longleftrightarrow> find (\<lambda>r. rt_token r = sha256Hex L token) (refreshTokens w) = Some row \<and>
     rt_usedAt row = None \<and> clock w < rt_expiresAt row"

lemma refresh_claims:
  assumes "pg w = Up" "db_ok w" "origin_ok E req" "presented E ck bd = Some token" "token \<noteq> []"
    "spendable L token w row"
  shows "part (w, refresh L E req ck bd) (claim (sha256Hex L token) w, after_claim L E (claimed_row w row))"
proof -
  have "run (useRefreshToken L token) w = (Inr (claimed_row w row), claim (sha256Hex L token) w)"
    using assms(1,2,6) by (simp add: run_useRefreshToken db_ok_def spendable_def)
  then have "part (w, bnd (useRefreshToken L token) (after_claim L E))
      (claim (sha256Hex L token) w, after_claim L E (claimed_row w row))" by (rule part_bnd)
  moreover have "part (w, refresh L E req ck bd) (w, bnd (useRefreshToken L token) (after_claim L E))"
    using part_sequ [OF run_requireTrustedOrigin [OF assms(3)], of w] assms(4,5)
    by (simp add: refresh_def truthy_str_iff after_claim_def [abs_def])
  ultimately show ?thesis by (blast intro: part_trans)
qed

lemma claim_frames [simp]:
  "users (claim h w) = users w" "pg (claim h w) = pg w" "rd (claim h w) = rd w" "clock (claim h w) = clock w"
  "rng (claim h w) = rng w" "redis (claim h w) = redis w"
  by (simp_all add: claim_def)

text \<open>The winner goes on in a world where its account is still there and a token can be minted.\<close>

lemma winner_logs_in:
  assumes "pg v = Up" "find (\<lambda>u. u_id u = i \<and> notDeleted u) (users v) = Some u" "mintable L i v"
  shows "\<exists>s. run (after_claim L E (row\<lparr>rt_userId := i\<rparr>)) v =
    (Inr s, v\<lparr>refreshTokens := refreshTokens v @ [minted_row L E i (rt_familyId row) v], rng := rng v + 2\<rparr>)"
proof -
  have i: "u_id u = i" using find_Some_set [OF assms(2)] by simp
  have "run (findById i) v = (Inr (Some u), v)" using assms(1,2) by (simp add: run_find)
  with run_log_in [OF assms(1), of L u E "rt_familyId row"] assms(3) i show ?thesis
    by (simp add: after_claim_def run_simps)
qed

lemma claimed_row_user: "claimed_row w row = (claimed_row w row)\<lparr>rt_userId := rt_userId row\<rparr>"
  by (simp add: claimed_row_def)

text \<open>C35. Reuse detection and its race: of two concurrent refreshes with one token, the loser takes
  the family down, but the winner, already past its claim, then stores its new token: the revoked
  family lives on in an unused, unexpired token.\<close>

theorem reuse_burn_race:
  assumes "pg w = Up" "db_ok w" "origin_ok E req" "presented E ck bd = Some token" "token \<noteq> []"
    "spendable L token w row" "\<exists>u \<in> set (users w). u_id u = rt_userId row \<and> u_deletedAt u = None"
    "\<forall>n \<ge> rng w. mintable L (rt_userId row) (w\<lparr>rng := n\<rparr>)"
  shows "\<exists>w' s. pool_run env_step (w, [refresh L E req ck bd, refresh L E req ck bd]) (w', [Ret s, Throw token_reuse]) \<and>
    (\<exists>r \<in> set (refreshTokens w'). rt_familyId r = rt_familyId row \<and> rt_usedAt r = None \<and> clock w' < rt_expiresAt r)"
proof -
  let ?h = "sha256Hex L token" and ?p = "refresh L E req ck bd"
  let ?v = "claim ?h w" and ?c = "claimed_row w row"
  have u: "tokens_unique (refreshTokens w)" using assms(2) by (simp add: db_ok_def)
  have row: "row \<in> set (refreshTokens w)" "rt_token row = ?h"
    using find_Some_set [OF conjunct1 [OF assms(6) [unfolded spendable_def]]] by simp_all
  have ok: "db_ok ?v"
  proof -
    have "run (useRefreshToken L token) w = (Inr ?c, ?v)"
      using assms(1,6) by (simp add: run_useRefreshToken [OF _ u] spendable_def)
    with run_all_steps_inv [OF keeps_db_auth(10) assms(2), of L token] show ?thesis by simp
  qed
  have "?c \<in> set (refreshTokens ?v)" using row by (auto simp: claim_def)
  with ok find_token [of "refreshTokens ?v" ?c] row(2)
  have "find (\<lambda>r. rt_token r = ?h) (refreshTokens ?v) = Some ?c" by (simp add: db_ok_def claimed_row_def)
  then have lose: "run (useRefreshToken L token) ?v =
      (Inl token_reuse, after_audit L (reuse_entry ?c) (burn_family (rt_familyId row) ?v))"
    using assms(1) ok by (simp add: run_useRefreshToken db_ok_def claimed_row_def)
  let ?b = "after_audit L (reuse_entry ?c) (burn_family (rt_familyId row) ?v)"
  have q: "run ?p ?v = (Inl token_reuse, ?b)"
    using lose assms(3-5) by (simp add: refresh_def run_simps truthy_str_iff)
  have "rng w \<le> rng ?b" using after_audit_rng [of "burn_family (rt_familyId row) ?v"] by (simp add: burn_family_def)
  with assms(8) have "mintable L (rt_userId row) (w\<lparr>rng := rng ?b\<rparr>)" by blast
  then have mint: "mintable L (rt_userId row) ?b"
    by (auto simp: mintable_def burn_family_def claim_def claimed_row_def image_iff split: if_splits)
  have "find (\<lambda>u. u_id u = rt_userId row \<and> notDeleted u) (users w) \<noteq> None"
    using assms(7) by (auto simp: find_None_iff notDeleted_def)
  then obtain u where "find (\<lambda>u. u_id u = rt_userId row \<and> notDeleted u) (users ?b) = Some u"
    by (auto simp: burn_family_def)
  from winner_logs_in [OF _ this mint, of E ?c] assms(1) obtain s where
    s: "run (after_claim L E ?c) ?b = (Inr s, ?b\<lparr>refreshTokens := refreshTokens ?b @
        [minted_row L E (rt_userId row) (rt_familyId row) ?b], rng := rng ?b + 2\<rparr>)"
    by (auto simp: claimed_row_user [symmetric] burn_family_def) (simp add: claimed_row_def)
  let ?w' = "?b\<lparr>refreshTokens := refreshTokens ?b @ [minted_row L E (rt_userId row) (rt_familyId row) ?b], rng := rng ?b + 2\<rparr>"
  have 1: "pool_run env_step (w, [?p, ?p]) (?v, [after_claim L E ?c, ?p])"
    using pool_run_part [OF refresh_claims [OF assms(1-6)], of 0 "[?p, ?p]" env_step] by simp
  have 2: "pool_run env_step (?v, [after_claim L E ?c, ?p]) (?b, [after_claim L E ?c, Throw token_reuse])"
    using pool_run_part [OF part_to_end, of 1 "[after_claim L E ?c, ?p]" ?p env_step ?v] q by (simp add: finished_def)
  have 3: "pool_run env_step (?b, [after_claim L E ?c, Throw token_reuse]) (?w', [Ret s, Throw token_reuse])"
    using pool_run_part [OF part_to_end, of 0 "[after_claim L E ?c, Throw token_reuse]" "after_claim L E ?c" env_step ?b] s
    by (simp add: finished_def)
  have "pool_run env_step (w, [?p, ?p]) (?w', [Ret s, Throw token_reuse])"
    by (rule rtranclp_trans [OF rtranclp_trans [OF 1 2] 3])
  moreover have "\<exists>r \<in> set (refreshTokens ?w'). rt_familyId r = rt_familyId row \<and> rt_usedAt r = None \<and> clock ?w' < rt_expiresAt r"
    using REFRESH_MS_pos by (simp add: minted_row_def)
  ultimately show ?thesis by blast
qed

text \<open>C36. Password reset and its race: a reset deletes every session of the account, but a refresh
  that claimed its token just before stores the new one just after: both requests succeed, and a
  session opened before the reset is still alive after it.\<close>

theorem reset_session_race:
  assumes "pg w = Up" "rd w = Up" "db_ok w" "origin_ok E req" "presented E ck bd = Some token" "token \<noteq> []"
    "spendable L token w row" "find (active_email email) (users w) = Some u" "rt_userId row = u_id u"
    "redis_look w (pwreset_codeKey (u_id u)) = Some (sha256Hex L code)" "sha256Hex L code \<noteq> []"
    "redis_look w (pwreset_attemptsKey (u_id u)) = Some (show_int 0)"
    "\<forall>n \<ge> rng w. mintable L (u_id u) (w\<lparr>rng := n\<rparr>)"
  shows "\<exists>w'. pool_run env_step
      (w, map (serve L E) [Refresh req ck bd, ResetPassword email code password]) (w', [Ret (), Ret ()]) \<and>
    (\<exists>r \<in> set (refreshTokens w'). rt_userId r = u_id u \<and> rt_familyId r = rt_familyId row \<and> rt_usedAt r = None \<and>
       clock w' < rt_expiresAt r)"
proof -
  let ?p = "serve L E (Refresh req ck bd)" and ?q = "serve L E (ResetPassword email code password)"
  let ?v = "claim (sha256Hex L token) w" and ?c = "claimed_row w row"
  let ?ck = "pwreset_codeKey (u_id u)" and ?ak = "pwreset_attemptsKey (u_id u)"
  let ?d = "redis_drop ?ak (redis_drop ?ck (redis_keep_ttl ?ak (show_int 1) ?v))"
  let ?b = "reset_done L (u_id u) password ?d"
  have look: "redis_look ?v k = redis_look w k" for k by (simp add: redis_look_def)
  have q: "run ?q ?v = (Inr (), ?b)"
    using assms(1,2,8,10-12)
    by (simp add: reset_password_def run_pwreset_reset look Let_def truthy_str_iff pwreset_consts)
  have "rng w \<le> rng ?b"
    using after_audit_rng [of "?d\<lparr>rng := Suc (rng ?d), users := us, refreshTokens := rs\<rparr>" L "reset_entry (u_id u)" for us rs]
    by (auto simp: reset_done_def intro: Suc_leD)
  with assms(13) have "mintable L (u_id u) (w\<lparr>rng := rng ?b\<rparr>)" by blast
  moreover have "map u_id (users ?b) = map u_id (users w)" by (simp add: reset_done_def set_user_def)
  then have "u_id ` set (users ?b) = u_id ` set (users w)" by (metis list.set_map)
  moreover have "refreshTokens ?b = filter (\<lambda>r. rt_userId r \<noteq> u_id u) (refreshTokens ?v)" by (simp add: reset_done_def)
  ultimately have mint: "mintable L (u_id u) ?b"
    by (auto simp: mintable_def claim_def claimed_row_def image_iff split: if_splits)
  have "map_option u_id (find (active_email email) (users ?b)) = Some (u_id u)"
    using assms(8) by (simp add: reset_done_def find_active_id_update safe_user_update_def)
  then obtain x where x: "find (active_email email) (users ?b) = Some x" "u_id x = u_id u" by auto
  then have "\<exists>v \<in> set (users ?b). u_id v = u_id u \<and> notDeleted v"
    using find_Some_set [OF x(1)] by (auto simp: active_email_def notDeleted_def)
  then have "find (\<lambda>v. u_id v = u_id u \<and> notDeleted v) (users ?b) \<noteq> None" by (auto simp: find_None_iff)
  then obtain v where v: "find (\<lambda>v. u_id v = u_id u \<and> notDeleted v) (users ?b) = Some v" by blast
  have upb: "pg ?b = Up" using assms(1) by (simp add: reset_done_def)
  have "?c = ?c\<lparr>rt_userId := u_id u\<rparr>" using assms(9) by (simp add: claimed_row_def)
  with winner_logs_in [OF upb v mint, of E ?c] obtain s where
    s: "run (after_claim L E ?c) ?b = (Inr s, ?b\<lparr>refreshTokens := refreshTokens ?b @
        [minted_row L E (u_id u) (rt_familyId row) ?b], rng := rng ?b + 2\<rparr>)"
    by (auto simp: claimed_row_def)
  let ?w' = "?b\<lparr>refreshTokens := refreshTokens ?b @ [minted_row L E (u_id u) (rt_familyId row) ?b], rng := rng ?b + 2\<rparr>"
  have claim: "part (w, ?p) (?v, forget (after_claim L E ?c))"
    unfolding serve.simps forget_def by (rule part_bnd_left [OF refresh_claims [OF assms(1,3-7)]])
  have 1: "pool_run env_step (w, [?p, ?q]) (?v, [forget (after_claim L E ?c), ?q])"
    using pool_run_part [OF claim, of 0 "[?p, ?q]" env_step] by simp
  have 2: "pool_run env_step (?v, [forget (after_claim L E ?c), ?q]) (?b, [forget (after_claim L E ?c), Ret ()])"
    using pool_run_part [OF part_to_end, of 1 "[forget (after_claim L E ?c), ?q]" ?q env_step ?v] q by (simp add: finished_def)
  have "run (forget (after_claim L E ?c)) ?b = (Inr (), ?w')" using s by (simp add: forget_def run_simps)
  then have 3: "pool_run env_step (?b, [forget (after_claim L E ?c), Ret ()]) (?w', [Ret (), Ret ()])"
    using pool_run_part [OF part_to_end, of 0 "[forget (after_claim L E ?c), Ret ()]" "forget (after_claim L E ?c)" env_step ?b]
    by (simp add: finished_def)
  have "pool_run env_step (w, map (serve L E) [Refresh req ck bd, ResetPassword email code password]) (?w', [Ret (), Ret ()])"
    unfolding list.map by (rule rtranclp_trans [OF rtranclp_trans [OF 1 2] 3])
  moreover have "\<exists>r \<in> set (refreshTokens ?w'). rt_userId r = u_id u \<and> rt_familyId r = rt_familyId row \<and> rt_usedAt r = None \<and>
      clock ?w' < rt_expiresAt r"
    using REFRESH_MS_pos by (simp add: minted_row_def)
  ultimately show ?thesis by blast
qed

subsection \<open>A login code between its check and its marker\<close>

definition accept_code :: "lib \<Rightarrow> string \<Rightarrow> int \<Rightarrow> user \<Rightarrow> (world, user) prog" where
  "accept_code L tok c u =
     sequ (cache_set (lastCounterKey (u_id u)) (show_int c) (Some (PERIOD_SECONDS * 3)))
    (sequ (cache_del (challengeKey (sha256Hex L tok)))
    (sequ (cache_del (mfa_attemptsKey (sha256Hex L tok))) (Ret u)))"

text \<open>A challenge of the account \<open>u\<close> with \<open>n\<close> tries spent, and a code that may be accepted.\<close>

definition presentable :: "lib \<Rightarrow> env \<Rightarrow> string \<Rightarrow> string \<Rightarrow> user \<Rightarrow> int \<Rightarrow> int \<Rightarrow> world \<Rightarrow> bool" where
  "presentable L E tok code u c n w \<longleftrightarrow> pg w = Up \<and> rd w = Up \<and>
     redis_look w (challengeKey (sha256Hex L tok)) = Some (u_id u) \<and> u_id u \<noteq> [] \<and>
     redis_look w (mfa_attemptsKey (sha256Hex L tok)) = Some (show_int n) \<and>
     find (\<lambda>v. u_id v = u_id u \<and> notDeleted v) (users w) = Some u \<and>
     truthy_str (u_totpSecret u) \<and> u_totpEnabledAt u \<noteq> None \<and>
     counter_at L E (the (u_totpSecret u)) code (clock w) = Some c \<and>
     \<not> already_used (redis_look w (lastCounterKey (u_id u))) c"

abbreviation tried :: "lib \<Rightarrow> string \<Rightarrow> int \<Rightarrow> world \<Rightarrow> world" where
  "tried L tok n w \<equiv> redis_keep_ttl (mfa_attemptsKey (sha256Hex L tok)) (show_int n) w"

lemma consume_checks:
  assumes "presentable L E tok code u c n w" "n < 5"
  shows "part (w, consumeLoginChallenge L E tok code) (tried L tok (n + 1) w, accept_code L tok c u)"
proof -
  note * = assms(1) [unfolded presentable_def]
  let ?w = "tried L tok (n + 1) w"
  obtain x s where s: "u_totpSecret u = Some (x # s)"
    using * by (auto simp: truthy_str_iff neq_Nil_conv)
  obtain y where y: "u_totpEnabledAt u = Some y" using * by auto
  have few: "\<not> 5 \<le> n" using assms(2) by simp
  have id: "u_id u \<noteq> []" and new: "\<not> already_used (redis_look w (lastCounterKey (u_id u))) c" using * by simp_all
  have 1: "run (cache_get (challengeKey (sha256Hex L tok))) w = (Inr (Some (u_id u)), w)"
    and 2: "run (cache_incr (mfa_attemptsKey (sha256Hex L tok))) w = (Inr (n + 1), ?w)"
    and 3: "run (findActiveUser (u_id u)) ?w = (Inr (Some u), ?w)"
    and 4: "run (validateCode L E (x # s) code) ?w = (Inr (Some c), ?w)"
    and 5: "run (cache_get (lastCounterKey (u_id u))) ?w = (Inr (redis_look w (lastCounterKey (u_id u))), ?w)"
    using * s by (simp_all add: run_simps findActiveUser_def)
  show ?thesis
    unfolding consumeLoginChallenge_def Let_def
    apply (rule part_step [OF 1])
    apply (simp add: truthy_str_iff id)
    apply (rule part_step [OF 2])
    apply (simp add: totp_consts few)
    apply (rule part_step [OF 3])
    apply (simp add: s y truthy_str_iff)
    apply (rule part_step [OF 4])
    apply simp
    apply (rule part_step [OF 5])
    apply (simp add: new accept_code_def totp_consts part.here)
    done
qed

lemma presentable_tried:
  "presentable L E tok code u c n w \<Longrightarrow> presentable L E tok code u c m (tried L tok m w)"
  by (simp add: presentable_def)

lemma run_accept_code:
  "rd w = Up \<Longrightarrow> run (accept_code L tok c u) w = (Inr u, mfa_done L tok (u_id u) c w)"
  by (simp add: accept_code_def run_simps mfa_done_def totp_consts)

text \<open>C37. The single use of a login code and its race: the check of the marker and its writing are
  two commands, so one code with one challenge, presented twice at once, is accepted twice.\<close>

theorem code_accepted_twice:
  assumes "presentable L E tok code u c n w" "n < 4"
  shows "\<exists>w'. pool_run env_step (w, [consumeLoginChallenge L E tok code, consumeLoginChallenge L E tok code])
    (w', [Ret u, Ret u])"
proof -
  let ?p = "consumeLoginChallenge L E tok code" and ?a = "accept_code L tok c u"
  let ?w1 = "tried L tok (n + 1) w" and ?w2 = "tried L tok (n + 1 + 1) (tried L tok (n + 1) w)"
  let ?w3 = "mfa_done L tok (u_id u) c ?w2"
  let ?w4 = "mfa_done L tok (u_id u) c ?w3"
  have up: "rd ?w2 = Up" "rd ?w3 = Up" using assms(1) by (simp_all add: presentable_def mfa_done_def)
  note ends = run_accept_code [OF up(1), of L tok c u] run_accept_code [OF up(2), of L tok c u]
  have n: "n < 5" "n + 1 < 5" using assms(2) by simp_all
  have 1: "pool_run env_step (w, [?p, ?p]) (?w1, [?a, ?p])"
    using pool_run_part [OF consume_checks [OF assms(1) n(1)], of 0 "[?p, ?p]" env_step] by simp
  have 2: "pool_run env_step (?w1, [?a, ?p]) (?w2, [?a, ?a])"
    using pool_run_part [OF consume_checks [OF presentable_tried [OF assms(1)] n(2)], of 1 "[?a, ?p]" env_step] by simp
  have 3: "pool_run env_step (?w2, [?a, ?a]) (?w3, [Ret u, ?a])"
    using pool_run_part [OF part_to_end, of 0 "[?a, ?a]" ?a env_step ?w2] unfolding ends by (simp add: finished_def)
  have 4: "pool_run env_step (?w3, [Ret u, ?a]) (?w4, [Ret u, Ret u])"
    using pool_run_part [OF part_to_end, of 1 "[Ret u, ?a]" ?a env_step ?w3] unfolding ends by (simp add: finished_def)
  show ?thesis
    using rtranclp_trans [OF rtranclp_trans [OF rtranclp_trans [OF 1 2] 3] 4] by blast
qed

subsection \<open>Instances\<close>

theorem code_accepted_twice_witness:
  "\<exists>w'. pool_run env_step (mfa_world\<lparr>redis := (redis mfa_world)(mfa_attemptsKey ''hA'' \<mapsto> (show_int 0, Some 300000))\<rparr>,
     [consumeLoginChallenge demo_lib demo_env ''A'' ''0'', consumeLoginChallenge demo_lib demo_env ''A'' ''0''])
    (w', [Ret mfa_user, Ret mfa_user])"
  by (rule code_accepted_twice [where c = 0 and n = 0])
     (simp_all add: presentable_def mfa_world_def mfa_user_def redis_look_def notDeleted_def truthy_str_iff demo_counter
       demo_codes already_used_def demo_keys [symmetric])

lemma demo_mintable_all: "\<forall>n \<ge> i. mintable demo_lib ''alice'' (demo_world\<lparr>rng := n\<rparr>)"
  using demo_mintable by blast

theorem reuse_burn_race_witness:
  "\<exists>w' s. pool_run env_step (demo_world, [refresh demo_lib demo_env demo_request None (Some ''new''),
       refresh demo_lib demo_env demo_request None (Some ''new'')]) (w', [Ret s, Throw token_reuse]) \<and>
     (\<exists>r \<in> set (refreshTokens w'). rt_familyId r = ''family'' \<and> rt_usedAt r = None)"
  using reuse_burn_race [of demo_world demo_env demo_request None "Some ''new''" "''new''" demo_lib "demo_token ''new'' None"]
    demo_mintable_all [of 0]
  by (auto simp: origin_ok_def presented_def spendable_def)

theorem reset_session_race_witness:
  "\<exists>w'. pool_run env_step
      (demo_world\<lparr>redis := [pwreset_codeKey ''alice'' \<mapsto> (''h000000'', Some 300000), pwreset_attemptsKey ''alice'' \<mapsto> (show_int 0, Some 300000)]\<rparr>,
       map (serve demo_lib demo_env) [Refresh demo_request None (Some ''new''), ResetPassword ''alice@example.com'' ''000000'' ''new-password''])
      (w', [Ret (), Ret ()]) \<and> (\<exists>r \<in> set (refreshTokens w'). rt_usedAt r = None)"
proof -
  let ?w = "demo_world\<lparr>redis := [pwreset_codeKey ''alice'' \<mapsto> (''h000000'', Some 300000), pwreset_attemptsKey ''alice'' \<mapsto> (show_int 0, Some 300000)]\<rparr>"
  have "db_ok ?w" using demo_db_ok by (simp add: db_ok_cong [where w = demo_world and w' = ?w])
  moreover have "\<forall>n \<ge> rng ?w. mintable demo_lib ''alice'' (?w\<lparr>rng := n\<rparr>)"
    using demo_mintable_all [of 0] by (simp add: mintable_def)
  ultimately show ?thesis
    using reset_session_race [of ?w demo_env demo_request None "Some ''new''" "''new''" demo_lib "demo_token ''new'' None"
        "''alice@example.com''" demo_user "''000000''" "''new-password''"]
    by (auto simp: origin_ok_def presented_def spendable_def redis_look_def active_email_def)
qed

end
