(* ===== verification/Attempts.thy ===== *)
theory Attempts
  imports PasswordReset Totp
begin

text \<open>
  Guesses in parallel: any number of requests that present codes against one stored code at once, with
  outages and time passing in between. While the code is stored, no more requests are told about their
  code than the limit allows; the counter in Redis is a stock of verdicts.
\<close>

subsection \<open>Verdicts while something lasts\<close>

text \<open>
  \<open>gated A I S pz p k\<close>: as long as \<open>A\<close> lasts, every action of \<open>p\<close> keeps \<open>I\<close>, never takes the stock \<open>S\<close> and what
  the program holds, \<open>k\<close> at first, together above what they were, and \<open>p\<close> ends only in a result it
  holds as much for as \<open>pz\<close> says it is worth. Nothing is asked of what follows the end of \<open>A\<close>.
\<close>

primrec gated ::
  "('s \<Rightarrow> bool) \<Rightarrow> ('s \<Rightarrow> bool) \<Rightarrow> ('s \<Rightarrow> nat) \<Rightarrow> (exn + 'a \<Rightarrow> nat) \<Rightarrow> ('s, 'a) prog \<Rightarrow> nat \<Rightarrow> bool" where
  "gated A I S pz (Ret x) = (\<lambda>k. pz (Inr x) \<le> k)"
| "gated A I S pz (Throw e) = (\<lambda>k. pz (Inl e) \<le> k)"
| "gated A I S pz (Act u n) = (\<lambda>k. \<forall>s. A s \<longrightarrow> I s \<longrightarrow> A (u s) \<longrightarrow>
     I (u s) \<and> (\<exists>j. gated A I S pz (n s) j \<and> j + S (u s) \<le> k + S s))"

lemma gated_mono: "gated A I S pz p j \<Longrightarrow> j \<le> k \<Longrightarrow> gated A I S pz p k"
  by (induction p arbitrary: j k) (force+)

lemma gated_bnd:
  "gated A I S qz p k \<Longrightarrow> (\<And>x. gated A I S pz (f x) (qz (Inr x))) \<Longrightarrow> (\<And>e. pz (Inl e) \<le> qz (Inl e)) \<Longrightarrow>
   gated A I S pz (bnd p f) k"
proof (induction p arbitrary: k)
  case (Ret x)
  then show ?case using gated_mono [of A I S pz "f x" "qz (Inr x)" k] by simp
next
  case (Throw e)
  then show ?case using le_trans by fastforce
next
  case (Act u n)
  then show ?case by simp (metis rangeI)
qed

lemma gated_atom:
  assumes "\<And>s. A s \<Longrightarrow> I s \<Longrightarrow> A (snd (f s)) \<Longrightarrow> I (snd (f s)) \<and> pz (fst (f s)) + S (snd (f s)) \<le> k + S s"
  shows "gated A I S pz (atom f) k"
proof -
  have "\<exists>j. gated A I S pz (case fst (f s) of Inl e \<Rightarrow> Throw e | Inr x \<Rightarrow> Ret x) j \<and> j + S (snd (f s)) \<le> k + S s"
    if "A s" "I s" "A (snd (f s))" for s
    using assms [OF that] by (intro exI [of _ "pz (fst (f s))"]) (auto split: sum.split)
  with assms show ?thesis by (simp add: atom_def)
qed

definition outcome :: "(exn + 'a \<Rightarrow> nat) \<Rightarrow> ('s, 'a) prog \<Rightarrow> nat" where
  "outcome pz p = (case p of Ret x \<Rightarrow> pz (Inr x) | Throw e \<Rightarrow> pz (Inl e) | Act u n \<Rightarrow> 0)"

lemma gated_run:
  assumes run: "pool_run R (s, ps) (t, qs)" and "A t" "I s"
    and env: "\<And>s t. R s t \<Longrightarrow> A t \<Longrightarrow> A s \<and> (I s \<longrightarrow> I t \<and> S t \<le> S s)"
    and ps: "\<And>p. p \<in> set ps \<Longrightarrow> gated A I S pz p 0 \<and> all_steps (\<lambda>s t. A t \<longrightarrow> A s) p"
  shows "sum_list (map (outcome pz) qs) + S t \<le> S s"
proof -
  let ?G = "\<lambda>s t. A t \<longrightarrow> A s"
  have "(\<forall>q \<in> set qs. all_steps ?G q) \<and> (A t \<longrightarrow> A s \<and> I t \<and>
      (\<exists>ks. list_all2 (gated A I S pz) qs ks \<and> sum_list ks + S t \<le> S s))"
    using run
  proof (induction "(t, qs)" arbitrary: t qs rule: rtranclp_induct)
    case base
    have "list_all2 (gated A I S pz) ps (replicate (length ps) 0)"
      using ps by (simp add: list_all2_conv_all_nth)
    then show ?case using ps \<open>I s\<close> by (auto simp: sum_list_replicate intro!: exI [of _ "replicate (length ps) 0"])
  next
    case (step y)
    obtain t' qs' where y: "y = (t', qs')" by (cases y)
    from step(3) [OF y] have steps: "\<forall>q \<in> set qs'. all_steps ?G q"
      and inv: "A t' \<Longrightarrow> A s \<and> I t' \<and> (\<exists>ks. list_all2 (gated A I S pz) qs' ks \<and> sum_list ks + S t' \<le> S s)"
      by auto
    from step(2) [unfolded y] show ?case
    proof (cases rule: pool_step.cases)
      case (thread i u n)
      then have act: "all_steps ?G (Act u n)" using steps by (metis nth_mem)
      have qs: "\<forall>q \<in> set qs. all_steps ?G q"
        using act steps thread by (auto dest!: set_update_subset_insert [THEN subsetD])
      have "A s \<and> I t \<and> (\<exists>ks. list_all2 (gated A I S pz) qs ks \<and> sum_list ks + S t \<le> S s)" if "A t"
      proof -
        from act that thread have "A t'" by simp
        with inv obtain ks where *: "A s" "I t'" "list_all2 (gated A I S pz) qs' ks" "sum_list ks + S t' \<le> S s" by blast
        then have i: "i < length ks" and g: "gated A I S pz (Act u n) (ks ! i)"
          using thread by (auto dest: list_all2_nthD list_all2_lengthD)
        with \<open>A t'\<close> \<open>I t'\<close> \<open>A t\<close> thread obtain j where j: "I t" "gated A I S pz (n t') j" "j + S t \<le> ks ! i + S t'"
          by auto
        have "list_all2 (gated A I S pz) qs (ks[i := j])"
          using *(3) j(2) thread by (simp add: list_all2_update_cong)
        moreover have "sum_list (ks[i := j]) + ks ! i = sum_list ks + j" using i by (rule sum_list_update_nat)
        ultimately show ?thesis using * j by (intro conjI exI [of _ "ks[i := j]"]) simp_all
      qed
      with qs show ?thesis by blast
    next
      case environment
      with steps inv env [of t' t] show ?thesis by fastforce
    qed
  qed
  with \<open>A t\<close> obtain ks where "list_all2 (gated A I S pz) qs ks" "sum_list ks + S t \<le> S s" by blast
  moreover from this(1) have "sum_list (map (outcome pz) qs) \<le> sum_list ks"
  proof (induction rule: list_all2_induct)
    case (Cons q qs k ks)
    then show ?case by (cases q) (auto simp: outcome_def)
  qed simp
  ultimately show ?thesis by simp
qed

lemma gated_quiet:
  "all_steps (\<lambda>s t. A t \<longrightarrow> I s \<longrightarrow> I t \<and> S t \<le> S s) p \<Longrightarrow> (\<And>r. pz r \<le> k) \<Longrightarrow> gated A I S pz p k"
  by (induction p) (auto intro!: exI [of _ k])

lemma gated_first:
  assumes "\<And>s. A s \<Longrightarrow> I s \<Longrightarrow> A (snd (f s)) \<Longrightarrow> I (snd (f s)) \<and> S (snd (f s)) \<le> S s \<and>
    (case fst (f s) of Inl e \<Rightarrow> pz (Inl e) \<le> k | Inr x \<Rightarrow> gated A I S pz (g x) k)"
  shows "gated A I S pz (bnd (atom f) g) k"
proof -
  have "gated A I S pz (bnd (case fst (f s) of Inl e \<Rightarrow> Throw e | Inr x \<Rightarrow> Ret x) g) k"
    if "A s" "I s" "A (snd (f s))" for s
    using assms [OF that] by (auto split: sum.splits)
  with assms show ?thesis by (auto simp: atom_def intro!: exI [of _ k])
qed

subsection \<open>A code and its counter\<close>

text \<open>A request that ended in a verdict on its code: a result, or one of the errors \<open>W\<close>.\<close>

definition judged :: "(exn \<Rightarrow> bool) \<Rightarrow> exn + 'a \<Rightarrow> nat" where
  "judged W r = (case r of Inr x \<Rightarrow> 1 | Inl e \<Rightarrow> if W e then 1 else 0)"

definition answered :: "(exn \<Rightarrow> bool) \<Rightarrow> (world, 'a) prog \<Rightarrow> bool" where
  "answered W p \<longleftrightarrow> (case p of Ret x \<Rightarrow> True | Throw e \<Rightarrow> W e | Act u n \<Rightarrow> False)"

lemma judged_simps [simp]: "judged W (Inr x) = 1" "judged W (Inl e) = (if W e then 1 else 0)"
  by (simp_all add: judged_def)

text \<open>
  The errors \<open>W\<close> that judge a code are not those of an outage; \<open>K\<close> is what the service needs of the
  tables to come to the comparison at all.
\<close>

locale attempts =
  fixes ck ak :: string and limit :: nat and W :: "exn \<Rightarrow> bool" and K :: "world \<Rightarrow> bool"
  assumes keys: "ck \<noteq> ak"
    and faults: "\<not> W (timeout_error ms)"
    and tables_only: "users w' = users w \<Longrightarrow> K w \<Longrightarrow> K w'"
begin

abbreviation inv :: "world \<Rightarrow> bool" where
  "inv w \<equiv> counter_covers ck ak w \<and> K w"

abbreviation left :: "world \<Rightarrow> nat" where
  "left w \<equiv> limit - counter_value ak w"

lemma get_code:
  "gated (armed ck) inv left (\<lambda>r. case r of Inr x \<Rightarrow> if truthy_str x then 0 else 1 | Inl e \<Rightarrow> judged W r) (cache_get ck) 0"
  unfolding cache_get_def bounded_def over_link_def
  by (rule gated_atom) (auto simp: faults split: link.splits)

lemma count_attempt:
  "gated (armed ck) inv left (\<lambda>r. case r of Inr n \<Rightarrow> if n \<le> int limit then 1 else 0 | Inl e \<Rightarrow> judged W r) (cache_incr ak) 0"
proof -
  have "K (bumped ak w)" if "K w" for w by (rule tables_only [OF _ that]) simp
  then show ?thesis
    unfolding cache_incr_def bounded_def over_link_def
    by (intro gated_atom)
      (auto simp: faults incr_covered counter_covers_bumped keys counter_value_bumped split: link.splits)
qed

lemma burn: "gated (armed ck) inv left (judged W) (sequ (cache_del ck) q) k"
  unfolding sequ_def cache_del_def bounded_def over_link_def atom_def
  by (auto simp: faults split: link.splits intro!: exI [of _ k])

lemma guarded_code:
  assumes "gated (armed ck) inv left (judged W) none 1"
    and "\<And>stored. truthy_str stored \<Longrightarrow> gated (armed ck) inv left (judged W) (rest stored) 1"
  shows "gated (armed ck) inv left (judged W) (bnd (cache_get ck) (\<lambda>stored.
     if \<not> truthy_str stored then none
     else bnd (cache_incr ak) (\<lambda>n. if n > int limit then sequ (cache_del ck) q else rest stored))) 0"
proof (rule gated_bnd [OF get_code])
  show "gated (armed ck) inv left (judged W) (if \<not> truthy_str stored then none
     else bnd (cache_incr ak) (\<lambda>n. if n > int limit then sequ (cache_del ck) q else rest stored))
     (case Inr stored of Inl e \<Rightarrow> judged W (Inr stored) | Inr x \<Rightarrow> if truthy_str x then 0 else 1)" for stored
    using assms by (auto intro!: gated_bnd [OF count_attempt] burn)
qed simp

text \<open>Any number of such programs at once, in a state where the code is still stored at the end.\<close>

lemma verdicts_bounded:
  assumes "pool_run env_step (w, ps) (w', qs)" "armed ck w'" "inv w"
    and "\<And>p. p \<in> set ps \<Longrightarrow> gated (armed ck) inv left (judged W) p 0 \<and>
      all_steps (\<lambda>s t. armed ck t \<longrightarrow> armed ck s) p"
  shows "length (filter (answered W) qs) + (limit - counter_value ak w') \<le> limit - counter_value ak w"
proof -
  have env: "armed ck s \<and> (inv s \<longrightarrow> inv t \<and> left t \<le> left s)" if "env_step s t" "armed ck t" for s t
  proof -
    from that(1) obtain c p r m h where c: "clock s \<le> c" and t: "t = s\<lparr>clock := c, pg := p, rd := r, smtp := m, hook := h\<rparr>"
      by (auto simp: env_step_def)
    have look: "redis_look t k = redis_look (advance (c - clock s) s) k" for k
      by (simp add: redis_look_def t advance_def)
    with that(2) redis_look_advance [of "c - clock s" s ck] c redis_kv.look_elapse [of "c - clock s" s ck]
    have "armed ck s" by (auto simp: truthy_str_iff)
    moreover have "counter_covers ck ak s \<Longrightarrow> counter_covers ck ak t"
      using c by (simp add: counter_covers_def t)
    moreover have "counter_value ak t = counter_value ak s" by (simp add: counter_value_def t)
    moreover have "K s \<Longrightarrow> K t" by (rule tables_only) (simp_all add: t)
    ultimately show ?thesis by simp
  qed
  have "sum_list (map (outcome (judged W)) qs) + left w' \<le> left w"
    by (rule gated_run [where A = "armed ck" and I = inv and S = left, OF assms(1,2,3)]) (use env assms(4) in blast)+
  moreover have "sum_list (map (outcome (judged W)) qs) = length (filter (answered W) qs)"
    by (induction qs) (auto simp: answered_def outcome_def split: prog.split)
  ultimately show ?thesis by simp
qed

end

subsection \<open>The three codes\<close>

text \<open>Programs that do not bring a code back.\<close>

abbreviation unarming :: "string \<Rightarrow> world \<Rightarrow> world \<Rightarrow> bool" where
  "unarming ck s t \<equiv> armed ck t \<longrightarrow> armed ck s"

named_theorems unarms

lemma audit_row_frames [simp]:
  "redis (snd (insert_audit_row a w)) = redis w" "clock (snd (insert_audit_row a w)) = clock w"
  by (simp_all add: insert_audit_row_def)

lemma unarming_pg [unarms]:
  "all_steps (unarming ck) (select_user P)" "all_steps (unarming ck) (update_users P f)"
  "all_steps (unarming ck) (delete_tokens R)" "all_steps (unarming ck) (insert_audit L a b c d m i)"
  "all_steps (unarming ck) now" "all_steps (unarming ck) (draw g)"
  unfolding sql_defs now_def draw_def
  by (auto simp: redis_look_def intro!: all_steps_over_link all_steps_atom)

lemma unarming_redis [unarms]:
  "all_steps (unarming ck) (cache_get k)" "all_steps (unarming ck) (cache_del k)"
  "ck \<noteq> k \<Longrightarrow> all_steps (unarming ck) (cache_incr k)" "ck \<noteq> k \<Longrightarrow> all_steps (unarming ck) (cache_set k v t)"
  unfolding cache_defs redis_INCR_def redis_drop_def redis_keep_ttl_def redis_put_def
  by (auto simp: redis_look_def intro!: all_steps_over_link split: option.splits if_splits)

lemma unarming_services [unarms]:
  "all_steps (unarming ck) (findByEmail em)" "all_steps (unarming ck) (updatePassword L i p)"
  "all_steps (unarming ck) (revokeAllRefreshTokens i)" "all_steps (unarming ck) (recordAudit L e)"
  "all_steps (unarming ck) (findActiveUser i)" "all_steps (unarming ck) (validateCode L E s c)"
  unfolding findByEmail_def updatePassword_def revokeAllRefreshTokens_def recordAudit_def findActiveUser_def
    validateCode_def password_hash_def
  by (auto intro!: all_steps_intros unarms split: option.split)

interpretation otp_attempts: attempts "otp_codeKey u" "otp_attemptsKey u" OTP_MAX_ATTEMPTS "\<lambda>_. False" "\<lambda>_. True" for u
  by unfold_locales simp_all

lemma otp_gated:
  "gated (armed (otp_codeKey u)) (\<lambda>w. counter_covers (otp_codeKey u) (otp_attemptsKey u) w \<and> True)
     (\<lambda>w. OTP_MAX_ATTEMPTS - counter_value (otp_attemptsKey u) w) (judged (\<lambda>_. False)) (otp_verify L u code) 0"
  unfolding otp_verify_def
proof (rule otp_attempts.guarded_code)
  show "gated (armed (otp_codeKey u)) (\<lambda>w. counter_covers (otp_codeKey u) (otp_attemptsKey u) w \<and> True)
      (\<lambda>w. OTP_MAX_ATTEMPTS - counter_value (otp_attemptsKey u) w) (judged (\<lambda>_. False))
      (if Some (hashCode L code) \<noteq> stored then Ret False else sequ (cache_del (otp_codeKey u)) q) 1" for stored q
    by (cases "Some (hashCode L code) \<noteq> stored") (simp_all only: if_True if_False not_False_eq_True otp_attempts.burn gated.simps judged_simps order_refl)
qed simp

lemma otp_unarming: "all_steps (unarming (otp_codeKey u)) (otp_verify L u code)"
  unfolding otp_verify_def by (auto intro!: all_steps_intros unarms)

text \<open>The reset code of the account \<open>i\<close> with the address \<open>email\<close>.\<close>

definition account_of :: "string \<Rightarrow> string \<Rightarrow> world \<Rightarrow> bool" where
  "account_of email i w \<longleftrightarrow> (\<exists>u. find (active_email email) (users w) = Some u \<and> u_id u = i)"

interpretation reset_attempts: attempts "pwreset_codeKey i" "pwreset_attemptsKey i" PWRESET_MAX_ATTEMPTS
    "\<lambda>e. e = reset_invalid" "account_of email i" for i email
  by unfold_locales (simp_all add: timeout_error_def reset_invalid_def bad_request_def account_of_def)

lemma account_of_id: "account_of email i w \<Longrightarrow> find (active_email email) (users w) = Some u \<Longrightarrow> u_id u = i"
  and account_of_found: "account_of email i w \<Longrightarrow> find (active_email email) (users w) \<noteq> None"
  by (auto simp: account_of_def)

lemma no_fault: "DrizzleQueryError c \<noteq> reset_invalid"
  by (simp add: reset_invalid_def bad_request_def DrizzleQueryError_def)

lemma reset_gated:
  "gated (armed (pwreset_codeKey i)) (\<lambda>w. counter_covers (pwreset_codeKey i) (pwreset_attemptsKey i) w \<and> account_of email i w)
     (\<lambda>w. PWRESET_MAX_ATTEMPTS - counter_value (pwreset_attemptsKey i) w) (judged (\<lambda>e. e = reset_invalid))
     (pwreset_reset L email code pw) 0"
proof -
  have rest: "gated (armed (pwreset_codeKey i))
      (\<lambda>w. counter_covers (pwreset_codeKey i) (pwreset_attemptsKey i) w \<and> account_of email i w)
      (\<lambda>w. PWRESET_MAX_ATTEMPTS - counter_value (pwreset_attemptsKey i) w) (judged (\<lambda>e. e = reset_invalid))
      (bnd (cache_get (pwreset_codeKey j)) (\<lambda>stored.
         if \<not> truthy_str stored then Throw reset_invalid
         else bnd (cache_incr (pwreset_attemptsKey j)) (\<lambda>attempts.
           if attempts > int PWRESET_MAX_ATTEMPTS then sequ (cache_del (pwreset_codeKey j)) (Throw too_many_attempts)
           else if Some (sha256Hex L code) \<noteq> stored then Throw reset_invalid
           else sequ (cache_del (pwreset_codeKey j)) q))) 0" if "j = i" for q :: "(world, unit) prog" and j
    unfolding that by (rule reset_attempts.guarded_code) (auto intro: reset_attempts.burn)
  show ?thesis
    unfolding pwreset_reset_def findByEmail_def select_user_def pg_call_def over_link_def active_email_find
    by (rule gated_first)
      (auto simp: no_fault dest: account_of_found intro: rest account_of_id split: link.splits option.splits)
qed

text \<open>Identifiers are UUIDs, so no code key is the counter key of another account.\<close>

lemma reset_keys_apart: "take 9 i \<noteq> ''attempts:'' \<Longrightarrow> pwreset_codeKey i \<noteq> pwreset_attemptsKey j"
  by (auto simp: pwreset_codeKey_def pwreset_attemptsKey_def)

lemma reset_unarming:
  "take 9 i \<noteq> ''attempts:'' \<Longrightarrow> all_steps (unarming (pwreset_codeKey i)) (pwreset_reset L email code pw)"
  unfolding pwreset_reset_def by (auto intro!: all_steps_intros unarms reset_keys_apart split: option.split)

text \<open>The login challenge with the hash \<open>h\<close>: these two errors tell the client about its code.\<close>

definition code_error :: "exn \<Rightarrow> bool" where
  "code_error e \<longleftrightarrow> e \<in> {mfa_error ''Invalid code'', mfa_error ''Code already used''}"

interpretation mfa_attempts: attempts "challengeKey h" "mfa_attemptsKey h" MFA_MAX_ATTEMPTS code_error "\<lambda>_. True" for h
  by unfold_locales (simp_all add: code_error_def timeout_error_def mfa_error_def)

abbreviation mfa_gated :: "string \<Rightarrow> (world, 'a) prog \<Rightarrow> nat \<Rightarrow> bool" where
  "mfa_gated h \<equiv> gated (armed (challengeKey h)) (\<lambda>w. counter_covers (challengeKey h) (mfa_attemptsKey h) w \<and> True)
     (\<lambda>w. MFA_MAX_ATTEMPTS - counter_value (mfa_attemptsKey h) w) (judged code_error)"

lemma judged_le: "judged W r \<le> 1"
  by (cases r) simp_all

abbreviation mfa_still :: "string \<Rightarrow> world \<Rightarrow> world \<Rightarrow> bool" where
  "mfa_still h s t \<equiv> redis t (challengeKey h) = redis s (challengeKey h) \<and>
     redis t (mfa_attemptsKey h) = redis s (mfa_attemptsKey h) \<and> clock t = clock s"

lemma mfa_quiet:
  "all_steps (mfa_still h) p \<Longrightarrow> (\<And>r. pz r \<le> k) \<Longrightarrow>
   gated (armed (challengeKey h)) (\<lambda>w. counter_covers (challengeKey h) (mfa_attemptsKey h) w \<and> True)
     (\<lambda>w. MFA_MAX_ATTEMPTS - counter_value (mfa_attemptsKey h) w) pz p k"
  by (rule gated_quiet, erule all_steps_mono) (auto simp: counter_value_def counter_covers_def)

lemma mfa_bnd: "all_steps (mfa_still h) p \<Longrightarrow> (\<And>x. mfa_gated h (f x) 1) \<Longrightarrow> mfa_gated h (bnd p f) 1"
  by (rule gated_bnd [where qz = "\<lambda>_. 1"], erule mfa_quiet) (assumption | rule judged_le order_refl)+

lemma mfa_sequ: "all_steps (mfa_still h) p \<Longrightarrow> mfa_gated h q 1 \<Longrightarrow> mfa_gated h (sequ p q) 1"
  unfolding sequ_def by (rule mfa_bnd)

lemma mfa_throw: "mfa_gated h (Throw e) 1"
  by simp

lemma mfa_split:
  "(b \<Longrightarrow> mfa_gated h p 1) \<Longrightarrow> (\<not> b \<Longrightarrow> mfa_gated h q 1) \<Longrightarrow> mfa_gated h (if b then p else q) 1"
  "mfa_gated h p 1 \<Longrightarrow> (\<And>x. mfa_gated h (f x) 1) \<Longrightarrow> mfa_gated h (case found of None \<Rightarrow> p | Some x \<Rightarrow> f x) 1"
  by (simp_all split: option.split)

lemma mfa_still_leaves:
  "all_steps (mfa_still h) (findActiveUser i)" "all_steps (mfa_still h) (validateCode L E s c)"
  "all_steps (mfa_still h) (cache_get k)" "all_steps (mfa_still h) (cache_set (lastCounterKey u) v t)"
  unfolding findActiveUser_def validateCode_def sql_defs now_def cache_defs
  by (auto intro!: all_steps_intros all_steps_over_link all_steps_atom simp: redis_put_def split: option.splits)

lemma mfa_gated: "mfa_gated (sha256Hex L tok) (consumeLoginChallenge L E tok code) 0"
  unfolding consumeLoginChallenge_def Let_def
  by (rule mfa_attempts.guarded_code)
    (rule mfa_attempts.burn mfa_split mfa_throw mfa_bnd mfa_sequ mfa_still_leaves)+

lemma mfa_unarming: "all_steps (unarming (challengeKey (sha256Hex L tok))) (consumeLoginChallenge L E tok code)"
  unfolding consumeLoginChallenge_def Let_def
  by (auto intro!: all_steps_intros unarms split: option.split)

text \<open>C16. However many second factors are presented at once with one login challenge, with outages and
  time passing anywhere in between: at most five of them are told about their code or let in, for as long
  as the challenge has not ended.\<close>

theorem parallel_guesses_bounded:
  assumes "rd w0 = Up" "run (createLoginChallenge L userId) w0 = (Inr tok, w)"
    and "pool_run env_step (w, map (consumeLoginChallenge L E tok) codes) (w', qs)"
    and "armed (challengeKey (sha256Hex L tok)) w'"
  shows "length (filter (answered code_error) qs) \<le> 5"
proof -
  have w: "w = challenge_stored L userId tok w0" using assms(2) by (auto simp: run_createLoginChallenge [OF assms(1)])
  have "length (filter (answered code_error) qs) + (MFA_MAX_ATTEMPTS - counter_value (mfa_attemptsKey (sha256Hex L tok)) w')
      \<le> MFA_MAX_ATTEMPTS - counter_value (mfa_attemptsKey (sha256Hex L tok)) w"
    by (rule mfa_attempts.verdicts_bounded [OF assms(3,4)])
      (auto simp: w challenge_covers_stored mfa_gated [simplified] mfa_unarming)
  then show ?thesis by (simp add: w challenge_counter_stored totp_consts)
qed

text \<open>The same for the code of a password reset, and for that of a verification.\<close>

lemma parallel_resets_bounded:
  assumes "find (active_email email) (users w0) = Some u" "take 9 (u_id u) \<noteq> ''attempts:''"
    and "pool_run env_step (mail_queued E m (pwreset_stored L (u_id u) code w0),
      map (\<lambda>(c, pw). pwreset_reset L email c pw) tries) (w', qs)"
    and "armed (pwreset_codeKey (u_id u)) w'"
  shows "length (filter (answered (\<lambda>e. e = reset_invalid)) qs) \<le> 5"
proof -
  let ?w = "mail_queued E m (pwreset_stored L (u_id u) code w0)"
  have who: "account_of email (u_id u) ?w" using assms(1) by (simp add: account_of_def)
  have "length (filter (answered (\<lambda>e. e = reset_invalid)) qs)
        + (PWRESET_MAX_ATTEMPTS - counter_value (pwreset_attemptsKey (u_id u)) w')
      \<le> PWRESET_MAX_ATTEMPTS - counter_value (pwreset_attemptsKey (u_id u)) ?w"
    by (rule reset_attempts.verdicts_bounded [OF assms(3,4), where email = email])
      (auto simp: who pwreset_covers_stored reset_gated reset_unarming [OF assms(2)])
  then show ?thesis by (simp add: pwreset_counter_stored pwreset_consts)
qed

lemma parallel_verifications_bounded:
  assumes "pool_run env_step (mail_queued E m (otp_stored L userId code w0), map (otp_verify L userId) codes) (w', qs)"
    and "armed (otp_codeKey userId) w'"
  shows "length (filter (answered (\<lambda>_. False)) qs) \<le> 5"
proof -
  let ?w = "mail_queued E m (otp_stored L userId code w0)"
  have "length (filter (answered (\<lambda>_. False)) qs) + (OTP_MAX_ATTEMPTS - counter_value (otp_attemptsKey userId) w')
      \<le> OTP_MAX_ATTEMPTS - counter_value (otp_attemptsKey userId) ?w"
    by (rule otp_attempts.verdicts_bounded [OF assms(1,2)])
      (auto simp: otp_covers_stored otp_gated [simplified] otp_unarming)
  then show ?thesis by (simp add: otp_counter_stored otp_consts)
qed

subsection \<open>Instances\<close>

text \<open>Two wrong codes, one after the other.\<close>

theorem parallel_guesses_bounded_witness:
  "\<exists>w tok w'. run (createLoginChallenge demo_lib ''alice'') (demo_world\<lparr>users := [mfa_user]\<rparr>) = (Inr tok, w) \<and>
     pool_run env_step (w, map (consumeLoginChallenge demo_lib demo_env tok) [''2'', ''2''])
       (w', [Throw (mfa_error ''Invalid code''), Throw (mfa_error ''Invalid code'')]) \<and>
     length (filter (answered code_error) [Throw (mfa_error ''Invalid code''), Throw (mfa_error ''Invalid code'') :: (world, user) prog]) \<le> 5"
proof -
  let ?start = "demo_world\<lparr>users := [mfa_user]\<rparr>" and ?tok = "base64url (rand_bytes demo_lib 0 32)"
  let ?w = "challenge_stored demo_lib ''alice'' ?tok ?start"
  let ?p = "consumeLoginChallenge demo_lib demo_env ?tok ''2''" and ?ak = "mfa_attemptsKey (sha256Hex demo_lib ?tok)"
  let ?ck = "challengeKey (sha256Hex demo_lib ?tok)" and ?e = "mfa_error ''Invalid code''"
  have start: "run (createLoginChallenge demo_lib ''alice'') ?start = (Inr ?tok, ?w)"
    by (simp add: run_createLoginChallenge)
  have look: "redis_look ?w ?ck = Some ''alice''" "counter_value ?ak ?w = 0" "counter_covers ?ck ?ak ?w"
    by (simp add: challenge_stored_def redis_look_def redis_put_def totp_consts)
      (rule challenge_counter_stored challenge_covers_stored)+
  have wrong: "run ?p v = (Inl ?e, bumped ?ak v)"
    if "pg v = Up" "rd v = Up" "users v = [mfa_user]" "clock v = 1000" "redis_look v ?ck = Some ''alice''"
      "counter_covers ?ck ?ak v" "counter_value ?ak v < 5" for v
  proof -
    have "redis_INCR ?ak v = (Inr (int (counter_value ?ak v) + 1), bumped ?ak v)"
      by (rule incr_covered [OF that(6)]) (use that(5) in \<open>simp add: truthy_str_iff\<close>)
    with that show ?thesis
      unfolding run_consumeLoginChallenge [OF that(1,2)]
      by (simp add: Let_def mfa_check_def demo_counter demo_codes mfa_user_def notDeleted_def truthy_str_iff totp_consts)
  qed
  have frames: "pg ?w = Up" "rd ?w = Up" "users ?w = [mfa_user]" "clock ?w = 1000"
    by (simp_all add: challenge_stored_def)
  have 1: "run ?p ?w = (Inl ?e, bumped ?ak ?w)"
    by (rule wrong) (use frames look in simp_all)
  have "counter_covers ?ck ?ak (bumped ?ak ?w)"
    by (rule counter_covers_bumped [OF look(3)]) (use look(1) in \<open>simp_all add: truthy_str_iff\<close>)
  then have 2: "run ?p (bumped ?ak ?w) = (Inl ?e, bumped ?ak (bumped ?ak ?w))"
    by (intro wrong) (use frames look in \<open>simp_all add: counter_value_bumped\<close>)
  have pool: "pool_run env_step (?w, map (consumeLoginChallenge demo_lib demo_env ?tok) [''2'', ''2''])
      (bumped ?ak (bumped ?ak ?w), [Throw ?e, Throw ?e])"
    using pool_run_both [of env_step ?w ?p ?p] by (simp only: 1 2 finished_def fst_conv snd_conv sum.case list.map)
  have "armed ?ck (bumped ?ak (bumped ?ak ?w))"
    using look(1) by (simp add: truthy_str_iff)
  from parallel_guesses_bounded [OF _ start pool this] start pool show ?thesis by (intro exI conjI) simp_all
qed

end
