(* ===== verification/Observability.thy ===== *)
theory Observability
  imports Config Complex_Main
begin

text \<open>
  Logging and its destinations (\<open>src/lib/logger.ts\<close>), the request log (\<open>src/plugins/logger.ts\<close>), the
  metrics (\<open>src/plugins/metrics.ts\<close>), tracing (\<open>src/plugins/otel.ts\<close>), and the column spreading of
  \<open>src/db/utils.ts\<close>.
\<close>

subsection \<open>Rotated log files\<close>

definition pad2 :: "nat \<Rightarrow> string" where
  "pad2 n = pad_start 2 (CHR ''0'') (show_nat n)"

text \<open>A local date: year, month index (from 0), day.\<close>

record local_date =
  ld_year :: nat
  ld_month :: nat
  ld_day :: nat

text \<open>\<open>s.replace(/\.log$/, "")\<close>\<close>

definition strip_log :: "string \<Rightarrow> string" where
  "strip_log s = (if drop (length s - 4) s = ''.log'' then take (length s - 4) s else s)"

definition rotatedName :: "env \<Rightarrow> local_date option \<Rightarrow> nat option \<Rightarrow> string" where
  "rotatedName E time index =
     (case time of
        None \<Rightarrow> LOG_FILE E
      | Some d \<Rightarrow>
          strip_log (LOG_FILE E) @ ''-'' @
          show_nat (ld_year d) @ pad2 (ld_month d + 1) @ pad2 (ld_day d) @ ''-'' @
          (case index of None \<Rightarrow> ''undefined'' | Some i \<Rightarrow> show_nat i) @ ''.log'')"

subsection \<open>The logger\<close>

definition log_level :: "env \<Rightarrow> string" where
  "log_level E = (if isTest E then ''silent'' else LOG_LEVEL E)"

definition log_redact :: "string list" where
  "log_redact = [''req.headers.authorization'', ''headers.authorization'', ''password'', ''*.password'',
     ''accessToken'', ''*.accessToken'', ''refreshToken'', ''*.refreshToken'']"

text \<open>The options of the rotating stream; \<open>fo_gzip\<close> is \<open>compress: "gzip"\<close>.\<close>

record file_opts =
  fo_path :: string
  fo_size :: string
  fo_interval :: string
  fo_maxFiles :: int
  fo_gzip :: bool

definition fileStream :: "env \<Rightarrow> file_opts option" where
  "fileStream E =
     (if isTest E then None
      else Some \<lparr>fo_path = LOG_DIR E, fo_size = LOG_ROTATE_SIZE E, fo_interval = LOG_ROTATE_INTERVAL E,
                 fo_maxFiles = LOG_MAX_FILES E, fo_gzip = LOG_COMPRESS E\<rparr>)"

datatype log_sink = StdoutSync | PrettyConsole | RotatedFile file_opts

definition log_sinks :: "env \<Rightarrow> log_sink list" where
  "log_sinks E =
     (if isTest E then [StdoutSync]
      else if isProduction E then map RotatedFile (case fileStream E of None \<Rightarrow> [] | Some f \<Rightarrow> [f])
      else PrettyConsole # map RotatedFile (case fileStream E of None \<Rightarrow> [] | Some f \<Rightarrow> [f]))"

text \<open>Production writes to the file only, tests touch no file.\<close>

lemma log_sinks_cases:
  "NODE_ENV E = Test \<Longrightarrow> log_sinks E = [StdoutSync] \<and> log_level E = ''silent''"
  "NODE_ENV E = Production \<Longrightarrow> \<exists>f. log_sinks E = [RotatedFile f] \<and> fo_path f = LOG_DIR E"
  "NODE_ENV E = Development \<Longrightarrow> \<exists>f. log_sinks E = [PrettyConsole, RotatedFile f] \<and> fo_path f = LOG_DIR E"
  by (simp_all add: log_sinks_def log_level_def fileStream_def isTest_def isProduction_def)

subsection \<open>The request log\<close>

text \<open>What \<open>derive\<close> adds to the context of a matched route: the id, the start, the bindings of the child logger.\<close>

record log_context =
  lc_requestId :: string
  lc_startedAt :: rat
  lc_bindings :: "(string \<times> string) list"

definition logger_derive :: "string \<Rightarrow> string option \<Rightarrow> rat \<Rightarrow> log_context" where
  "logger_derive requestId traceId t =
     \<lparr>lc_requestId = requestId, lc_startedAt = t,
      lc_bindings = (if truthy_str traceId then [(''requestId'', requestId), (''traceId'', the traceId)]
                     else [(''requestId'', requestId)])\<rparr>"

text \<open>\<open>Number(x.toFixed(1))\<close>: the nearest tenth, the larger of two.\<close>

definition toFixed1 :: "rat \<Rightarrow> rat" where
  "toFixed1 x = (if x < 0 then - of_int \<lfloor>10 * (- x) + 1 / 2\<rfloor> / 10 else of_int \<lfloor>10 * x + 1 / 2\<rfloor> / 10)"

record log_entry =
  le_bindings :: "(string \<times> string) list"
  le_method :: string
  le_path :: string
  le_status :: "nat option"
  le_durationMs :: "rat option"

text \<open>\<open>ctx\<close> is \<open>None\<close> on an unmatched route, where \<open>derive\<close> has not run.\<close>

definition request_log :: "string \<Rightarrow> string \<Rightarrow> nat option \<Rightarrow> log_context option \<Rightarrow> rat \<Rightarrow> log_entry" where
  "request_log meth path status ctx t =
     \<lparr>le_bindings = (case ctx of None \<Rightarrow> [] | Some c \<Rightarrow> lc_bindings c), le_method = meth, le_path = path,
      le_status = status,
      le_durationMs = (case ctx of None \<Rightarrow> None | Some c \<Rightarrow> Some (toFixed1 (t - lc_startedAt c)))\<rparr>"

lemma toFixed1_near: "\<bar>toFixed1 x - x\<bar> \<le> 1 / 20"
proof -
  have near: "\<bar>of_int \<lfloor>10 * y + 1 / 2\<rfloor> / 10 - y\<bar> \<le> 1 / 20" for y :: rat
  proof -
    define z where "z = (of_int \<lfloor>10 * y + 1 / 2\<rfloor> :: rat)"
    have "z \<le> 10 * y + 1 / 2" "10 * y + 1 / 2 < z + 1"
      unfolding z_def using floor_correct [of "10 * y + 1 / 2"] by simp_all
    then have "z / 10 - y \<le> 1 / 20" "- (z / 10 - y) \<le> 1 / 20" by simp_all
    then show ?thesis unfolding z_def by (rule abs_leI)
  qed
  show ?thesis
  proof (cases "x < 0")
    case True
    have "toFixed1 x - x = - (of_int \<lfloor>10 * (- x) + 1 / 2\<rfloor> / 10 - (- x))"
      using True by (simp only: toFixed1_def if_True minus_divide_left [symmetric])
    then show ?thesis using near [of "- x"] by (simp only: abs_minus_cancel)
  next
    case False
    then show ?thesis using near [of x] by (simp only: toFixed1_def if_False)
  qed
qed

subsection \<open>Tracing\<close>

text \<open>A span processor: one given by the caller, or the batching exporter to an address.\<close>

datatype span_processor = GivenProcessor nat | BatchExporter string

record otel_opts =
  ot_serviceName :: string
  ot_spanProcessors :: "span_processor list"

definition buildOtelPlugin :: "env \<Rightarrow> span_processor list option \<Rightarrow> otel_opts" where
  "buildOtelPlugin E spanProcessors =
     \<lparr>ot_serviceName = OTEL_SERVICE_NAME E,
      ot_spanProcessors = default_arg [BatchExporter (OTEL_EXPORTER_OTLP_ENDPOINT E @ ''/v1/traces'')] spanProcessors\<rparr>"

text \<open>\<open>None\<close> is the inert plugin.\<close>

definition otelPlugin :: "env \<Rightarrow> otel_opts option" where
  "otelPlugin E = (if OTEL_ENABLED E then Some (buildOtelPlugin E None) else None)"

subsection \<open>Request metrics\<close>

type_synonym labels = "string \<times> string \<times> string"

text \<open>The counter by labels, and the observations of the histogram, oldest first, in seconds.\<close>

record metrics =
  mx_total :: "labels \<Rightarrow> nat"
  mx_duration :: "(labels \<times> rat) list"

definition metric_labels :: "string \<Rightarrow> string \<Rightarrow> nat option \<Rightarrow> labels" where
  "metric_labels meth route status =
     (meth, (if route = [] then ''unmatched'' else route), show_nat (default_arg 200 status))"

definition onAfterResponse :: "string \<Rightarrow> string \<Rightarrow> nat option \<Rightarrow> rat option \<Rightarrow> rat \<Rightarrow> metrics \<Rightarrow> metrics" where
  "onAfterResponse meth route status metricStart t m =
     (let ls = metric_labels meth route status;
          m1 = m\<lparr>mx_total := (mx_total m)(ls := Suc (mx_total m ls))\<rparr> in
      case metricStart of
        None \<Rightarrow> m1
      | Some t0 \<Rightarrow> m1\<lparr>mx_duration := mx_duration m1 @ [(ls, (t - t0) / 1000)]\<rparr>)"

text \<open>
  The samples of the gauge \<open>queue_jobs\<close>: none without a queue or when the counts cannot be read.
\<close>

definition queue_gauge :: "bool \<Rightarrow> string \<Rightarrow> (exn + (string \<times> int) list) \<Rightarrow> ((string \<times> string) \<times> int) list" where
  "queue_gauge has_bull queue counts =
     (if \<not> has_bull then []
      else (case counts of Inl e \<Rightarrow> [] | Inr cs \<Rightarrow> map (\<lambda>(state, n). ((queue, state), n)) cs))"

definition duration_buckets :: "rat list" where
  "duration_buckets = [5 / 1000, 1 / 100, 25 / 1000, 5 / 100, 1 / 10, 25 / 100, 5 / 10, 1, 25 / 10, 5]"

lemma buckets_increase: "sorted_wrt (<) duration_buckets"
  by (simp add: duration_buckets_def)

record response =
  rp_method :: string
  rp_route :: string
  rp_status :: "nat option"
  rp_start :: "rat option"
  rp_end :: rat

fun observe_all :: "response list \<Rightarrow> metrics \<Rightarrow> metrics" where
  "observe_all [] m = m"
| "observe_all (r # rs) m =
     observe_all rs (onAfterResponse (rp_method r) (rp_route r) (rp_status r) (rp_start r) (rp_end r) m)"

definition response_labels :: "response \<Rightarrow> labels" where
  "response_labels r = metric_labels (rp_method r) (rp_route r) (rp_status r)"

lemma onAfterResponse_total:
  "mx_total (onAfterResponse meth route status st t m) ls =
     (if metric_labels meth route status = ls then Suc (mx_total m ls) else mx_total m ls)"
  by (simp add: onAfterResponse_def Let_def split: option.split)

lemma onAfterResponse_duration:
  "mx_duration (onAfterResponse meth route status st t m) =
     mx_duration m @ (case st of None \<Rightarrow> [] | Some t0 \<Rightarrow> [(metric_labels meth route status, (t - t0) / 1000)])"
  by (simp add: onAfterResponse_def Let_def split: option.split)

lemma observe_all_total:
  "mx_total (observe_all rs m) ls = mx_total m ls + length (filter (\<lambda>r. response_labels r = ls) rs)"
  by (induction rs arbitrary: m) (simp_all add: onAfterResponse_total response_labels_def)

lemma observe_all_duration:
  "length (mx_duration (observe_all rs m)) = length (mx_duration m) + length (filter (\<lambda>r. rp_start r \<noteq> None) rs)"
  by (induction rs arbitrary: m) (simp_all add: onAfterResponse_duration split: option.split)

text \<open>\<open>GET /metrics\<close>: the registry's own text and content type, which prom-client makes.\<close>

record scrape =
  sp_contentType :: string
  sp_body :: string

definition metrics_endpoint :: "string \<Rightarrow> (metrics \<Rightarrow> string) \<Rightarrow> metrics \<Rightarrow> scrape" where
  "metrics_endpoint contentType expose m = \<lparr>sp_contentType = contentType, sp_body = expose m\<rparr>"

subsection \<open>Column schemas\<close>

text \<open>
  A schema is a TypeBox object (it has a \<open>Kind\<close>) or a Drizzle table; the two constructors of
  drizzle-typebox are parameters. Fields are in property order; \<open>assign\<close> is \<open>newSchema[key] = v\<close>.
\<close>

datatype 'v type_schema = TObject "(string \<times> 'v) list" | Table string

datatype spread_mode = SelectMode | InsertMode

fun assign :: "string \<Rightarrow> 'v \<Rightarrow> (string \<times> 'v) list \<Rightarrow> (string \<times> 'v) list" where
  "assign k v [] = [(k, v)]"
| "assign k v ((k', v') # rest) = (if k' = k then (k, v) # rest else (k', v') # assign k v rest)"

definition copy_fields :: "(string \<times> 'v) list \<Rightarrow> (string \<times> 'v) list" where
  "copy_fields props = fold (\<lambda>(k, v). assign k v) props []"

definition spread :: "(string \<Rightarrow> (string \<times> 'v) list) \<Rightarrow> (string \<Rightarrow> (string \<times> 'v) list) \<Rightarrow>
    'v type_schema \<Rightarrow> spread_mode option \<Rightarrow> exn + (string \<times> 'v) list" where
  "spread createInsertSchema createSelectSchema schema mode =
     (case mode of
        Some m \<Rightarrow>
          (case schema of
             TObject props \<Rightarrow> Inr (copy_fields props)
           | Table t \<Rightarrow> Inr (copy_fields (if m = InsertMode then createInsertSchema t else createSelectSchema t)))
      | None \<Rightarrow>
          (case schema of
             TObject props \<Rightarrow> Inr (copy_fields props)
           | Table t \<Rightarrow> Inl (Thrown (js_Error ''Expect a schema''))))"

fun spreads :: "(string \<Rightarrow> (string \<times> 'v) list) \<Rightarrow> (string \<Rightarrow> (string \<times> 'v) list) \<Rightarrow>
    (string \<times> 'v type_schema) list \<Rightarrow> spread_mode option \<Rightarrow> exn + (string \<times> (string \<times> 'v) list) list" where
  "spreads ci cs [] mode = Inr []"
| "spreads ci cs ((key, schema) # models) mode =
     (case spread ci cs schema mode of
        Inl e \<Rightarrow> Inl e
      | Inr s \<Rightarrow> (case spreads ci cs models mode of Inl e \<Rightarrow> Inl e | Inr rest \<Rightarrow> Inr ((key, s) # rest)))"

lemma assign_new: "k \<notin> fst ` set xs \<Longrightarrow> assign k v xs = xs @ [(k, v)]"
  by (induction xs) auto

lemma fold_assign:
  "distinct (map fst props) \<Longrightarrow> fst ` set props \<inter> fst ` set acc = {} \<Longrightarrow>
   fold (\<lambda>(k, v). assign k v) props acc = acc @ props"
proof (induction props arbitrary: acc)
  case (Cons p props)
  obtain k v where p: "p = (k, v)" by (cases p)
  with Cons.prems have "assign k v acc = acc @ [(k, v)]" by (intro assign_new) auto
  moreover have "fold (\<lambda>(k, v). assign k v) props (acc @ [(k, v)]) = (acc @ [(k, v)]) @ props"
    using Cons.prems p by (intro Cons.IH) auto
  ultimately show ?case using p by simp
qed simp

lemma copy_fields_id: "distinct (map fst props) \<Longrightarrow> copy_fields props = props"
  by (simp add: copy_fields_def fold_assign)

end
