(* ===== verification/Lifecycle.thy ===== *)
theory Lifecycle
  imports Readiness Maintenance Observability RequestInfo
begin

text \<open>
  The life of the two processes: loading the environment (\<open>src/config/env.ts\<close>), starting to serve and
  shutting down on a signal (\<open>src/index.ts\<close>, \<open>src/worker.ts\<close>), with the options they hand to Postgres
  (\<open>src/db/index.ts\<close>), to the server and to the CORS plugin (\<open>src/plugins/cors.ts\<close>). The state is the
  sequence of actions a process has taken; which of the awaited ones fail is decided by the environment.
\<close>

subsection \<open>Loading the environment\<close>

text \<open>
  The functions of TypeBox's \<open>Value\<close> on the schema are parameters. The result is the configuration, or
  the lines written to the console before the process exits with code 1.
\<close>

datatype 'c load_result = Loaded 'c | Refused "string list"

record 'v value_ops =
  vo_Default :: "'v \<Rightarrow> 'v"
  vo_Convert :: "'v \<Rightarrow> 'v"
  vo_Check :: "'v \<Rightarrow> bool"
  vo_Errors :: "'v \<Rightarrow> (string \<times> string) list"

definition loadEnv :: "'v value_ops \<Rightarrow> ('v \<Rightarrow> 'c) \<Rightarrow> 'v \<Rightarrow> 'c load_result" where
  "loadEnv V clean process_env =
     (let value = vo_Convert V (vo_Default V process_env) in
      if \<not> vo_Check V value
      then Refused (([CHR 0xE2, CHR 0x9D, CHR 0x8C] @ '' Invalid environment variables:'') #
             map (\<lambda>(path, message). ''  - '' @ (if path = [] then ''/'' else path) @ '': '' @ message) (vo_Errors V value))
      else Loaded (clean value))"

subsection \<open>Options\<close>

record pool_opts =
  po_url :: string
  po_max :: int
  po_idle_timeout :: int
  po_connect_timeout :: int
  po_statement_timeout :: int

definition queryClient :: "env \<Rightarrow> pool_opts" where
  "queryClient E = \<lparr>po_url = DATABASE_URL E, po_max = DB_POOL_MAX E, po_idle_timeout = DB_IDLE_TIMEOUT E,
     po_connect_timeout = DB_CONNECT_TIMEOUT E, po_statement_timeout = DB_STATEMENT_TIMEOUT E\<rparr>"

record listen_opts =
  lo_port :: int
  lo_maxRequestBodySize :: int
  lo_idleTimeout :: int

definition listen_options :: "env \<Rightarrow> listen_opts" where
  "listen_options E = \<lparr>lo_port = PORT E, lo_maxRequestBodySize = MAX_BODY_SIZE E,
     lo_idleTimeout = REQUEST_IDLE_TIMEOUT E\<rparr>"

record cors_opts =
  co_origin :: "string list option"
  co_methods :: "string list"
  co_allowedHeaders :: "string list"
  co_credentials :: bool
  co_maxAge :: nat

definition corsOptions :: "env \<Rightarrow> cors_opts" where
  "corsOptions E = \<lparr>co_origin = corsOrigin E,
     co_methods = [''GET'', ''POST'', ''PUT'', ''PATCH'', ''DELETE'', ''OPTIONS''],
     co_allowedHeaders = [''Content-Type'', ''Authorization''], co_credentials = True, co_maxAge = 3600\<rparr>"

subsection \<open>Actions of a process\<close>

text \<open>A line of the log stands for the call that writes it, named by its first words.\<close>

datatype action =
    LogLine string
  | Listen listen_opts
  | StopServer
  | EndPool nat
  | CloseRedis
  | CloseQueue
  | CloseWorker string
  | FlushLog
  | Exit nat

record process =
  pr_actions :: "action list"
  pr_fails :: "action \<Rightarrow> bool"

text \<open>A call made for its effect, and one whose promise is awaited and may reject.\<close>

definition perform :: "action \<Rightarrow> (process, unit) prog" where
  "perform a = atom (\<lambda>s. (Inr (), s\<lparr>pr_actions := pr_actions s @ [a]\<rparr>))"

definition await :: "action \<Rightarrow> (process, unit) prog" where
  "await a = atom (\<lambda>s. if pr_fails s a then (Inl (Thrown (js_Error ''close failed'')), s)
     else (Inr (), s\<lparr>pr_actions := pr_actions s @ [a]\<rparr>))"

text \<open>\<open>closeLogger()\<close>: nothing to flush in tests; its promise does not reject.\<close>

definition closeLogger :: "env \<Rightarrow> (process, unit) prog" where
  "closeLogger E = (if fileStream E = None then Ret () else perform FlushLog)"

text \<open>\<open>shutdown(signal)\<close> of the API.\<close>

definition shutdown_api :: "env \<Rightarrow> (process, unit) prog" where
  "shutdown_api E =
     sequ (perform (LogLine ''shutting down''))
    (sequ (await StopServer)
    (sequ (await (EndPool 5))
    (sequ (perform CloseRedis)
    (sequ (if driver E = DriverRedis then await CloseQueue else Ret ())
    (sequ (closeLogger E)
     (perform (Exit 0)))))))"

text \<open>\<open>Promise.all(workers.map((w) => w.close()))\<close>: every worker is asked to close; one rejection rejects.\<close>

fun close_workers :: "string list \<Rightarrow> (process, unit) prog" where
  "close_workers [] = Ret ()"
| "close_workers (q # qs) = atom (\<lambda>s.
     let s1 = (if pr_fails s (CloseWorker q) then s else s\<lparr>pr_actions := pr_actions s @ [CloseWorker q]\<rparr>);
         (r, s2) = run (close_workers qs) s1
     in (if pr_fails s (CloseWorker q) then Inl (Thrown (js_Error ''close failed'')) else r, s2))"

definition shutdown_worker :: "env \<Rightarrow> worker_process \<Rightarrow> (process, unit) prog" where
  "shutdown_worker E W =
     sequ (perform (LogLine ''shutting down worker''))
    (sequ (close_workers (map wk_queue (wp_workers W)))
    (sequ (closeLogger E)
     (perform (Exit 0))))"

text \<open>Start of the API after the readiness check, whose outcome is \<open>boot\<close>'s.\<close>

definition start_api :: "env \<Rightarrow> boot_result \<Rightarrow> (process, unit) prog" where
  "start_api E b =
     (case b of
        ExitCode n \<Rightarrow> sequ (perform (LogLine ''dependencies unavailable'')) (perform (Exit n))
      | Serving \<Rightarrow> sequ (perform (Listen (listen_options E))) (perform (LogLine ''Elysia running'')))"

text \<open>Start of the worker process: the workers and schedules it ends up with, none when it exits.\<close>

definition start_worker :: "env \<Rightarrow> boot_result \<Rightarrow> (process, worker_process option) prog" where
  "start_worker E b =
     (case b of
        ExitCode n \<Rightarrow> sequ (perform (LogLine ''dependencies unavailable'')) (sequ (perform (Exit n)) (Ret None))
      | Serving \<Rightarrow>
          (case worker_main E of
             Inl e \<Rightarrow> Throw e
           | Inr W \<Rightarrow> sequ (perform (LogLine ''worker ready'')) (Ret (Some W))))"

subsection \<open>What a shutdown does\<close>

definition process_start :: "(action \<Rightarrow> bool) \<Rightarrow> process" where
  "process_start fails = \<lparr>pr_actions = [], pr_fails = fails\<rparr>"

lemma run_perform [run_simps]: "run (perform a) s = (Inr (), s\<lparr>pr_actions := pr_actions s @ [a]\<rparr>)"
  by (simp add: perform_def run_simps)

lemma run_await [run_simps]:
  "run (await a) s = (if pr_fails s a then (Inl (Thrown (js_Error ''close failed'')), s)
     else (Inr (), s\<lparr>pr_actions := pr_actions s @ [a]\<rparr>))"
  by (simp add: await_def run_simps)

lemma run_close_workers:
  "run (close_workers qs) s =
     (if \<exists>q \<in> set qs. pr_fails s (CloseWorker q) then Inl (Thrown (js_Error ''close failed'')) else Inr (),
      s\<lparr>pr_actions := pr_actions s @ map CloseWorker (filter (\<lambda>q. \<not> pr_fails s (CloseWorker q)) qs)\<rparr>)"
  by (induction qs arbitrary: s) (auto simp: run_simps Let_def)

text \<open>The calls of the API's shutdown, in order; those awaited stop it when they fail.\<close>

definition api_steps :: "env \<Rightarrow> action list" where
  "api_steps E = [LogLine ''shutting down'', StopServer, EndPool 5, CloseRedis] @
     (if driver E = DriverRedis then [CloseQueue] else []) @ (if isTest E then [] else [FlushLog]) @ [Exit 0]"

definition awaited :: "action \<Rightarrow> bool" where
  "awaited a \<longleftrightarrow> a \<in> {StopServer, EndPool 5, CloseQueue}"

lemma api_shutdown_outcome:
  fixes E :: env and fails :: "action \<Rightarrow> bool"
  defines "stop \<equiv> \<lambda>a. awaited a \<and> fails a" and "s \<equiv> snd (run (shutdown_api E) (process_start fails))"
  shows "pr_actions s = takeWhile (\<lambda>a. \<not> stop a) (api_steps E)"
    and "Exit 0 \<in> set (pr_actions s) \<longleftrightarrow> (\<forall>a \<in> set (api_steps E). \<not> stop a)"
proof -
  show "pr_actions s = takeWhile (\<lambda>a. \<not> stop a) (api_steps E)"
    by (simp add: s_def stop_def shutdown_api_def closeLogger_def fileStream_def process_start_def api_steps_def
        awaited_def run_simps)
  then show "Exit 0 \<in> set (pr_actions s) \<longleftrightarrow> (\<forall>a \<in> set (api_steps E). \<not> stop a)"
    by (auto simp: api_steps_def stop_def awaited_def dest: set_takeWhileD split: if_splits)
qed

text \<open>A worker that fails to close keeps the log from being flushed, not the others from being closed.\<close>

lemma worker_shutdown_outcome:
  fixes E :: env and W :: worker_process and fails :: "action \<Rightarrow> bool"
  defines "qs \<equiv> map wk_queue (wp_workers W)" and "s \<equiv> snd (run (shutdown_worker E W) (process_start fails))"
  shows "set (map CloseWorker (filter (\<lambda>q. \<not> fails (CloseWorker q)) qs)) \<subseteq> set (pr_actions s)"
    and "\<exists>q \<in> set qs. fails (CloseWorker q) \<Longrightarrow> FlushLog \<notin> set (pr_actions s) \<and> Exit 0 \<notin> set (pr_actions s)"
  by (auto simp: s_def qs_def shutdown_worker_def closeLogger_def process_start_def run_simps run_close_workers)

text \<open>
  A worker process that starts serves the three queues and schedules the two sweeps; without Redis as
  the driver it does not start.
\<close>

lemma worker_start_outcome:
  "driver E = DriverRedis \<Longrightarrow> \<exists>W. fst (run (start_worker E Serving) s) = Inr (Some W) \<and>
     map wk_queue (wp_workers W) = [''email'', ''token-cleanup'', ''audit-retention''] \<and> length (wp_repeat W) = 2"
  "driver E \<noteq> DriverRedis \<Longrightarrow> isl (fst (run (start_worker E Serving) s))"
  by (auto simp: start_worker_def worker_main_def startWorker_def scheduleRepeatable_def option_list_def run_simps
      split: option.splits if_splits)

end
