(* ===== verification/Connections.thy ===== *)
theory Connections
  imports Queue Complex_Main
begin

text \<open>
  The options with which the program connects: the queue to Redis (\<open>src/queue/connection.ts\<close>) and the
  mailer to its SMTP server (\<open>src/lib/mailer.ts\<close>). The URL parser is a parameter.
\<close>

subsection \<open>Numbers from text\<close>

text \<open>
  \<open>Number(s)\<close>: the empty text is zero; otherwise a decimal with optional fraction and exponent, a literal
  in base 16, 8 or 2, or \<open>Infinity\<close>, with blanks around it; anything else is \<open>NaN\<close>. The value is exact here,
  where the program rounds it to a double.
\<close>

datatype js_number = NaN | Infinite bool | Finite rat

definition trim_blanks :: "string \<Rightarrow> string" where
  "trim_blanks s = (let blank = (\<lambda>c. c \<in> {CHR '' '', CHR 0x09, CHR 0x0A, CHR 0x0B, CHR 0x0C, CHR 0x0D}) in
     rev (dropWhile blank (rev (dropWhile blank s))))"

definition hex_digit :: "char \<Rightarrow> nat option" where
  "hex_digit c = (let n = of_char c :: nat in
     if is_digit c then Some (digit_val c)
     else if 97 \<le> n \<and> n \<le> 102 then Some (n - 87)
     else if 65 \<le> n \<and> n \<le> 70 then Some (n - 55)
     else None)"

fun radix_digits :: "nat \<Rightarrow> nat \<Rightarrow> string \<Rightarrow> nat option" where
  "radix_digits b acc [] = Some acc"
| "radix_digits b acc (c # cs) =
     (case hex_digit c of
        None \<Rightarrow> None
      | Some d \<Rightarrow> if d < b then radix_digits b (b * acc + d) cs else None)"

definition radix_number :: "nat \<Rightarrow> string \<Rightarrow> js_number" where
  "radix_number b s = (if s = [] then NaN else case radix_digits b 0 s of None \<Rightarrow> NaN | Some n \<Rightarrow> Finite (of_nat n))"

text \<open>Digits with at most one point, at least one digit.\<close>

definition mantissa :: "string \<Rightarrow> rat option" where
  "mantissa s = (let i = takeWhile (\<lambda>c. c \<noteq> CHR ''.'') s; f = drop (Suc (length i)) s in
     if i @ f \<noteq> [] \<and> list_all is_digit (i @ f) then Some (of_nat (dec_val (i @ f)) / 10 ^ length f) else None)"

definition exponent :: "string \<Rightarrow> int option" where
  "exponent s = (case s of
      [] \<Rightarrow> None
    | c # cs \<Rightarrow> if c = CHR ''-'' then map_option (\<lambda>n. - int n) (parse_nat cs)
               else map_option int (parse_nat (if c = CHR ''+'' then cs else s)))"

definition scale10 :: "rat \<Rightarrow> int \<Rightarrow> rat" where
  "scale10 m e = (if 0 \<le> e then m * 10 ^ nat e else m / 10 ^ nat (- e))"

definition unsigned_number :: "string \<Rightarrow> js_number" where
  "unsigned_number s =
     (if s = ''Infinity'' then Infinite True
      else let m = takeWhile (\<lambda>c. c \<notin> {CHR ''e'', CHR ''E''}) s in
        case mantissa m of
          None \<Rightarrow> NaN
        | Some v \<Rightarrow>
            if length m = length s then Finite v
            else (case exponent (drop (Suc (length m)) s) of None \<Rightarrow> NaN | Some e \<Rightarrow> Finite (scale10 v e)))"

definition js_Number :: "string \<Rightarrow> js_number" where
  "js_Number text =
     (let s = trim_blanks text in
      case s of
        [] \<Rightarrow> Finite 0
      | c # cs \<Rightarrow>
          if take 2 s \<in> {''0x'', ''0X''} then radix_number 16 (drop 2 s)
          else if take 2 s \<in> {''0o'', ''0O''} then radix_number 8 (drop 2 s)
          else if take 2 s \<in> {''0b'', ''0B''} then radix_number 2 (drop 2 s)
          else if c = CHR ''+'' then unsigned_number cs
          else if c = CHR ''-'' then (case unsigned_number cs of
              NaN \<Rightarrow> NaN | Infinite p \<Rightarrow> Infinite (\<not> p) | Finite v \<Rightarrow> Finite (- v))
          else unsigned_number s)"

lemma digits_plain:
  assumes "list_all is_digit s" "s \<noteq> []"
  shows "js_Number s = Finite (of_nat (dec_val s))"
proof -
  have digit: "is_digit c" if "c \<in> set s" for c using assms(1) that by (simp add: list_all_iff)
  have ends: "dropWhile P xs = xs" if "\<And>c. c \<in> set xs \<Longrightarrow> \<not> P c" for P and xs :: string
    using that by (cases xs) auto
  have trim: "trim_blanks s = s"
    unfolding trim_blanks_def Let_def by (subst ends, (auto dest!: digit simp: is_digit_def)[1])+ simp
  have whole: "takeWhile P s = s" if "\<And>c. is_digit c \<Longrightarrow> P c" for P
    using that digit by (simp add: takeWhile_eq_all_conv)
  have not_digit: "\<not> is_digit CHR ''x''" "\<not> is_digit CHR ''X''" "\<not> is_digit CHR ''o''" "\<not> is_digit CHR ''O''"
    "\<not> is_digit CHR ''b''" "\<not> is_digit CHR ''B''" "\<not> is_digit CHR ''+''" "\<not> is_digit CHR ''-''" "\<not> is_digit CHR ''I''"
    "\<not> is_digit CHR ''.''" "\<not> is_digit CHR ''e''" "\<not> is_digit CHR ''E''"
    by (simp_all add: is_digit_def)
  have point: "takeWhile (\<lambda>c. c \<noteq> CHR ''.'') s = s" and expo: "takeWhile (\<lambda>c. c \<notin> {CHR ''e'', CHR ''E''}) s = s"
    by (rule whole; use not_digit in auto)+
  have "mantissa s = Some (of_nat (dec_val s))" unfolding mantissa_def Let_def point using assms by simp
  moreover have "s \<noteq> ''Infinity''" using assms(1) not_digit(9) by auto
  ultimately have "unsigned_number s = Finite (of_nat (dec_val s))"
    unfolding unsigned_number_def Let_def expo by simp
  moreover have "list_all is_digit (take 2 s)" using assms(1) by (simp add: list_all_iff) (blast dest: in_set_takeD)
  then have "take 2 s \<noteq> ''0x''" "take 2 s \<noteq> ''0X''" "take 2 s \<noteq> ''0o''" "take 2 s \<noteq> ''0O''"
    "take 2 s \<noteq> ''0b''" "take 2 s \<noteq> ''0B''"
    by (auto simp: not_digit)
  moreover obtain c cs where s: "s = c # cs" using assms(2) by (cases s) auto
  moreover have "c \<noteq> CHR ''+''" "c \<noteq> CHR ''-''" using digit [of c] s not_digit(7,8) by auto
  ultimately show ?thesis unfolding js_Number_def Let_def trim by auto
qed

lemma js_Number_show_nat: "js_Number (show_nat n) = Finite (of_nat n)"
  by (simp add: digits_plain show_nat_digits dec_val_show_nat)

lemma js_Number_examples:
  "js_Number '''' = Finite 0" "js_Number ''abc'' = NaN" "js_Number ''0x10'' = Finite 16" "js_Number ''1.5e2'' = Finite 150"
  by code_simp+

subsection \<open>The queue's connection\<close>

text \<open>The components the program reads of a parsed URL; user name and password are percent-encoded there.\<close>

record url =
  url_hostname :: string
  url_port :: string
  url_username :: string
  url_password :: string
  url_pathname :: string

record connection_opts =
  cn_host :: string
  cn_port :: js_number
  cn_username :: "string option"
  cn_password :: "string option"
  cn_db :: "js_number option"
  cn_maxRetriesPerRequest :: "nat option"

definition or_undefined :: "string \<Rightarrow> string option" where
  "or_undefined s = (if s = [] then None else Some s)"

text \<open>\<open>connection\<close>: \<open>null\<close> unless the driver is Redis; an invalid URL throws while the module loads.\<close>

definition connection :: "(string \<Rightarrow> exn + url) \<Rightarrow> env \<Rightarrow> exn + connection_opts option" where
  "connection parse_url E =
     (if driver E \<noteq> DriverRedis then Inr None
      else (case parse_url (REDIS_URL E) of
          Inl e \<Rightarrow> Inl e
        | Inr u \<Rightarrow> Inr (Some
            \<lparr>cn_host = url_hostname u,
             cn_port = (case js_Number (url_port u) of
                 NaN \<Rightarrow> Finite 6379
               | Finite n \<Rightarrow> if n = 0 then Finite 6379 else Finite n
               | Infinite p \<Rightarrow> Infinite p),
             cn_username = or_undefined (url_username u),
             cn_password = or_undefined (url_password u),
             cn_db = (if length (url_pathname u) > 1 then Some (js_Number (drop 1 (url_pathname u))) else None),
             cn_maxRetriesPerRequest = None\<rparr>)))"

text \<open>A port and a database given as decimal numbers, and their absence.\<close>

lemma connection_decimal:
  assumes "driver E = DriverRedis" "parse_url (REDIS_URL E) = Inr u"
    "url_port u = (case p of None \<Rightarrow> [] | Some n \<Rightarrow> show_nat n)" "p \<noteq> Some 0"
    "url_pathname u = (case d of None \<Rightarrow> [] | Some n \<Rightarrow> CHR ''/'' # show_nat n)"
  shows "\<exists>c. connection parse_url E = Inr (Some c) \<and> cn_host c = url_hostname u \<and>
    cn_port c = Finite (of_nat (default_arg 6379 p)) \<and> cn_db c = map_option (\<lambda>n. Finite (of_nat n)) d"
  using assms js_Number_examples(1)
  by (cases p; cases d) (simp_all add: connection_def js_Number_show_nat default_arg_def)

text \<open>
  The password goes to the queue as it stands in the URL. A password with a character that the URL
  encodes, such as \<open>@\<close>, is therefore not the one that Redis is sent.
\<close>

lemma connection_password_as_in_url:
  assumes "driver E = DriverRedis" "parse_url (REDIS_URL E) = Inr u" "url_password u = ''p%40ss''"
  shows "\<exists>c. connection parse_url E = Inr (Some c) \<and> cn_password c = Some ''p%40ss''"
  using assms by (simp add: connection_def or_undefined_def)

subsection \<open>The SMTP transport\<close>

record smtp_opts =
  sm_host :: string
  sm_port :: int
  sm_secure :: bool
  sm_user :: string
  sm_pass :: string

definition transporter :: "env \<Rightarrow> smtp_opts option" where
  "transporter E =
     (if resolveMode E = Smtp
      then Some \<lparr>sm_host = SMTP_HOST E, sm_port = SMTP_PORT E, sm_secure = SMTP_SECURE E,
                 sm_user = SMTP_USER E, sm_pass = SMTP_PASS E\<rparr>
      else None)"

text \<open>A transport is only made with a host and a user, and never in tests.\<close>

lemma transporter_complete:
  "transporter E = Some s \<Longrightarrow> sm_host s \<noteq> [] \<and> sm_user s \<noteq> [] \<and> \<not> isTest E"
  by (auto simp: transporter_def resolveMode_def Let_def split: if_splits mail_transport.splits)

end
