(* ===== verification/Columns.thy ===== *)
theory Columns
  imports Schemas Observability
begin

text \<open>
  The column schemas of the tables (\<open>src/db/model\<close>), spread from what drizzle-typebox derives of a table,
  and what of them reaches the schema of a public user. The two constructors of drizzle-typebox take a
  table and the refinements of its columns; they are parameters.
\<close>

type_synonym fields = "(string \<times> schema) list"

type_synonym create_schema = "string \<Rightarrow> fields \<Rightarrow> fields"

text \<open>\<open>spread(create(table, refinements), mode)\<close>: the schema is an object already, so the mode creates nothing.\<close>

definition column_fields :: "create_schema \<Rightarrow> string \<Rightarrow> fields \<Rightarrow> spread_mode \<Rightarrow> exn + fields" where
  "column_fields create table refinements mode =
     spread (\<lambda>t. create t []) (\<lambda>t. create t []) (TObject (create table refinements)) (Some mode)"

definition email_refinement :: fields where
  "email_refinement = [(''email'', T_String None None (Some ''email''))]"

record columns =
  cs_users :: fields
  cs_refreshTokens :: fields
  cs_auditLogs :: fields

definition userColumns :: "create_schema \<Rightarrow> spread_mode \<Rightarrow> exn + fields" where
  "userColumns create mode = column_fields create ''users'' email_refinement mode"

definition refreshTokenColumns :: "create_schema \<Rightarrow> spread_mode \<Rightarrow> exn + fields" where
  "refreshTokenColumns create mode = column_fields create ''refresh_tokens'' [] mode"

definition auditLogColumns :: "create_schema \<Rightarrow> spread_mode \<Rightarrow> exn + fields" where
  "auditLogColumns create mode = column_fields create ''audit_logs'' [] mode"

text \<open>One half of \<open>dbSchema\<close>: \<open>insert\<close> or \<open>select\<close>.\<close>

definition dbSchema :: "create_schema \<Rightarrow> spread_mode \<Rightarrow> exn + columns" where
  "dbSchema create mode =
     (case userColumns create mode of Inl e \<Rightarrow> Inl e | Inr us \<Rightarrow>
      (case refreshTokenColumns create mode of Inl e \<Rightarrow> Inl e | Inr rs \<Rightarrow>
      (case auditLogColumns create mode of Inl e \<Rightarrow> Inl e | Inr as \<Rightarrow>
       Inr \<lparr>cs_users = us, cs_refreshTokens = rs, cs_auditLogs = as\<rparr>)))"

text \<open>
  drizzle-typebox as documented: one field for each column, in which a schema given as a refinement
  replaces the one derived of the column.
\<close>

definition refines :: "create_schema \<Rightarrow> bool" where
  "refines create \<longleftrightarrow> (\<forall>t rs. distinct (map fst (create t rs)) \<and>
     (\<forall>c s. map_of rs c = Some s \<and> c \<in> fst ` set (create t []) \<longrightarrow> map_of (create t rs) c = Some s) \<and>
     fst ` set (create t rs) = fst ` set (create t []))"

text \<open>Such a constructor: the given fields, with the refined ones replaced.\<close>

definition refined :: "(string \<Rightarrow> fields) \<Rightarrow> create_schema" where
  "refined base t rs = map (\<lambda>(c, s). (c, case map_of rs c of None \<Rightarrow> s | Some s' \<Rightarrow> s')) (base t)"

lemma refined_keys: "map fst (refined base t rs) = map fst (base t)"
  by (simp add: refined_def split_beta)

lemma map_of_refined:
  "map_of (refined base t rs) c = map_option (\<lambda>s. case map_of rs c of None \<Rightarrow> s | Some s' \<Rightarrow> s') (map_of (base t) c)"
proof -
  have "map_of (map (\<lambda>(k, s). (k, case map_of rs k of None \<Rightarrow> s | Some s' \<Rightarrow> s')) xs) c =
      map_option (\<lambda>s. case map_of rs c of None \<Rightarrow> s | Some s' \<Rightarrow> s') (map_of xs c)" for xs :: fields
    by (induction xs) (auto split: option.split)
  then show ?thesis by (simp add: refined_def)
qed

lemma refines_refined:
  assumes "\<And>t. distinct (map fst (base t))"
  shows "refines (refined base)"
proof -
  have keys: "fst ` set (refined base t rs) = fst ` set (base t)" for t rs
    using refined_keys [of base t rs] by (metis set_map)
  have "map_of (base t) c \<noteq> None" if "c \<in> fst ` set (base t)" for t c
    using that by (simp add: map_of_eq_None_iff)
  then show ?thesis
    using assms by (fastforce simp: refines_def refined_keys keys map_of_refined)
qed

lemma dbSchema_fields:
  assumes "refines create"
  shows "dbSchema create mode = Inr \<lparr>cs_users = create ''users'' email_refinement,
    cs_refreshTokens = create ''refresh_tokens'' [], cs_auditLogs = create ''audit_logs'' []\<rparr>"
proof -
  have "copy_fields (create t rs) = create t rs" for t rs
    using assms by (intro copy_fields_id) (simp add: refines_def)
  then show ?thesis
    by (simp add: dbSchema_def userColumns_def refreshTokenColumns_def auditLogColumns_def column_fields_def spread_def)
qed

text \<open>
  The address of a public user is checked for its format only: the refinement takes the place of the
  column's schema, and with it of the column's width.
\<close>

lemma public_email_schema:
  assumes "refines create" "''email'' \<in> fst ` set (create ''users'' [])"
    and "dbSchema create SelectMode = Inr c" "cols = (\<lambda>k. the (map_of (cs_users c) k))"
  shows "publicUser cols = T_Object
    [(''id'', cols ''id''), (''email'', T_String None None (Some ''email'')), (''name'', cols ''name''), (''role'', cols ''role''),
     (''emailVerified'', T_Boolean), (''totpEnabled'', T_Boolean), (''createdAt'', cols ''createdAt'')]"
proof -
  have "map_of (create ''users'' email_refinement) ''email'' = Some (T_String None None (Some ''email''))"
    using assms(1,2) unfolding refines_def by (auto simp: email_refinement_def)
  moreover have "cs_users c = create ''users'' email_refinement"
    using assms(3) by (auto simp: dbSchema_fields [OF assms(1)])
  ultimately show ?thesis by (simp add: publicUser_def assms(4))
qed

end
