(* ===== verification/Spec2Isabelle.thy ===== *)
theory Spec2Isabelle
  imports App Routes Rotation Custody Families Privilege Removal Sessions Liveness Journey Schemas Races Attempts RateLimit Lifecycle Connections Columns
begin

text \<open>
  A verification library of an ElysiaJS API (paths are under \<open>src/src/\<close>): accounts and sessions with
  rotating refresh tokens, a second factor, one-time codes by mail, permissions, rate limiting, and the
  background worker.

  \<^bold>\<open>The program and its model.\<close> Two processes, the API (\<open>index.ts\<close>, \<open>app.ts\<close>) and the worker
  (\<open>worker.ts\<close>), share Postgres and Redis. A request passes the guards (\<open>plugins/auth.ts\<close>), reaches a
  route (\<open>modules/auth/index.ts\<close>, \<open>modules/user/index.ts\<close>), and the route calls services, which issue
  SQL statements and Redis commands and put mails on a queue. In the model the shared state is the
  record \<open>world\<close> (World): the three tables, the Redis keyspace with expiry, the queued and the sent
  mails, the alerts, the clock in milliseconds, the position in the random source, the module variable
  \<open>dummyHash\<close>, and for each service how the next call to it goes (\<open>Up\<close>, \<open>Down\<close> without effect, or \<open>Lost\<close>:
  carried out, answer lost). A function of the source is a program of the type \<open>prog\<close> (Prog): a sequence
  of atomic actions on the state, with \<open>throw\<close> and \<open>try/catch\<close>. One SQL statement or Redis command is
  one action, so \<open>run\<close> executes a program alone and \<open>pool_run\<close> interleaves any number of them, with an
  environment that lets time pass and services fail (\<open>env_step\<close>). App collects every route, the two
  jobs and the seed as \<open>serve\<close>; Routes has the routes as data.

  \<^bold>\<open>Theories and sources.\<close> Prelude: strings and numbers of the JavaScript library, rows of tables.
  JsErrors: \<open>lib/errors.ts\<close>, \<open>lib/db-errors.ts\<close>, \<open>plugins/error.ts\<close>. Config: \<open>config/env.ts\<close> and the
  record \<open>lib\<close> of third-party functions. LibTime: \<open>lib/time.ts\<close>. LibHash: \<open>lib/hash.ts\<close>. Database:
  \<open>db/schema\<close> with its constraints and the statements the services issue. Cache: \<open>lib/cache.ts\<close>.
  AuditTrail: \<open>lib/audit.ts\<close>. Mail: \<open>lib/mail-templates.ts\<close>, \<open>lib/mailer.ts\<close>. Queue: \<open>queue/define.ts\<close>,
  \<open>queue/email.queue.ts\<close>, failures of \<open>queue/runtime.ts\<close>, \<open>lib/alert.ts\<close>. Permissions:
  \<open>lib/permissions.ts\<close>. RequestInfo: \<open>lib/ip.ts\<close>, \<open>lib/origin.ts\<close>, \<open>plugins/security-headers.ts\<close>. Jwt:
  \<open>lib/jwt.ts\<close>. Guards: \<open>plugins/auth.ts\<close>. AuthService, Otp, PasswordReset, Totp: the services of
  \<open>modules/auth\<close>, over the shared theory Codes of codes with a bounded number of guesses. UserModule:
  \<open>modules/user\<close>, \<open>lib/user-public.ts\<close>, \<open>lib/sanitize.ts\<close>. AuthModule: \<open>modules/auth/index.ts\<close>.
  Schemas: \<open>modules/auth/model.ts\<close>, \<open>modules/user/model.ts\<close>. RateLimit: \<open>plugins/rate-limit.ts\<close>,
  \<open>plugins/rate-limit-store.ts\<close>. Readiness: \<open>lib/readiness.ts\<close>, \<open>plugins/health.ts\<close>. Maintenance:
  \<open>queue/maintenance.queue.ts\<close>, workers and schedules, \<open>db/seed.ts\<close>. Observability: \<open>lib/logger.ts\<close>,
  \<open>plugins/logger.ts\<close>, \<open>plugins/metrics.ts\<close>, \<open>plugins/otel.ts\<close>, \<open>db/utils.ts\<close>. Lifecycle: \<open>loadEnv\<close>,
  \<open>db/index.ts\<close>, \<open>plugins/cors.ts\<close>, start and shutdown of \<open>index.ts\<close> and \<open>worker.ts\<close>.
  Routes: \<open>app.ts\<close>, the options of every route, \<open>plugins/openapi.ts\<close>.
  Connections: \<open>queue/connection.ts\<close> and the transport options of \<open>lib/mailer.ts\<close>. Columns: \<open>db/model\<close>.
  Journey: \<open>load/api-journey.k6.js\<close>, beside \<open>src/src\<close>.

  \<^bold>\<open>Interfaces.\<close> \<open>kv_store\<close> (Cache) is what the services rely on of Redis; \<open>guess_limited\<close> and its
  refinement \<open>counted_code\<close> (Codes) are the contract of a code with an attempt counter, interpreted by the
  email code, the reset code and the MFA challenge; \<open>interleaving\<close> (Prog) lifts an invariant of single
  actions to all interleavings, interpreted in App for the constraints of the tables; \<open>calm_statements\<close> and its extensions
  (Statements) lift a relation that the SQL statements keep to the services, guards and routes,
  interpreted for the count of unused tokens, the set of administrators, the rows of an account and its
  removal; \<open>attempts\<close> (Attempts) is a code and its counter under concurrent guesses, interpreted for the
  three codes;
  \<open>quiet_stock\<close> and its extension
  \<open>token_stock\<close> (Stock) say what a measure of the unused tokens must satisfy to bound them in every
  interleaving, interpreted for the tokens of a hash (Rotation) and of a family (Families).

  \<^bold>\<open>What is proved.\<close>
  \<^item> Of every interleaving: the constraints of the tables hold (App); an unused refresh token yields
    at most one session (Rotation), and only one of the account it was issued to, and none once its
    session has been ended (Custody), and a family of tokens never has two unused ones nor regains one
    after its end (Families); both by metering every program of App against a stock (Stock);
    a login challenge, a reset code and a verification code give at most five verdicts while they last,
    however many requests present codes at once (Attempts, over the locale \<open>attempts\<close>); and requests
    without an administrator's token make no administrator and touch no account of others (Privilege);
    once an account has been removed, no later request logs it in, stores a token for it or shows it
    (Removal; it and Custody use the logic of Results).
  \<^item> Of a single request with the services answering: the complete outcome of presenting a refresh
    token, of registration, login, reset, deletion and listing (AuthService, AuthModule, PasswordReset,
    UserModule), of the guards against their documented matrix (Guards), of every route's response against
    the OpenAPI description (Routes: a documented one refuses unknown tokens, another never verifies one),
    of access tokens under secret rotation (Jwt), of a rate window (RateLimit). The pages of the user list
    partition the active accounts in the documented order, whatever order Postgres comes upon the rows in,
    which may differ from one page to the next (\<open>row_place\<close>; UserModule).
  \<^item> A specification of sessions as chains, one for each login, which refresh, logout and login refine
    (Sessions).
  \<^item> Of sequences of requests: at most five guesses against a code at any times (Otp, PasswordReset,
    Totp), the code of the newest queued mail accepted, by the text of the mail (Otp, PasswordReset:
    \<open>newest_mail\<close> of Queue), increasing TOTP counters (Totp), and a session that lives as long as its client refreshes in time (Liveness); the load test of the repository, a client that registers, reads
    its account and refreshes, passes every check and keeps within the rate limits (Journey). While the services answer, a request ends in
    an internal error only if it registers an address, name or password hash wider than its column, or
    asks for a page with a limit or offset that is no whole number of 63 bits (Weather, by a program
    logic over \<open>prog\<close>; that the schemas let both kinds through is shown in Schemas).
  \<^item> Of the edges: replies conform to their schemas and the schemas bound the requests (Schemas), text
    does not become markup (Mail), one alert for a dead job and none before its last failure (Queue),
    waiting for the dependencies ends (Readiness), the sweeps and the seed (Maintenance: an unexpired token
    behaves as if nothing had been swept, while of an expired and used one the sweep takes the evidence
    of a replay), the steps of a shutdown (Lifecycle).
  \<^item> Behaviour the comments of the code do not promise or exclude: two refreshes, a refresh and a
    reset, or two MFA answers in a race (Races), a counter without expiry (RateLimit), a limit that tells
    accounts apart (PasswordReset), a seed that overlooks a deletion (Maintenance), an address too long
    for its column and a fractional limit of the user list (Schemas).

  \<^bold>\<open>Third-party code\<close> is a parameter: the record \<open>lib\<close> holds the digest, the password hash, the random
  source, the otpauth, sanitize-html and jose packages; what is assumed of them is stated as named
  predicates (\<open>argon2_ok\<close>, \<open>jwt_ok\<close>, \<open>totp_ok\<close>, \<open>rand_bytes_ok\<close>, \<dots>), each of which holds of the instance
  \<open>demo_lib\<close>. The check of TypeBox is the parameter of Schemas with \<open>typebox_ok\<close>, which holds of
  \<open>demo_check\<close>; so are the URL parser of Connections, and drizzle-typebox in Columns, with \<open>refines\<close>.

  \<^bold>\<open>Bounds.\<close> No fuel is used: programs are finite trees, and the one loop of the source that waits
  (\<open>waitForDependencies\<close>) is a recursive function with a measure. The random source gives its \<open>n\<close>-th
  value on the \<open>n\<close>-th draw; theorems on runs of unbounded length that need it not to repeat itself name a
  horizon \<open>H\<close> and require it of the draws below \<open>H\<close> (\<open>source_ok\<close>), since values of fixed length cannot stay
  distinct for ever.

  \<^bold>\<open>Modelling choices.\<close> A string is a list of eight-bit code units, so lengths are those of the UTF-8
  text. Column widths are checked when a row is inserted; the only update of a text column with a
  width that a client chooses is the name, which its schema bounds by the same 255. A statement is
  atomic, as under Postgres's default isolation for single-row predicates. \<open>alerts\<close> are the posts the
  webhook answered. Numbers of the source that only take integral values are integers; the numbers of a
  request (JSON values, the limit and the offset of the user list) and the durations of the metrics and
  the request log are rationals. \<open>jwt_sign\<close> is total: \<open>JWT_ACCESS_EXP\<close>, which \<open>config/env.ts\<close> only
  requires to be a string, is taken to be a span that jose reads, since it throws on others.

  \<^bold>\<open>Not modelled\<close>: BullMQ's own retries and scheduling; the scope of hooks and the parsing of
  requests, which Elysia does; the pages of the OpenAPI plugin; pino, rotating-file-stream, prom-client
  and the exporters behind their options; answering preflight requests (the CORS package); delivery of
  signals. The load test is modelled one virtual user at a time and without refusals of the limiters:
  scheduling the users is k6's, counting hits is elysia-rate-limit's. Tests, migrations and the
  framework's examples under \<open>.agents\<close> are not part of the running program.
\<close>

end
